(* ===== verification/Cerulean_Prelude.thy ===== *)
theory Cerulean_Prelude
  imports
    Main
    "HOL-Library.Word"
    "HOL-Library.AList"
    "HOL-Library.Char_ord"
    "HOL-Library.List_Lexorder"
    "HOL-Library.Multiset"
begin

text \<open>
  Shared vocabulary of the development: the machine types of the Rust sources, the
  arithmetic operations of the Rust standard library that the sources call
  (\<open>saturating_add\<close>, \<open>saturating_sub\<close>, \<open>saturating_mul\<close>, \<open>to_le_bytes\<close>), hash maps as
  association lists with distinct keys, and the generic lemmas on lists, maps and words
  that the component theories rely on.

  Conventions.
  \<^item> \<open>u64\<close>, \<open>u32\<close> and \<open>u8\<close> are words; plain \<open>+\<close>, \<open>-\<close> and \<open>*\<close> wrap around, which is what the
    release profile of the crate does (the manifest sets no \<open>overflow-checks\<close>; a debug build
    panics at exactly those points).
  \<^item> A \<open>[u8; 32]\<close> is a 256-bit word read big-endian: equality is byte-wise equality, and the
    unsigned order of the words is the lexicographic order of the byte arrays.
  \<^item> Lengths, counts and indices (\<open>usize\<close>) of in-memory collections are natural numbers.
  \<^item> A \<open>String\<close> is its list of bytes, so \<open>length\<close> is \<open>str::len\<close> and the list order is the
    byte order Rust compares strings by.
  \<^item> A \<open>Result<T, E>\<close> is a value of the sum \<open>'e + 'a\<close>, \<open>Inl\<close> for \<open>Err\<close>.
\<close>

unbundle bit_operations_syntax

type_synonym u8 = "8 word"
type_synonym u32 = "32 word"
type_synonym u64 = "64 word"
type_synonym hash32 = "256 word"
type_synonym bytes = "8 word list"

named_theorems hm_simps "look-up, domain and size laws of hash maps"
named_theorems u64_simps "unsigned readings of the arithmetic operations"

section \<open>Unsigned arithmetic\<close>

definition sat_add :: "'a::len word \<Rightarrow> 'a word \<Rightarrow> 'a word" where
  "sat_add a b = (if unat a + unat b < 2 ^ LENGTH('a) then a + b else - 1)"

definition sat_sub :: "'a::len word \<Rightarrow> 'a word \<Rightarrow> 'a word" where
  "sat_sub a b = (if a < b then 0 else a - b)"

definition sat_mul :: "'a::len word \<Rightarrow> 'a word \<Rightarrow> 'a word" where
  "sat_mul a b = (if unat a * unat b < 2 ^ LENGTH('a) then a * b else - 1)"

lemma unat_minus_one_word [simp]: "unat (- 1 :: 'a::len word) = 2 ^ LENGTH('a) - 1"
  by (simp add: unsigned_minus_1_eq_mask mask_eq_exp_minus_1)

lemma unat_sat_add [u64_simps]:
  "unat (sat_add a b) = min (unat a + unat b) (2 ^ LENGTH('a) - 1)" for a b :: "'a::len word"
  by (auto simp: sat_add_def unat_word_ariths)

lemma unat_sat_sub [u64_simps]: "unat (sat_sub a b) = unat a - unat b"
  by (auto simp: sat_sub_def unat_sub word_le_nat_alt word_less_nat_alt)

lemma unat_sat_mul [u64_simps]:
  "unat (sat_mul a b) = min (unat a * unat b) (2 ^ LENGTH('a) - 1)" for a b :: "'a::len word"
  by (auto simp: sat_mul_def unat_word_ariths)

lemma unat_add_no_wrap:
  "unat a + unat b < 2 ^ LENGTH('a) \<Longrightarrow> unat (a + b) = unat a + unat b" for a b :: "'a::len word"
  by (simp add: unat_word_ariths)

lemma unat_mul_no_wrap:
  "unat a * unat b < 2 ^ LENGTH('a) \<Longrightarrow> unat (a * b) = unat a * unat b" for a b :: "'a::len word"
  by (simp add: unat_word_ariths)

lemma unat_sub_no_wrap: "b \<le> a \<Longrightarrow> unat (a - b) = unat a - unat b" for a b :: "'a::len word"
  by (rule unat_sub)

text \<open>The wrapping sum of a list of words (\<open>Iterator::sum\<close>).\<close>

lemma unat_sum_list_mod:
  "unat (sum_list xs) = sum_list (map unat xs) mod 2 ^ LENGTH('a)" for xs :: "'a::len word list"
proof (induction xs)
  case (Cons x xs)
  then show ?case by (simp add: unat_word_ariths mod_simps)
qed simp

lemma unat_sum_list:
  "sum_list (map unat xs) < 2 ^ LENGTH('a) \<Longrightarrow> unat (sum_list xs) = sum_list (map unat xs)"
  for xs :: "'a::len word list"
  by (simp add: unat_sum_list_mod)

lemma u64_bound [simp]: "unat (x :: u64) < 18446744073709551616"
  using unsigned_less [of x] by simp

section \<open>Byte strings\<close>

definition le_bytes :: "nat \<Rightarrow> 'a::len word \<Rightarrow> bytes" where
  "le_bytes n w = map (\<lambda>i. ucast (drop_bit (8 * i) w)) [0..<n]"

definition to_le_bytes :: "u64 \<Rightarrow> bytes" where
  "to_le_bytes w = le_bytes 8 w"

text \<open>The 32 bytes of a hash, most significant first.\<close>

definition hash_bytes :: "hash32 \<Rightarrow> bytes" where
  "hash_bytes h = rev (le_bytes 32 h)"

text \<open>The bytes of a string (\<open>as_bytes\<close>).\<close>

definition str_bytes :: "string \<Rightarrow> bytes" where
  "str_bytes s = map (\<lambda>c. word_of_nat (of_char c)) s"

lemma length_le_bytes [simp]: "length (le_bytes n w) = n"
  by (simp add: le_bytes_def)

lemma length_to_le_bytes [simp]: "length (to_le_bytes w) = 8"
  by (simp add: to_le_bytes_def)

lemma length_hash_bytes [simp]: "length (hash_bytes h) = 32"
  by (simp add: hash_bytes_def)

lemma length_str_bytes [simp]: "length (str_bytes s) = length s"
  by (simp add: str_bytes_def)

lemma le_bytes_inj:
  fixes a b :: "'a::len word"
  assumes eq: "le_bytes n a = le_bytes n b" and wide: "LENGTH('a) \<le> 8 * n"
  shows "a = b"
proof (rule bit_word_eqI)
  fix k
  assume k: "k < LENGTH('a)"
  let ?i = "k div 8"
  have i: "?i < n" using k wide by arith
  have "le_bytes n a ! ?i = le_bytes n b ! ?i" using eq by simp
  then have "(ucast (drop_bit (8 * ?i) a) :: 8 word) = ucast (drop_bit (8 * ?i) b)"
    using i by (simp add: le_bytes_def)
  then have "bit (ucast (drop_bit (8 * ?i) a) :: 8 word) (k mod 8)
      = bit (ucast (drop_bit (8 * ?i) b) :: 8 word) (k mod 8)"
    by simp
  then show "bit a k = bit b k"
    by (simp add: bit_ucast_iff bit_drop_bit_eq)
qed

lemma to_le_bytes_inj [simp]: "to_le_bytes a = to_le_bytes b \<longleftrightarrow> a = b"
  by (auto simp: to_le_bytes_def dest: le_bytes_inj)

lemma hash_bytes_inj [simp]: "hash_bytes a = hash_bytes b \<longleftrightarrow> a = b"
  by (auto simp: hash_bytes_def dest: le_bytes_inj)

lemma byte_of_char_inj: "(word_of_nat (of_char c) :: 8 word) = word_of_nat (of_char d) \<longleftrightarrow> c = d"
proof
  assume "(word_of_nat (of_char c) :: 8 word) = word_of_nat (of_char d)"
  then have "unat (word_of_nat (of_char c) :: 8 word) = unat (word_of_nat (of_char d) :: 8 word)"
    by simp
  then have "(of_char c :: nat) = of_char d"
    by (simp add: unat_of_nat take_bit_nat_eq_self)
  then show "c = d" by simp
qed simp

lemma str_bytes_inj [simp]: "str_bytes s = str_bytes t \<longleftrightarrow> s = t"
proof
  assume "str_bytes s = str_bytes t"
  then show "s = t"
    by (auto simp: str_bytes_def byte_of_char_inj inj_on_def intro: map_injective)
qed simp

text \<open>The decimal digits of a number (\<open>Display\<close>).\<close>

fun show_nat_digits :: "nat \<Rightarrow> nat \<Rightarrow> string" where
  "show_nat_digits 0 n = []"
| "show_nat_digits (Suc k) n =
     (if n < 10 then [char_of (48 + n)] else show_nat_digits k (n div 10) @ [char_of (48 + n mod 10)])"

definition show_u64 :: "u64 \<Rightarrow> string" where
  "show_u64 w = show_nat_digits 20 (unat w)"

definition digits_value :: "string \<Rightarrow> nat" where
  "digits_value s = foldl (\<lambda>n ch. 10 * n + (of_char ch - 48)) 0 s"

lemma digits_value_show: "n < 10 ^ k \<Longrightarrow> digits_value (show_nat_digits k n) = n"
proof (induction k arbitrary: n)
  case (Suc k)
  have code: "(of_char (char_of (48 + m :: nat)) :: nat) = 48 + m" if "m < 10" for m
    using that by (simp add: of_char_of)
  show ?case
  proof (cases "n < 10")
    case False
    then have "digits_value (show_nat_digits k (n div 10)) = n div 10" using Suc by (intro Suc.IH) auto
    then show ?thesis using False code [of "n mod 10"] by (simp add: digits_value_def)
  qed (simp add: digits_value_def code)
qed (simp add: digits_value_def)

lemma digits_value_show_u64: "digits_value (show_u64 w) = unat w"
proof -
  have "(18446744073709551616 :: nat) < 10 ^ 20" by simp
  with u64_bound [of w] have "unat w < 10 ^ 20" by (rule less_trans)
  then show ?thesis unfolding show_u64_def by (rule digits_value_show)
qed

lemma show_u64_inj [simp]: "show_u64 a = show_u64 b \<longleftrightarrow> a = b"
  by (metis digits_value_show_u64 word_unat_eq_iff)

section \<open>Chains of checks\<close>

text \<open>
  A function that returns early at the first failed check is a list of checks; \<open>checks\<close> is the error
  of the first one that fails.
\<close>

definition require :: "bool \<Rightarrow> 'e \<Rightarrow> 'e + unit" where
  "require b e = (if b then Inr () else Inl e)"

fun checks :: "('e + unit) list \<Rightarrow> 'e + unit" where
  "checks [] = Inr ()"
| "checks (c # cs) = (case c of Inl e \<Rightarrow> Inl e | Inr _ \<Rightarrow> checks cs)"

lemma require_Inr [simp]: "require b e = Inr u \<longleftrightarrow> b"
  by (simp add: require_def)

lemma require_simps [simp]: "require True e = Inr ()" "require False e = Inl e"
  by (simp_all add: require_def)

lemma checks_Inr: "checks cs = Inr u \<longleftrightarrow> (\<forall>c \<in> set cs. c = Inr ())"
  by (induction cs) (auto split: sum.splits)

section \<open>Hash maps\<close>

text \<open>
  A \<open>HashMap\<close> that the code iterates over is an association list with distinct keys; look-up
  is \<^const>\<open>map_of\<close>. Rust leaves the iteration order unspecified, so no property below
  depends on the position of an entry.
\<close>

type_synonym ('k, 'v) hash_map = "('k \<times> 'v) list"

definition hm_insert :: "'k \<Rightarrow> 'v \<Rightarrow> ('k, 'v) hash_map \<Rightarrow> ('k, 'v) hash_map" where
  "hm_insert k v m = AList.update k v m"

definition hm_remove :: "'k \<Rightarrow> ('k, 'v) hash_map \<Rightarrow> ('k, 'v) hash_map" where
  "hm_remove k m = AList.delete k m"

definition hm_contains :: "'k \<Rightarrow> ('k, 'v) hash_map \<Rightarrow> bool" where
  "hm_contains k m \<longleftrightarrow> map_of m k \<noteq> None"

definition hm_ok :: "('k, 'v) hash_map \<Rightarrow> bool" where
  "hm_ok m \<longleftrightarrow> distinct (map fst m)"

definition hm_total :: "('v \<Rightarrow> 'n::comm_monoid_add) \<Rightarrow> ('k, 'v) hash_map \<Rightarrow> 'n" where
  "hm_total f m = sum_list (map (\<lambda>e. f (snd e)) m)"

definition hm_old :: "('v \<Rightarrow> 'n::comm_monoid_add) \<Rightarrow> ('k, 'v) hash_map \<Rightarrow> 'k \<Rightarrow> 'n" where
  "hm_old f m k = (case map_of m k of None \<Rightarrow> 0 | Some v \<Rightarrow> f v)"

lemma hm_ok_Nil [hm_simps, simp]: "hm_ok []"
  by (simp add: hm_ok_def)

lemma hm_ok_insert [hm_simps, simp]: "hm_ok m \<Longrightarrow> hm_ok (hm_insert k v m)"
  by (simp add: hm_ok_def hm_insert_def distinct_update)

lemma hm_ok_remove [hm_simps, simp]: "hm_ok m \<Longrightarrow> hm_ok (hm_remove k m)"
  by (simp add: hm_ok_def hm_remove_def distinct_delete)

lemma hm_get_insert [hm_simps, simp]:
  "map_of (hm_insert k v m) k' = (if k' = k then Some v else map_of m k')"
  by (simp add: hm_insert_def update_conv')

lemma hm_get_remove [hm_simps, simp]:
  "map_of (hm_remove k m) k' = (if k' = k then None else map_of m k')"
  by (simp add: hm_remove_def delete_conv')

lemma hm_contains_iff: "hm_contains k m \<longleftrightarrow> k \<in> fst ` set m"
  by (auto simp: hm_contains_def map_of_eq_None_iff)

lemma hm_keys_insert [hm_simps]: "fst ` set (hm_insert k v m) = insert k (fst ` set m)"
  by (simp add: hm_insert_def dom_update)

lemma hm_entry_iff: "hm_ok m \<Longrightarrow> (k, v) \<in> set m \<longleftrightarrow> map_of m k = Some v"
  by (auto simp: hm_ok_def dest: map_of_SomeD)

lemma hm_entries_insert [hm_simps]:
  "hm_ok m \<Longrightarrow> set (hm_insert k v m) = insert (k, v) {e \<in> set m. fst e \<noteq> k}"
proof -
  assume ok: "hm_ok m"
  have "e \<in> set (hm_insert k v m) \<longleftrightarrow> e \<in> insert (k, v) {e \<in> set m. fst e \<noteq> k}" for e
    using hm_entry_iff [OF hm_ok_insert [OF ok, of k v], of "fst e" "snd e"]
      hm_entry_iff [OF ok, of "fst e" "snd e"]
    by (cases e) auto
  then show ?thesis by blast
qed

lemma hm_entries_remove [hm_simps]: "set (hm_remove k m) = {e \<in> set m. fst e \<noteq> k}"
  by (auto simp: hm_remove_def AList.delete_eq)

lemma hm_len_insert [hm_simps]:
  "length (hm_insert k v m) = (if hm_contains k m then length m else Suc (length m))"
  by (induction m) (auto simp: hm_insert_def hm_contains_def)

lemma hm_insert_fresh: "\<not> hm_contains k m \<Longrightarrow> hm_insert k v m = m @ [(k, v)]"
  by (induction m) (auto simp: hm_insert_def hm_contains_def split: if_splits)

lemma hm_total_Nil [simp]: "hm_total f [] = 0"
  by (simp add: hm_total_def)

lemma hm_total_Cons [simp]: "hm_total f (e # m) = f (snd e) + hm_total f m"
  by (simp add: hm_total_def)

lemma hm_total_append [simp]: "hm_total f (m @ m') = hm_total f m + hm_total f m'"
  by (simp add: hm_total_def)

lemma hm_total_insert:
  "hm_ok m \<Longrightarrow> hm_total f (hm_insert k v m) + hm_old f m k = hm_total f m + f v"
proof (induction m)
  case (Cons e m)
  then show ?case
    by (cases "fst e = k")
      (auto simp: hm_insert_def hm_ok_def hm_old_def add_ac map_of_eq_None_iff split: option.split)
qed (simp add: hm_insert_def hm_old_def)

lemma hm_total_remove:
  "hm_ok m \<Longrightarrow> hm_total f (hm_remove k m) + hm_old f m k = hm_total f m"
proof (induction m)
  case (Cons e m)
  then show ?case
    by (cases "fst e = k")
      (auto simp: hm_remove_def hm_ok_def hm_old_def add_ac delete_id split: option.split)
qed (simp add: hm_remove_def hm_old_def)

lemma hm_old_le_total: "hm_old f m k \<le> hm_total f m" for f :: "'v \<Rightarrow> nat"
  by (induction m) (auto simp: hm_old_def)

lemma hm_total_cong:
  "(\<And>k v. (k, v) \<in> set m \<Longrightarrow> f v = g v) \<Longrightarrow> hm_total f m = hm_total g m"
  by (auto simp: hm_total_def intro!: arg_cong [where f = sum_list])

section \<open>Lists\<close>

text \<open>The first entry that satisfies a test and the index of the first such entry.\<close>

fun position_of :: "('a \<Rightarrow> bool) \<Rightarrow> 'a list \<Rightarrow> nat option" where
  "position_of P [] = None"
| "position_of P (x # xs) = (if P x then Some 0 else map_option Suc (position_of P xs))"

definition remove_at :: "nat \<Rightarrow> 'a list \<Rightarrow> 'a list" where
  "remove_at i xs = take i xs @ drop (Suc i) xs"

lemma position_of_None: "position_of P xs = None \<longleftrightarrow> (\<forall>x \<in> set xs. \<not> P x)"
  by (induction xs) auto

lemma position_of_Some:
  "position_of P xs = Some i \<Longrightarrow> i < length xs \<and> P (xs ! i) \<and> (\<forall>j < i. \<not> P (xs ! j))"
proof (induction xs arbitrary: i)
  case (Cons x xs)
  then show ?case by (auto split: if_splits simp: nth_Cons' less_Suc_eq_0_disj)
qed simp

lemma set_remove_at:
  assumes "i < length xs" and "distinct xs"
  shows "set (remove_at i xs) = set xs - {xs ! i}"
proof -
  have split: "xs = take i xs @ xs ! i # drop (Suc i) xs"
    using assms(1) by (rule id_take_nth_drop)
  have "distinct (take i xs @ xs ! i # drop (Suc i) xs)"
    using assms(2) split by simp
  moreover have "set xs = set (take i xs) \<union> insert (xs ! i) (set (drop (Suc i) xs))"
    by (subst split) simp
  ultimately show ?thesis
    by (auto simp: remove_at_def)
qed

lemma distinct_remove_at: "distinct xs \<Longrightarrow> distinct (remove_at i xs)"
  by (simp add: remove_at_def set_take_disj_set_drop_if_distinct)

lemma those_map: "(\<And>x. x \<in> set xs \<Longrightarrow> f x = Some (g x)) \<Longrightarrow> those (map f xs) = Some (map g xs)"
  by (induction xs) auto

lemma foldl_add: "foldl (+) a xs = a + sum_list xs" for a :: "'a::comm_monoid_add"
  by (induction xs arbitrary: a) (auto simp: add_ac)

lemma sum_list_of_nat: "(\<Sum>x \<leftarrow> xs. of_nat (f x)) = (of_nat (\<Sum>x \<leftarrow> xs. f x) :: 'a::comm_semiring_1)"
  by (induction xs) auto

lemma in_map_filter: "y \<in> set (List.map_filter f xs) \<longleftrightarrow> (\<exists>x \<in> set xs. f x = Some y)"
  by (induction xs) (auto simp: map_filter_simps split: option.splits)

lemma foldl_max: "foldl (\<lambda>a b. if a > b then a else b) x xs = Max (set (x # xs))" for x :: "'a::linorder"
proof (induction xs arbitrary: x)
  case (Cons y ys)
  then show ?case by (cases "ys = []") (auto simp: max_def)
qed simp

lemma Max_of_Max:
  fixes T :: "'a \<Rightarrow> 'b::linorder set"
  assumes "finite A" and "A \<noteq> {}" and "\<And>x. x \<in> A \<Longrightarrow> finite (T x) \<and> T x \<noteq> {}"
  shows "Max (\<Union> (T ` A)) = Max ((\<lambda>x. Max (T x)) ` A)"
proof (rule antisym)
  show "Max (\<Union> (T ` A)) \<le> Max ((\<lambda>x. Max (T x)) ` A)"
  proof (rule Max.boundedI)
    fix y assume "y \<in> \<Union> (T ` A)"
    then obtain x where x: "x \<in> A" "y \<in> T x" by blast
    then have "y \<le> Max (T x)" using assms(3) by simp
    also have "\<dots> \<le> Max ((\<lambda>x. Max (T x)) ` A)" using x assms(1) by simp
    finally show "y \<le> \<dots>" .
  qed (use assms in auto)
  show "Max ((\<lambda>x. Max (T x)) ` A) \<le> Max (\<Union> (T ` A))"
  proof (rule Max.boundedI)
    fix y assume "y \<in> (\<lambda>x. Max (T x)) ` A"
    then obtain x where x: "x \<in> A" "y = Max (T x)" by blast
    then have "y \<in> T x" using assms(3) [OF x(1)] by simp
    then have "y \<in> \<Union> (T ` A)" using x(1) by blast
    then show "y \<le> Max (\<Union> (T ` A))" using assms by simp
  qed (use assms in auto)
qed

text \<open>
  \<open>sort_by\<close> of the standard library is a stable sort: an insertion sort by the test that the
  first argument does not come after the second.
\<close>

fun insert_by :: "('a \<Rightarrow> 'a \<Rightarrow> bool) \<Rightarrow> 'a \<Rightarrow> 'a list \<Rightarrow> 'a list" where
  "insert_by le x [] = [x]"
| "insert_by le x (y # ys) = (if le x y then x # y # ys else y # insert_by le x ys)"

definition sort_by :: "('a \<Rightarrow> 'a \<Rightarrow> bool) \<Rightarrow> 'a list \<Rightarrow> 'a list" where
  "sort_by le xs = foldr (insert_by le) xs []"

lemma set_insert_by [simp]: "set (insert_by le x ys) = insert x (set ys)"
  by (induction ys) auto

lemma length_insert_by [simp]: "length (insert_by le x ys) = Suc (length ys)"
  by (induction ys) auto

lemma distinct_insert_by: "distinct (map f (insert_by le x ys)) \<longleftrightarrow> f x \<notin> f ` set ys \<and> distinct (map f ys)"
  by (induction ys) auto

lemma mset_insert_by [simp]: "mset (insert_by le x ys) = add_mset x (mset ys)"
  by (induction ys) auto

lemma mset_sort_by: "mset (sort_by le xs) = mset xs"
  by (induction xs) (auto simp: sort_by_def)

lemma set_sort_by [simp]: "set (sort_by le xs) = set xs"
  by (induction xs) (auto simp: sort_by_def)

lemma length_sort_by [simp]: "length (sort_by le xs) = length xs"
  by (induction xs) (auto simp: sort_by_def)

lemma distinct_sort_by [simp]: "distinct (map f (sort_by le xs)) \<longleftrightarrow> distinct (map f xs)"
proof (induction xs)
  case (Cons x xs)
  then show ?case using set_sort_by [of le xs] by (simp add: sort_by_def distinct_insert_by)
qed (simp add: sort_by_def)

lemma sorted_sort_by:
  assumes "\<And>x y. le x y \<or> le y x" and "\<And>x y z. le x y \<Longrightarrow> le y z \<Longrightarrow> le x z"
  shows "sorted_wrt le (sort_by le xs)"
proof -
  have "sorted_wrt le (insert_by le x ys)" if "sorted_wrt le ys" for x ys
    using that
  proof (induction ys)
    case (Cons y ys)
    then show ?case using assms(1) [of x y] assms(2) [of x y] by auto
  qed simp
  then show ?thesis by (induction xs) (auto simp: sort_by_def)
qed

section \<open>Rotations\<close>

lemma mod_add_cancel:
  fixes a i j n :: nat
  assumes "(a + i) mod n = (a + j) mod n" and "i < n" and "j < n"
  shows "i = j"
proof -
  have "i = j" if "j \<le> i" "i < n" "(a + i) mod n = (a + j) mod n" for i j
  proof -
    have "n dvd i - j" using that mod_eq_dvd_iff_nat [of "a + j" "a + i" n] by simp
    then show ?thesis using that by (auto dest: dvd_imp_le)
  qed
  from this [of j i] this [of i j] show ?thesis using assms by (cases "j \<le> i") auto
qed

lemma rotation_unique: "k < n \<Longrightarrow> \<exists>!i. i < n \<and> (a + i) mod n = k" for a k n :: nat
proof (rule ex_ex1I)
  assume k: "k < n"
  have "(a + (k + (n - a mod n)) mod n) mod n = (a mod n + (k + (n - a mod n))) mod n"
    by (simp add: mod_simps)
  also have "a mod n + (k + (n - a mod n)) = k + n"
    using k mod_less_divisor [of n a] by linarith
  finally have "(a + (k + (n - a mod n)) mod n) mod n = k" using k by simp
  then show "\<exists>i. i < n \<and> (a + i) mod n = k" using k by (intro exI [of _ "(k + (n - a mod n)) mod n"]) simp
qed (metis mod_add_cancel)

lemma unat_of_nat_lt: "n < 2 ^ LENGTH('a) \<Longrightarrow> unat (of_nat n :: 'a::len word) = n"
  by (simp add: unsigned_of_nat take_bit_nat_eq_self)

lemma unat_2_power: "k < LENGTH('a) \<Longrightarrow> unat (2 ^ k :: 'a::len word) = 2 ^ k"
  using unat_of_nat_lt [of "2 ^ k", where 'a = 'a] by simp

end
