(* ===== verification/World_State.thy ===== *)
theory World_State
  imports Cerulean_Prelude "HOL-Library.Sublist"
begin

text \<open>
  The versioned world state (\<open>src/src/storage/world_state.rs\<close>): the \<open>WorldState\<close> trait as a
  record of operations (the vtable behind a \<open>&dyn WorldState\<close>) with its contract as the locale
  \<open>world_state\<close>, the in-memory implementation \<open>MemoryWorldState\<close> that interprets the locale,
  and the composite-key helpers.

  The inner \<open>BTreeMap\<close> is an association list sorted by key, which is what its iterator yields;
  the clock read by \<open>put\<close> and \<open>delete\<close> is the parameter \<open>now\<close>; the panic of
  \<open>BTreeMap::range\<close> on a range whose start exceeds its end is the value \<^const>\<open>None\<close>.
\<close>

section \<open>Data\<close>

datatype storage_error =
    RocksDbError string
  | SerializationError string
  | DeserializationError string
  | KeyNotFound string
  | InvalidKeyFormat string
  | BlockHeightMismatch u64 u64
  | TransactionValidationFailed string
  | IdentityNotFound string
  | CredentialNotFound string
  | DataCorrupted string
  | BatchOperationFailed string
  | ColumnFamilyNotFound string
  | SchemaMismatch u32 u32
  | CheckpointError string
  | IoError string
  | InvalidChannelId string
  | OtherStorageError string

record versioned_value =
  vv_version :: u64
  vv_data :: bytes

record history_entry =
  he_version :: u64
  he_data :: bytes
  he_tx_id :: string
  he_timestamp :: u64
  he_is_delete :: bool

type_synonym btree = "(string \<times> versioned_value) list"

record memory_world_state =
  mws_inner :: btree
  mws_history :: "(string, history_entry list) hash_map"

section \<open>The trait\<close>

record 's world_state_ops =
  ws_get :: "'s \<Rightarrow> string \<Rightarrow> storage_error + versioned_value option"
  ws_put :: "'s \<Rightarrow> string \<Rightarrow> bytes \<Rightarrow> 's \<times> (storage_error + u64)"
  ws_delete :: "'s \<Rightarrow> string \<Rightarrow> 's \<times> (storage_error + unit)"
  ws_get_range :: "'s \<Rightarrow> string \<Rightarrow> string \<Rightarrow> (storage_error + btree) option"
  ws_get_history :: "'s \<Rightarrow> string \<Rightarrow> storage_error + history_entry list"

definition next_version :: "versioned_value option \<Rightarrow> u64" where
  "next_version r = (case r of Some v \<Rightarrow> vv_version v + 1 | None \<Rightarrow> 1)"

section \<open>The in-memory implementation\<close>

fun bt_insert :: "string \<Rightarrow> versioned_value \<Rightarrow> btree \<Rightarrow> btree" where
  "bt_insert k v [] = [(k, v)]"
| "bt_insert k v ((k', v') # m) =
     (if k < k' then (k, v) # (k', v') # m
      else if k = k' then (k, v) # m
      else (k', v') # bt_insert k v m)"

definition memory_world_state_new :: memory_world_state where
  "memory_world_state_new = \<lparr>mws_inner = [], mws_history = []\<rparr>"

definition mem_get :: "memory_world_state \<Rightarrow> string \<Rightarrow> storage_error + versioned_value option" where
  "mem_get s key = Inr (map_of (mws_inner s) key)"

definition push_history ::
    "string \<Rightarrow> history_entry \<Rightarrow> (string, history_entry list) hash_map
      \<Rightarrow> (string, history_entry list) hash_map" where
  "push_history key e h =
     hm_insert key ((case map_of h key of None \<Rightarrow> [] | Some es \<Rightarrow> es) @ [e]) h"

definition mem_put ::
    "u64 \<Rightarrow> memory_world_state \<Rightarrow> string \<Rightarrow> bytes \<Rightarrow> memory_world_state \<times> (storage_error + u64)" where
  "mem_put now s key data =
     (let new_version = next_version (map_of (mws_inner s) key) in
      (s\<lparr>mws_inner := bt_insert key \<lparr>vv_version = new_version, vv_data = data\<rparr> (mws_inner s),
         mws_history := push_history key
           \<lparr>he_version = new_version, he_data = data, he_tx_id = [],
            he_timestamp = now, he_is_delete = False\<rparr> (mws_history s)\<rparr>,
       Inr new_version))"

definition mem_delete ::
    "u64 \<Rightarrow> memory_world_state \<Rightarrow> string \<Rightarrow> memory_world_state \<times> (storage_error + unit)" where
  "mem_delete now s key =
     (let del_version = next_version (map_of (mws_inner s) key) in
      (s\<lparr>mws_inner := AList.delete key (mws_inner s),
         mws_history := push_history key
           \<lparr>he_version = del_version, he_data = [], he_tx_id = [],
            he_timestamp = now, he_is_delete = True\<rparr> (mws_history s)\<rparr>,
       Inr ()))"

definition mem_get_range ::
    "memory_world_state \<Rightarrow> string \<Rightarrow> string \<Rightarrow> (storage_error + btree) option" where
  "mem_get_range s start stop =
     (if stop < start then None
      else Some (Inr (filter (\<lambda>(k, v). start \<le> k \<and> k < stop) (mws_inner s))))"

definition mem_get_history ::
    "memory_world_state \<Rightarrow> string \<Rightarrow> storage_error + history_entry list" where
  "mem_get_history s key =
     Inr (case map_of (mws_history s) key of None \<Rightarrow> [] | Some es \<Rightarrow> es)"

definition mem_world_state :: "u64 \<Rightarrow> memory_world_state world_state_ops" where
  "mem_world_state now =
     \<lparr>ws_get = mem_get, ws_put = mem_put now, ws_delete = mem_delete now,
      ws_get_range = mem_get_range, ws_get_history = mem_get_history\<rparr>"

text \<open>The representation invariant of the \<open>BTreeMap\<close>: keys strictly increasing.\<close>

definition mem_ok :: "memory_world_state \<Rightarrow> bool" where
  "mem_ok s \<longleftrightarrow> sorted_wrt (<) (map fst (mws_inner s)) \<and> hm_ok (mws_history s)"

section \<open>Composite keys\<close>

definition COMPOSITE_SEP :: char where
  "COMPOSITE_SEP = CHR 0x00"

definition composite_key :: "string \<Rightarrow> string list \<Rightarrow> string" where
  "composite_key object_type attrs =
     [COMPOSITE_SEP] @ object_type @ [COMPOSITE_SEP] @ concat (map (\<lambda>a. a @ [COMPOSITE_SEP]) attrs)"

text \<open>\<open>str::split\<close> on one character: always at least one piece.\<close>

fun split_on :: "char \<Rightarrow> string \<Rightarrow> string list" where
  "split_on c [] = [[]]"
| "split_on c (x # xs) =
     (if x = c then [] # split_on c xs
      else (case split_on c xs of [] \<Rightarrow> [[x]] | p # ps \<Rightarrow> (x # p) # ps))"

definition parse_composite_key :: "string \<Rightarrow> (string \<times> string list) option" where
  "parse_composite_key key =
     (case key of
        [] \<Rightarrow> None
      | c # rest \<Rightarrow>
          if c \<noteq> COMPOSITE_SEP then None
          else (let parts = split_on COMPOSITE_SEP rest;
                    parts' = (if last parts = [] then butlast parts else parts)
                in (case parts' of [] \<Rightarrow> None | p # ps \<Rightarrow> Some (p, ps))))"

definition get_by_partial_key ::
    "'s world_state_ops \<Rightarrow> 's \<Rightarrow> string \<Rightarrow> string list \<Rightarrow> (storage_error + btree) option" where
  "get_by_partial_key W state object_type partials =
     (let start = composite_key object_type partials;
          stop = butlast start @ [CHR 0x01]
      in ws_get_range W state start stop)"

section \<open>The contract of the trait\<close>

locale world_state =
  fixes W :: "'s world_state_ops" and ok :: "'s \<Rightarrow> bool"
  assumes get_total: "ok s \<Longrightarrow> \<exists>r. ws_get W s k = Inr r"
    and ok_put: "ok s \<Longrightarrow> ok (fst (ws_put W s k d))"
    and get_put: "ok s \<Longrightarrow> ws_get W s k = Inr r \<Longrightarrow>
      ws_get W (fst (ws_put W s k d)) k' =
        (if k' = k then Inr (Some \<lparr>vv_version = next_version r, vv_data = d\<rparr>) else ws_get W s k')"
    and ok_delete: "ok s \<Longrightarrow> ok (fst (ws_delete W s k))"
    and get_delete: "ok s \<Longrightarrow>
      ws_get W (fst (ws_delete W s k)) k' = (if k' = k then Inr None else ws_get W s k')"
    and range_sorted: "ok s \<Longrightarrow> ws_get_range W s start stop = Some (Inr es) \<Longrightarrow>
      sorted_wrt (<) (map fst es)"
    and range_total: "ok s \<Longrightarrow> start \<le> stop \<Longrightarrow> \<exists>es. ws_get_range W s start stop = Some (Inr es)"
    and range_entries: "ok s \<Longrightarrow> ws_get_range W s start stop = Some (Inr es) \<Longrightarrow>
      (k, v) \<in> set es \<longleftrightarrow> start \<le> k \<and> k < stop \<and> ws_get W s k = Inr (Some v)"
begin

lemma put_other: "ok s \<Longrightarrow> k' \<noteq> k \<Longrightarrow> ws_get W (fst (ws_put W s k d)) k' = ws_get W s k'"
  using get_total [of s k] get_put [of s k _ d k'] by auto

lemma delete_put:
  "ok s \<Longrightarrow> ws_get W (fst (ws_delete W (fst (ws_put W s k d)) k)) k' =
     (if k' = k then Inr None else ws_get W s k')"
  by (simp add: get_delete ok_put put_other)

end

section \<open>The in-memory world state keeps the contract\<close>

lemma map_of_bt_insert [simp]:
  "map_of (bt_insert k v m) k' = (if k' = k then Some v else map_of m k')"
  by (induction k v m rule: bt_insert.induct) auto

lemma keys_bt_insert: "fst ` set (bt_insert k v m) = insert k (fst ` set m)"
  by (induction k v m rule: bt_insert.induct) auto

lemma sorted_bt_insert:
  "sorted_wrt (<) (map fst m) \<Longrightarrow> sorted_wrt (<) (map fst (bt_insert k v m))"
proof (induction k v m rule: bt_insert.induct)
  case (2 k v k' v' m)
  have "y \<in> fst ` set (bt_insert k v m) \<Longrightarrow> k' < k \<Longrightarrow> k' < y" for y
    using "2.prems" by (auto simp: keys_bt_insert)
  then show ?case using 2 by (fastforce simp: not_less_iff_gr_or_eq)
qed simp

lemma sorted_keys_distinct: "sorted_wrt (<) (map fst m) \<Longrightarrow> distinct (map fst m)"
  for m :: btree
  by (simp add: strict_sorted_iff)

lemma sorted_filter_keys:
  "sorted_wrt (<) (map fst m) \<Longrightarrow> sorted_wrt (<) (map fst (filter P m))" for m :: btree
  by (induction m) auto

lemma sorted_delete_keys:
  "sorted_wrt (<) (map fst m) \<Longrightarrow> sorted_wrt (<) (map fst (AList.delete k m))" for m :: btree
  by (simp add: AList.delete_eq sorted_filter_keys)

text \<open>Two sorted trees with the same look-ups are the same tree.\<close>

lemma btree_ext:
  fixes m m' :: btree
  assumes "sorted_wrt (<) (map fst m)" and "sorted_wrt (<) (map fst m')"
    and "map_of m = map_of m'"
  shows "m = m'"
proof -
  have "distinct m" "distinct m'" "sorted_wrt (\<lambda>x y. fst x < fst y) m"
    "sorted_wrt (\<lambda>x y. fst x < fst y) m'"
    using assms sorted_keys_distinct by (auto simp: sorted_wrt_map distinct_map)
  moreover have "set m = set m'"
    using assms sorted_keys_distinct by (metis map_of_eq_Some_iff subrelI subset_antisym)
  ultimately show ?thesis
  proof (induction m arbitrary: m')
    case (Cons x m)
    then obtain y n where m': "m' = y # n" by (cases m') auto
    then have "x = y" using Cons.prems by (metis less_imp_not_less list.set_intros(1)
        set_ConsD sorted_wrt.simps(2))
    moreover from this have "set m = set n"
      using Cons.prems m' insert_ident [of x "set m" "set n"] by simp
    ultimately show ?case using Cons m' by simp
  qed simp
qed

interpretation mem: world_state "mem_world_state now" mem_ok
proof (unfold_locales, goal_cases)
  case (6 s start stop es)
  then show ?case
    by (auto simp: mem_world_state_def mem_get_range_def mem_ok_def sorted_filter_keys
        split: if_splits)
next
  case (8 s start stop es k v)
  then show ?case
    by (auto simp: mem_world_state_def mem_get_range_def mem_get_def mem_ok_def
        dest: sorted_keys_distinct split: if_splits)
qed (auto simp: mem_world_state_def mem_get_def mem_put_def mem_delete_def mem_get_range_def
    mem_ok_def push_history_def Let_def sorted_bt_insert sorted_delete_keys
    delete_conv not_less)

section \<open>Composite keys: round trip and prefix scans\<close>

lemma split_on_ne [simp]: "split_on c xs \<noteq> []"
  by (induction c xs rule: split_on.induct) (auto split: list.splits)

lemma split_on_append_sep:
  "c \<notin> set p \<Longrightarrow> split_on c (p @ c # xs) = p # split_on c xs"
  by (induction p) auto

lemma split_on_concat:
  "\<forall>a \<in> set attrs. c \<notin> set a \<Longrightarrow>
     split_on c (concat (map (\<lambda>a. a @ [c]) attrs)) = attrs @ [[]]"
  by (induction attrs) (auto simp: split_on_append_sep)

text \<open>
  C38: a composite key parses back to the object type and the attributes it was built from,
  provided none of them contains the separator.
\<close>

theorem parse_composite_key_roundtrip:
  assumes "COMPOSITE_SEP \<notin> set object_type"
    and "\<forall>a \<in> set attrs. COMPOSITE_SEP \<notin> set a"
  shows "parse_composite_key (composite_key object_type attrs) = Some (object_type, attrs)"
  using assms
  by (simp add: parse_composite_key_def composite_key_def split_on_append_sep split_on_concat Let_def)

theorem parse_composite_key_roundtrip_witness:
  "parse_composite_key (composite_key ''asset'' [''alice'', []]) = Some (''asset'', [''alice'', []])"
  by (rule parse_composite_key_roundtrip) (simp_all add: COMPOSITE_SEP_def)

lemma less_chr_one: "c < CHR 0x01 \<longleftrightarrow> c = CHR 0x00"
proof -
  have "(of_char c :: nat) = 0 \<longleftrightarrow> c = CHR 0x00"
    using of_char_eq_iff [where 'a = nat, of c "CHR 0x00"] by simp
  then show ?thesis by (auto simp: less_char_def)
qed

lemma chr_zero_less: "CHR 0x00 < c \<or> c = CHR 0x00"
proof -
  have "CHR 0x00 \<le> c" by (simp add: less_eq_char_def)
  then show ?thesis by (simp only: order_le_less) blast
qed

text \<open>The half-open range from \<open>p\<close>NUL to \<open>p\<close>SOH holds exactly the strings that extend \<open>p\<close>NUL.\<close>

lemma sep_range_prefix:
  "p @ [CHR 0x00] \<le> k \<and> k < p @ [CHR 0x01] \<longleftrightarrow> prefix (p @ [CHR 0x00]) k"
proof (induction p arbitrary: k)
  case Nil
  show ?case
  proof (cases k)
    case (Cons a x)
    then show ?thesis using less_chr_one [of a] chr_zero_less [of a] by simp metis
  qed simp
next
  case (Cons a p)
  show ?case
  proof (cases k)
    case (Cons b x)
    then show ?thesis using Cons.IH [of x] by simp (metis less_asym)
  qed simp
qed

lemma composite_key_snoc: "\<exists>p. composite_key t attrs = p @ [CHR 0x00]"
  by (induction attrs rule: rev_induct) (simp_all add: composite_key_def COMPOSITE_SEP_def)

lemma composite_range:
  "composite_key t ps \<le> k \<and> k < butlast (composite_key t ps) @ [CHR 0x01] \<longleftrightarrow>
     prefix (composite_key t ps) k"
proof -
  obtain p where "composite_key t ps = p @ [CHR 0x00]" using composite_key_snoc by blast
  then show ?thesis using sep_range_prefix [of p k] by simp
qed

context world_state
begin

lemma partial_key_scan:
  assumes "ok s"
  shows "\<exists>es. get_by_partial_key W s t ps = Some (Inr es) \<and> sorted_wrt (<) (map fst es) \<and>
    (\<forall>k v. (k, v) \<in> set es \<longleftrightarrow> prefix (composite_key t ps) k \<and> ws_get W s k = Inr (Some v))"
proof -
  have "composite_key t ps \<le> butlast (composite_key t ps) @ [CHR 0x01]"
    using composite_range [of t ps "composite_key t ps"] by (simp add: less_imp_le)
  then obtain es where es: "ws_get_range W s (composite_key t ps)
      (butlast (composite_key t ps) @ [CHR 0x01]) = Some (Inr es)"
    using range_total [OF assms] by blast
  then show ?thesis
    using range_sorted [OF assms es] range_entries [OF assms es] composite_range [of t ps]
    by (auto simp: get_by_partial_key_def Let_def)
qed

end

text \<open>
  A partial-key scan of the in-memory world state never panics and returns, in key order,
  exactly the live entries whose key starts with the composite key of the given parts.
\<close>

theorem get_by_partial_key_exact:
  assumes "mem_ok s"
  shows "\<exists>es. get_by_partial_key (mem_world_state now) s t ps = Some (Inr es) \<and>
    sorted_wrt (<) (map fst es) \<and>
    (\<forall>k v. (k, v) \<in> set es \<longleftrightarrow> prefix (composite_key t ps) k \<and> mem_get s k = Inr (Some v))"
  using mem.partial_key_scan [OF assms, of now t ps] by (simp add: mem_world_state_def)

theorem get_by_partial_key_exact_witness:
  "\<exists>es. get_by_partial_key (mem_world_state 7)
      (fst (mem_put 7 memory_world_state_new (composite_key ''a'' [''b'']) [1])) ''a'' [] = Some (Inr es) \<and>
    sorted_wrt (<) (map fst es) \<and>
    (\<forall>k v. (k, v) \<in> set es \<longleftrightarrow> prefix (composite_key ''a'' []) k \<and>
      mem_get (fst (mem_put 7 memory_world_state_new (composite_key ''a'' [''b'']) [1])) k = Inr (Some v))"
  by (rule get_by_partial_key_exact)
    (simp add: mem_ok_def mem_put_def memory_world_state_new_def push_history_def Let_def)

section \<open>The write history agrees with the state\<close>

datatype ws_op = PutOp u64 string bytes | DeleteOp u64 string

fun mem_apply :: "memory_world_state \<Rightarrow> ws_op \<Rightarrow> memory_world_state" where
  "mem_apply s (PutOp now k d) = fst (mem_put now s k d)"
| "mem_apply s (DeleteOp now k) = fst (mem_delete now s k)"

definition live_of_history :: "history_entry list \<Rightarrow> versioned_value option" where
  "live_of_history es =
     (if es = [] \<or> he_is_delete (last es) then None
      else Some \<lparr>vv_version = he_version (last es), vv_data = he_data (last es)\<rparr>)"

text \<open>
  C30: after any sequence of puts and deletes on a fresh in-memory world state, the look-up of a
  key is exactly what the last entry of its recorded history says, and the tree stays sorted.
\<close>

theorem history_determines_state:
  "let s = foldl mem_apply memory_world_state_new ops in
     mem_ok s \<and> mem_get s k = map_sum id live_of_history (mem_get_history s k)"
proof (induction ops rule: rev_induct)
  case Nil
  then show ?case
    by (simp add: memory_world_state_new_def mem_ok_def mem_get_def mem_get_history_def
        live_of_history_def)
next
  case (snoc op ops)
  then show ?case
    by (cases op)
      (auto simp: Let_def mem_put_def mem_delete_def push_history_def mem_ok_def mem_get_def
        mem_get_history_def live_of_history_def hm_simps sorted_bt_insert sorted_delete_keys
        delete_conv')
qed

end
