(* ===== verification/Transactions.thy ===== *)
theory Transactions
  imports World_State
begin

text \<open>
  The transaction data model (\<open>src/src/transaction/\<close>, with the structs it takes from
  \<open>storage/traits.rs\<close>, \<open>endorsement/types.rs\<close> and \<open>identity/signing.rs\<close>), MVCC
  validation and sequential commit (\<open>mvcc.rs\<close>).

  Validation and commit are generic in the world state: they take the record of operations that
  stands for \<open>&dyn WorldState\<close>, and are proved inside the contract \<open>world_state\<close>.  The look-up
  function \<open>ws_view\<close> is the abstract state; \<open>obs_validate\<close>, \<open>obs_writes\<close> and
  \<open>obs_step\<close> are the abstract specification that the concrete operations refine.
\<close>

section \<open>Data\<close>

datatype signing_algorithm = Ed25519 | MlDsa65

definition is_post_quantum :: "signing_algorithm \<Rightarrow> bool" where
  "is_post_quantum a = (case a of MlDsa65 \<Rightarrow> True | Ed25519 \<Rightarrow> False)"

record endorsement =
  en_signer_did :: string
  en_org_id :: string
  en_signature :: bytes
  en_signature_algorithm :: signing_algorithm
  en_payload_hash :: hash32
  en_timestamp :: u64

record transaction =
  tx_id :: string
  tx_block_height :: u64
  tx_timestamp :: u64
  tx_input_did :: string
  tx_output_recipient :: string
  tx_amount :: u64
  tx_state :: string

record kv_read =
  kr_key :: string
  kr_version :: u64

record kv_write =
  kw_key :: string
  kw_value :: bytes

record read_write_set =
  rw_reads :: "kv_read list"
  rw_writes :: "kv_write list"

definition rwset_is_empty :: "read_write_set \<Rightarrow> bool" where
  "rwset_is_empty rw \<longleftrightarrow> rw_reads rw = [] \<and> rw_writes rw = []"

record transaction_proposal =
  tp_tx :: transaction
  tp_creator_did :: string
  tp_creator_signature :: bytes
  tp_signature_algorithm :: signing_algorithm
  tp_rwset :: read_write_set

record endorsed_transaction =
  et_proposal :: transaction_proposal
  et_endorsements :: "endorsement list"
  et_rwset :: read_write_set

section \<open>MVCC validation and sequential commit\<close>

record mvcc_conflict =
  mc_key :: string
  mc_read_version :: u64
  mc_current_version :: u64

fun validate_reads ::
    "'s world_state_ops \<Rightarrow> kv_read list \<Rightarrow> 's \<Rightarrow> mvcc_conflict + unit" where
  "validate_reads W [] state = Inr ()"
| "validate_reads W (r # rs) state =
     (case ws_get W state (kr_key r) of
        Inl _ \<Rightarrow> Inl \<lparr>mc_key = kr_key r, mc_read_version = kr_version r, mc_current_version = 0\<rparr>
      | Inr found \<Rightarrow>
          let current_version = (case found of Some vv \<Rightarrow> vv_version vv | None \<Rightarrow> 0) in
          if kr_version r \<noteq> current_version
          then Inl \<lparr>mc_key = kr_key r, mc_read_version = kr_version r,
                    mc_current_version = current_version\<rparr>
          else validate_reads W rs state)"

definition validate_rwset ::
    "'s world_state_ops \<Rightarrow> read_write_set \<Rightarrow> 's \<Rightarrow> mvcc_conflict + unit" where
  "validate_rwset W rwset state = validate_reads W (rw_reads rwset) state"

fun put_all :: "'s world_state_ops \<Rightarrow> kv_write list \<Rightarrow> 's \<Rightarrow> 's" where
  "put_all W [] state = state"
| "put_all W (w # ws) state = put_all W ws (fst (ws_put W state (kw_key w) (kw_value w)))"

fun commit_block ::
    "'s world_state_ops \<Rightarrow> endorsed_transaction list \<Rightarrow> 's \<Rightarrow> 's \<times> transaction list" where
  "commit_block W [] state = (state, [])"
| "commit_block W (endorsed # txs) state =
     (let tx = tp_tx (et_proposal endorsed);
          (state', tx') =
            (case validate_rwset W (et_rwset endorsed) state of
               Inr _ \<Rightarrow> (put_all W (rw_writes (et_rwset endorsed)) state, tx\<lparr>tx_state := ''committed''\<rparr>)
             | Inl _ \<Rightarrow> (state, tx\<lparr>tx_state := ''mvcc_conflict''\<rparr>));
          (state'', rest) = commit_block W txs state'
      in (state'', tx' # rest))"

section \<open>The abstract specification\<close>

type_synonym view = "string \<Rightarrow> versioned_value option"

definition ws_view :: "'s world_state_ops \<Rightarrow> 's \<Rightarrow> view" where
  "ws_view W s k = (case ws_get W s k of Inr r \<Rightarrow> r | Inl _ \<Rightarrow> None)"

definition view_version :: "view \<Rightarrow> string \<Rightarrow> u64" where
  "view_version \<sigma> k = (case \<sigma> k of Some v \<Rightarrow> vv_version v | None \<Rightarrow> 0)"

definition read_ok :: "view \<Rightarrow> kv_read \<Rightarrow> bool" where
  "read_ok \<sigma> r \<longleftrightarrow> kr_version r = view_version \<sigma> (kr_key r)"

fun obs_reads :: "view \<Rightarrow> kv_read list \<Rightarrow> mvcc_conflict + unit" where
  "obs_reads \<sigma> [] = Inr ()"
| "obs_reads \<sigma> (r # rs) =
     (if read_ok \<sigma> r then obs_reads \<sigma> rs
      else Inl \<lparr>mc_key = kr_key r, mc_read_version = kr_version r,
                mc_current_version = view_version \<sigma> (kr_key r)\<rparr>)"

definition obs_validate :: "view \<Rightarrow> read_write_set \<Rightarrow> mvcc_conflict + unit" where
  "obs_validate \<sigma> rw = obs_reads \<sigma> (rw_reads rw)"

definition obs_put :: "view \<Rightarrow> kv_write \<Rightarrow> view" where
  "obs_put \<sigma> w = \<sigma>(kw_key w \<mapsto> \<lparr>vv_version = next_version (\<sigma> (kw_key w)), vv_data = kw_value w\<rparr>)"

definition obs_writes :: "view \<Rightarrow> kv_write list \<Rightarrow> view" where
  "obs_writes = foldl obs_put"

definition obs_step :: "view \<Rightarrow> read_write_set \<Rightarrow> view" where
  "obs_step \<sigma> rw = (case obs_validate \<sigma> rw of Inr _ \<Rightarrow> obs_writes \<sigma> (rw_writes rw) | Inl _ \<Rightarrow> \<sigma>)"

lemma obs_reads_Inr: "obs_reads \<sigma> rs = Inr u \<longleftrightarrow> (\<forall>r \<in> set rs. read_ok \<sigma> r)"
  by (induction rs) auto

lemma obs_reads_Inl:
  "obs_reads \<sigma> rs = Inl c \<Longrightarrow>
     \<exists>us r vs. rs = us @ r # vs \<and> (\<forall>q \<in> set us. read_ok \<sigma> q) \<and>
       mc_key c = kr_key r \<and> mc_read_version c = kr_version r \<and>
       mc_current_version c = view_version \<sigma> (kr_key r) \<and>
       mc_read_version c \<noteq> mc_current_version c"
proof (induction rs)
  case (Cons r rs)
  show ?case
  proof (cases "read_ok \<sigma> r")
    case True
    then obtain us q vs where "rs = us @ q # vs" "\<forall>q \<in> set us. read_ok \<sigma> q"
        "mc_key c = kr_key q" "mc_read_version c = kr_version q"
        "mc_current_version c = view_version \<sigma> (kr_key q)"
        "mc_read_version c \<noteq> mc_current_version c"
      using Cons by auto
    then show ?thesis using True by (intro exI [of _ "r # us"]) auto
  next
    case False
    then show ?thesis using Cons.prems by (intro exI [of _ "[]"]) (auto simp: read_ok_def)
  qed
qed simp

lemma obs_writes_other: "k \<notin> kw_key ` set ws \<Longrightarrow> obs_writes \<sigma> ws k = \<sigma> k"
  by (induction ws arbitrary: \<sigma>) (auto simp: obs_writes_def obs_put_def)

text \<open>What a batch of writes leaves at a key: the last value, its version raised once per write.\<close>

lemma obs_writes_at:
  "obs_writes \<sigma> ws k =
     (let own = filter (\<lambda>w. kw_key w = k) ws in
      if own = [] then \<sigma> k
      else Some \<lparr>vv_version = view_version \<sigma> k + of_nat (length own), vv_data = kw_value (last own)\<rparr>)"
proof (induction ws rule: rev_induct)
  case (snoc w ws)
  then show ?case
    by (auto simp: obs_writes_def obs_put_def Let_def next_version_def view_version_def
        split: option.splits if_splits)
qed (simp add: obs_writes_def)

lemma obs_reads_cong:
  "(\<And>r. r \<in> set rs \<Longrightarrow> \<sigma> (kr_key r) = \<tau> (kr_key r)) \<Longrightarrow> obs_reads \<sigma> rs = obs_reads \<tau> rs"
  by (induction rs) (simp_all add: read_ok_def view_version_def)

section \<open>The concrete operations refine it\<close>

context world_state
begin

lemma get_view: "ok s \<Longrightarrow> ws_get W s k = Inr (ws_view W s k)"
  using get_total [of s k] by (auto simp: ws_view_def)

lemma validate_reads_view: "ok s \<Longrightarrow> validate_reads W rs s = obs_reads (ws_view W s) rs"
  by (induction rs) (simp_all add: get_view read_ok_def view_version_def Let_def)

lemma validate_view: "ok s \<Longrightarrow> validate_rwset W rw s = obs_validate (ws_view W s) rw"
  by (simp add: validate_rwset_def obs_validate_def validate_reads_view)

lemma view_put:
  assumes "ok s"
  shows "ws_view W (fst (ws_put W s (kw_key w) (kw_value w))) = obs_put (ws_view W s) w"
proof
  fix k
  show "ws_view W (fst (ws_put W s (kw_key w) (kw_value w))) k = obs_put (ws_view W s) w k"
    using get_put [OF assms get_view [OF assms], of "kw_key w" "kw_value w" k]
      get_view [OF assms, of k]
    by (simp add: obs_put_def ws_view_def)
qed

lemma put_all_view:
  "ok s \<Longrightarrow> ok (put_all W ws s) \<and> ws_view W (put_all W ws s) = obs_writes (ws_view W s) ws"
  by (induction ws arbitrary: s) (simp_all add: ok_put view_put obs_writes_def)

end

text \<open>
  MVCC validation accepts a read set exactly when every read carries the version the key has
  in the state, an absent key having version 0; a rejection reports the first stale read with the
  version read and the version found.
\<close>

theorem validate_rwset_correct:
  assumes "mem_ok s"
  shows "case validate_rwset (mem_world_state now) rw s of
      Inr _ \<Rightarrow> \<forall>r \<in> set (rw_reads rw). read_ok (map_of (mws_inner s)) r
    | Inl c \<Rightarrow> \<exists>rs r rs'. rw_reads rw = rs @ r # rs' \<and> (\<forall>q \<in> set rs. read_ok (map_of (mws_inner s)) q) \<and>
        mc_key c = kr_key r \<and> mc_read_version c = kr_version r \<and>
        mc_current_version c = view_version (map_of (mws_inner s)) (kr_key r) \<and>
        mc_read_version c \<noteq> mc_current_version c"
proof -
  have v: "ws_view (mem_world_state now) s = map_of (mws_inner s)"
    by (simp add: fun_eq_iff ws_view_def mem_world_state_def mem_get_def)
  note vv = mem.validate_view [OF assms, of now rw, unfolded v]
  show ?thesis
    using obs_reads_Inl [of "map_of (mws_inner s)" "rw_reads rw"]
      obs_reads_Inr [of "map_of (mws_inner s)" "rw_reads rw"]
    by (simp add: vv obs_validate_def split: sum.split)
qed

theorem validate_rwset_correct_witness:
  "validate_rwset (mem_world_state 5)
     \<lparr>rw_reads = [\<lparr>kr_key = ''a'', kr_version = 0\<rparr>], rw_writes = []\<rparr> memory_world_state_new = Inr () \<and>
   (case validate_rwset (mem_world_state 5)
     \<lparr>rw_reads = [\<lparr>kr_key = ''a'', kr_version = 0\<rparr>], rw_writes = []\<rparr> memory_world_state_new of
      Inr _ \<Rightarrow> read_ok (map_of (mws_inner memory_world_state_new)) \<lparr>kr_key = ''a'', kr_version = 0\<rparr>
    | Inl c \<Rightarrow> False)"
  using validate_rwset_correct [where s = memory_world_state_new and now = 5 and rw =
      "\<lparr>rw_reads = [\<lparr>kr_key = ''a'', kr_version = 0\<rparr>], rw_writes = []\<rparr>"]
  by (simp add: validate_rwset_def mem_world_state_def mem_get_def memory_world_state_new_def
      mem_ok_def)

end
