(* ===== verification/Parallel.thy ===== *)
theory Parallel
  imports Complex_Main Transactions
begin

text \<open>
  Conflict analysis and wave scheduling (\<open>src/src/transaction/parallel.rs\<close>).  A \<open>HashSet\<close> of
  keys or of indices that is only tested or maximised is the list of its elements; the
  parallelism ratio, which the source holds as \<open>f64\<close>, is the exact quotient.
\<close>

section \<open>Definitions\<close>

record tx_with_rwset =
  tw_index :: nat
  tw_tx_id :: string
  tw_rwset :: read_write_set

record wave =
  wv_wave_id :: nat
  wv_tx_indices :: "nat list"

record batch_schedule =
  bs_waves :: "wave list"
  bs_total_txs :: nat
  bs_wave_count :: nat
  bs_parallelism_ratio :: rat

definition is_disjoint :: "string list \<Rightarrow> string list \<Rightarrow> bool" where
  "is_disjoint xs ys = list_all (\<lambda>x. \<not> List.member ys x) xs"

definition read_keys :: "read_write_set \<Rightarrow> string list" where
  "read_keys rw = map kr_key (rw_reads rw)"

definition write_keys :: "read_write_set \<Rightarrow> string list" where
  "write_keys rw = map kw_key (rw_writes rw)"

definition depends_on :: "read_write_set \<Rightarrow> read_write_set \<Rightarrow> bool" where
  "depends_on rw_j rw_i =
     (let raw = \<not> is_disjoint (write_keys rw_i) (read_keys rw_j);
          waw = \<not> is_disjoint (write_keys rw_i) (write_keys rw_j);
          war = \<not> is_disjoint (read_keys rw_i) (write_keys rw_j)
      in raw \<or> waw \<or> war)"

definition build_deps :: "tx_with_rwset list \<Rightarrow> nat list list" where
  "build_deps txs =
     map (\<lambda>j. filter (\<lambda>i. depends_on (tw_rwset (txs ! j)) (tw_rwset (txs ! i))) [0..<j])
       [0..<length txs]"

definition assign_wave :: "nat list list \<Rightarrow> nat list \<Rightarrow> nat \<Rightarrow> nat list" where
  "assign_wave deps wave_assignment i =
     wave_assignment[i :=
       (if deps ! i = [] then 0
        else fold max (map (\<lambda>d. wave_assignment ! d) (deps ! i)) 0 + 1)]"

definition wave_assignment :: "tx_with_rwset list \<Rightarrow> nat list" where
  "wave_assignment txs =
     foldl (assign_wave (build_deps txs)) (replicate (length txs) 0) [0..<length txs]"

definition push_wave :: "tx_with_rwset list \<Rightarrow> wave list \<Rightarrow> nat \<times> nat \<Rightarrow> wave list" where
  "push_wave txs waves = (\<lambda>(i, w).
     waves[w := (waves ! w)\<lparr>wv_tx_indices := wv_tx_indices (waves ! w) @ [tw_index (txs ! i)]\<rparr>])"

definition schedule_batch :: "tx_with_rwset list \<Rightarrow> batch_schedule" where
  "schedule_batch txs =
     (let n = length txs in
      if n = 0
      then \<lparr>bs_waves = [], bs_total_txs = 0, bs_wave_count = 0, bs_parallelism_ratio = 0\<rparr>
      else
        (let wa = wave_assignment txs;
             wave_count = fold max wa 0 + 1;
             empty_waves = map (\<lambda>wid. \<lparr>wv_wave_id = wid, wv_tx_indices = []\<rparr>) [0..<wave_count];
             waves = foldl (push_wave txs) empty_waves (List.enumerate 0 wa)
         in \<lparr>bs_waves = waves, bs_total_txs = n, bs_wave_count = wave_count,
             bs_parallelism_ratio =
               (if wave_count > 0 then of_nat n / of_nat wave_count else 0)\<rparr>))"

definition conflicts :: "read_write_set \<Rightarrow> read_write_set \<Rightarrow> bool" where
  "conflicts a b =
     (let raw = \<not> is_disjoint (write_keys a) (read_keys b) \<or> \<not> is_disjoint (write_keys b) (read_keys a);
          waw = \<not> is_disjoint (write_keys a) (write_keys b)
      in raw \<or> waw)"

section \<open>Conflicts\<close>

lemma is_disjoint_iff: "is_disjoint xs ys \<longleftrightarrow> set xs \<inter> set ys = {}"
  by (auto simp: is_disjoint_def list_all_iff)

lemma conflicts_iff:
  "conflicts a b \<longleftrightarrow>
     set (write_keys a) \<inter> set (read_keys b) \<noteq> {} \<or> set (write_keys b) \<inter> set (read_keys a) \<noteq> {} \<or>
     set (write_keys a) \<inter> set (write_keys b) \<noteq> {}"
  by (auto simp: conflicts_def is_disjoint_iff)

lemma conflicts_sym: "conflicts a b \<longleftrightarrow> conflicts b a"
  by (auto simp: conflicts_iff)

lemma not_conflicts_sym: "\<not> conflicts a b \<Longrightarrow> \<not> conflicts b a"
  by (simp add: conflicts_sym [of b a])

text \<open>The dependency test inlined in \<open>schedule_batch\<close> is the public \<open>conflicts\<close>.\<close>

lemma depends_on_conflicts: "depends_on b a = conflicts a b"
  by (auto simp: depends_on_def conflicts_def is_disjoint_iff)

section \<open>Wave numbers\<close>

lemma fold_max_ge_init: "a \<le> fold max xs a" for a :: nat
  by (induction xs arbitrary: a) (auto intro: le_trans [OF max.cobounded2])

lemma fold_max_ge: "x \<in> set xs \<Longrightarrow> x \<le> fold max xs a" for a :: nat
  by (induction xs arbitrary: a)
    (auto intro: le_trans [OF max.cobounded1 fold_max_ge_init])

lemma length_assign_wave [simp]: "length (assign_wave deps wa i) = length wa"
  by (simp add: assign_wave_def)

lemma length_fold_assign [simp]: "length (foldl (assign_wave deps) wa is) = length wa"
  by (induction "is" arbitrary: wa) simp_all

lemma length_wave_assignment [simp]: "length (wave_assignment txs) = length txs"
  by (simp add: wave_assignment_def)

lemma length_build_deps [simp]: "length (build_deps txs) = length txs"
  by (simp add: build_deps_def)

lemma build_deps_mem:
  "j < length txs \<Longrightarrow>
     i \<in> set (build_deps txs ! j) \<longleftrightarrow> i < j \<and> conflicts (tw_rwset (txs ! i)) (tw_rwset (txs ! j))"
  by (auto simp: build_deps_def depends_on_conflicts)

text \<open>The loop over the batch gives a later conflicting transaction a larger wave number.\<close>

lemma fold_assign_increasing:
  assumes "m \<le> length txs" and "i < j" and "j < m"
    and "conflicts (tw_rwset (txs ! i)) (tw_rwset (txs ! j))"
  shows "foldl (assign_wave (build_deps txs)) (replicate (length txs) 0) [0..<m] ! i
       < foldl (assign_wave (build_deps txs)) (replicate (length txs) 0) [0..<m] ! j"
  using assms
proof (induction m)
  case (Suc m)
  define wa where "wa = foldl (assign_wave (build_deps txs)) (replicate (length txs) 0) [0..<m]"
  have len: "length wa = length txs" by (simp add: wa_def)
  have step: "foldl (assign_wave (build_deps txs)) (replicate (length txs) 0) [0..<Suc m] =
      assign_wave (build_deps txs) wa m" by (simp add: wa_def)
  show ?case
  proof (cases "j < m")
    case True
    then have "wa ! i < wa ! j" using Suc by (simp add: wa_def)
    then show ?thesis using True Suc.prems len unfolding step by (simp add: assign_wave_def)
  next
    case False
    then have j: "j = m" using Suc.prems by simp
    have i: "i \<in> set (build_deps txs ! m)" using Suc.prems j by (simp add: build_deps_mem)
    then have "wa ! i \<le> fold max (map (\<lambda>d. wa ! d) (build_deps txs ! m)) 0"
      by (intro fold_max_ge) auto
    then show ?thesis
      using Suc.prems i j len unfolding step by (auto simp: assign_wave_def)
  qed
qed simp

lemma wave_assignment_increasing:
  "i < j \<Longrightarrow> j < length txs \<Longrightarrow> conflicts (tw_rwset (txs ! i)) (tw_rwset (txs ! j)) \<Longrightarrow>
     wave_assignment txs ! i < wave_assignment txs ! j"
  using fold_assign_increasing [of "length txs"] by (simp add: wave_assignment_def)

section \<open>Waves\<close>

lemma length_push_wave [simp]: "length (push_wave txs ws p) = length ws"
  by (simp add: push_wave_def split: prod.split)

lemma length_fold_push [simp]: "length (foldl (push_wave txs) ws ps) = length ws"
  by (induction ps arbitrary: ws) simp_all

lemma fold_push_nth:
  assumes "w < length ws"
  shows "foldl (push_wave txs) ws ps ! w =
    (ws ! w)\<lparr>wv_tx_indices := wv_tx_indices (ws ! w) @
       map (\<lambda>(i, _). tw_index (txs ! i)) (filter (\<lambda>(_, v). v = w) ps)\<rparr>"
  using assms
proof (induction ps arbitrary: ws)
  case (Cons p ps)
  then show ?case by (cases "snd p = w") (auto simp: push_wave_def split: prod.splits)
qed simp

definition wave_members :: "nat list \<Rightarrow> nat \<Rightarrow> nat list" where
  "wave_members wa w = filter (\<lambda>i. wa ! i = w) [0..<length wa]"

lemma filter_enumerate:
  "map fst (filter (\<lambda>(_, v). v = w) (List.enumerate 0 wa)) = wave_members wa w"
  by (induction wa rule: rev_induct)
    (auto simp: wave_members_def enumerate_append_eq nth_append intro!: filter_cong)

lemma wave_count_bound: "i < length wa \<Longrightarrow> wa ! i < fold max wa (0::nat) + 1"
  using fold_max_ge [of "wa ! i" wa 0] by simp

lemma schedule_batch_waves:
  assumes "\<And>i. i < length txs \<Longrightarrow> tw_index (txs ! i) = i"
  shows "bs_waves (schedule_batch txs) =
    map (\<lambda>w. \<lparr>wv_wave_id = w, wv_tx_indices = wave_members (wave_assignment txs) w\<rparr>)
      [0..<bs_wave_count (schedule_batch txs)]" (is "?L = ?R")
proof (cases "txs = []")
  case False
  let ?wa = "wave_assignment txs"
  have idx: "map (\<lambda>(i, _). tw_index (txs ! i)) (filter (\<lambda>(_, v). v = w) (List.enumerate 0 ?wa)) =
      wave_members ?wa w" for w
  proof -
    have "map (\<lambda>(i, _). tw_index (txs ! i)) (filter (\<lambda>(_, v). v = w) (List.enumerate 0 ?wa)) =
        map fst (filter (\<lambda>(_, v). v = w) (List.enumerate 0 ?wa))"
      using assms by (auto simp: in_set_enumerate_eq)
    then show ?thesis by (simp add: filter_enumerate)
  qed
  show ?thesis
    using False by (intro nth_equalityI) (auto simp: schedule_batch_def Let_def fold_push_nth idx simp del: upt_Suc)
qed (simp add: schedule_batch_def)

text \<open>The order in which the waves visit the batch.\<close>

definition wave_order :: "batch_schedule \<Rightarrow> nat list" where
  "wave_order sch = concat (map wv_tx_indices (bs_waves sch))"

lemma wave_order_conv:
  assumes "\<And>i. i < length txs \<Longrightarrow> tw_index (txs ! i) = i"
  shows "wave_order (schedule_batch txs) =
    concat (map (wave_members (wave_assignment txs)) [0..<bs_wave_count (schedule_batch txs)])"
  by (simp add: wave_order_def schedule_batch_waves [OF assms] comp_def)

lemma distinct_waves: "distinct (concat (map (wave_members wa) [0..<c]))"
  by (induction c) (auto simp: wave_members_def)

lemma sorted_wrt_waves:
  assumes "\<And>i j. i < length wa \<Longrightarrow> j < length wa \<Longrightarrow> i \<noteq> j \<Longrightarrow> P i j \<Longrightarrow> wa ! i \<le> wa ! j \<Longrightarrow> i < j"
  shows "sorted_wrt (\<lambda>i j. P i j \<longrightarrow> i < j) (concat (map (wave_members wa) [0..<c]))"
proof (induction c)
  case (Suc c)
  have "sorted_wrt (<) (wave_members wa c)"
    by (simp add: wave_members_def sorted_wrt_filter)
  then have "sorted_wrt (\<lambda>i j. P i j \<longrightarrow> i < j) (wave_members wa c)"
    by (rule sorted_wrt_mono_rel [rotated]) simp
  then show ?case
    using Suc by (auto simp: sorted_wrt_append) (auto simp: wave_members_def intro!: assms)
qed simp

text \<open>
  C9: \<open>schedule_batch\<close> puts every transaction of the batch in exactly one wave, no two
  transactions of a wave conflict, each wave lists its transactions in batch order, and of two
  conflicting transactions the earlier one is in the earlier wave.
\<close>

theorem schedule_batch_sound:
  assumes "\<And>i. i < length txs \<Longrightarrow> tw_index (txs ! i) = i"
  shows "let wvs = map wv_tx_indices (bs_waves (schedule_batch txs)) in
    distinct (concat wvs) \<and> set (concat wvs) = {..<length txs} \<and>
    (\<forall>w < length wvs. sorted (wvs ! w) \<and>
       (\<forall>i \<in> set (wvs ! w). \<forall>j \<in> set (wvs ! w). i \<noteq> j \<longrightarrow>
          \<not> conflicts (tw_rwset (txs ! i)) (tw_rwset (txs ! j)))) \<and>
    (\<forall>v < length wvs. \<forall>w < length wvs. \<forall>i \<in> set (wvs ! v). \<forall>j \<in> set (wvs ! w).
       i < j \<longrightarrow> conflicts (tw_rwset (txs ! i)) (tw_rwset (txs ! j)) \<longrightarrow> v < w)"
proof -
  let ?wa = "wave_assignment txs"
  define wvs where "wvs = map wv_tx_indices (bs_waves (schedule_batch txs))"
  have wvs: "wvs = map (wave_members ?wa) [0..<bs_wave_count (schedule_batch txs)]"
    by (simp add: wvs_def schedule_batch_waves [OF assms] comp_def)
  have lt: "?wa ! i < bs_wave_count (schedule_batch txs)" if "i < length txs" for i
    using that wave_count_bound [of i ?wa] by (auto simp: schedule_batch_def Let_def)
  have mem: "i \<in> set (wvs ! w) \<longleftrightarrow> i < length txs \<and> ?wa ! i = w" if "w < length wvs" for i w
    using that by (auto simp: wvs wave_members_def)
  have "set (concat wvs) = {..<length txs}"
    using lt by (auto simp: wvs wave_members_def)
  moreover have "sorted (wvs ! w)" if "w < length wvs" for w
    using that by (auto simp: wvs wave_members_def intro: sorted_wrt_filter)
  moreover have "\<not> conflicts (tw_rwset (txs ! i)) (tw_rwset (txs ! j))"
    if "w < length wvs" "i \<in> set (wvs ! w)" "j \<in> set (wvs ! w)" "i \<noteq> j" for i j w
    using that wave_assignment_increasing [of i j txs] wave_assignment_increasing [of j i txs]
      conflicts_sym by (metis linorder_neqE_nat mem nat_neq_iff)
  ultimately show ?thesis
    using distinct_waves [of ?wa] wave_assignment_increasing [of _ _ txs] mem
    unfolding wvs_def [symmetric] Let_def by (auto simp: wvs)
qed

theorem schedule_batch_sound_witness:
  "let txs = [\<lparr>tw_index = 0, tw_tx_id = ''t0'',
                tw_rwset = \<lparr>rw_reads = [], rw_writes = [\<lparr>kw_key = ''k'', kw_value = [1]\<rparr>]\<rparr>\<rparr>,
              \<lparr>tw_index = 1, tw_tx_id = ''t1'',
                tw_rwset = \<lparr>rw_reads = [\<lparr>kr_key = ''k'', kr_version = 0\<rparr>], rw_writes = []\<rparr>\<rparr>];
       wvs = map wv_tx_indices (bs_waves (schedule_batch txs))
   in wvs = [[0], [1]] \<and> distinct (concat wvs) \<and> set (concat wvs) = {..<length txs}"
proof -
  define txs where "txs = [\<lparr>tw_index = 0, tw_tx_id = ''t0'',
      tw_rwset = \<lparr>rw_reads = [], rw_writes = [\<lparr>kw_key = ''k'', kw_value = [1]\<rparr>]\<rparr>\<rparr>,
    \<lparr>tw_index = 1, tw_tx_id = ''t1'',
      tw_rwset = \<lparr>rw_reads = [\<lparr>kr_key = ''k'', kr_version = 0\<rparr>], rw_writes = []\<rparr>\<rparr>]"
  have "i < length txs \<Longrightarrow> tw_index (txs ! i) = i" for i
    by (auto simp: txs_def less_Suc_eq)
  from schedule_batch_sound [OF this]
  have "distinct (concat (map wv_tx_indices (bs_waves (schedule_batch txs)))) \<and>
      set (concat (map wv_tx_indices (bs_waves (schedule_batch txs)))) = {..<length txs}"
    by (simp only: Let_def)
  moreover have "map wv_tx_indices (bs_waves (schedule_batch txs)) = [[0], [1]]"
    unfolding txs_def by code_simp
  ultimately show ?thesis by (simp add: Let_def txs_def)
qed

end
