(* ===== verification/Executor.thy ===== *)
theory Executor
  imports Parallel
begin

text \<open>
  The block executors (\<open>src/src/transaction/executor.rs\<close>): the synchronous wave executor, the
  concurrent one, and the conversion to the legacy result list, with the theorems that both give
  the state and the outcomes of the sequential \<open>commit_block\<close>.

  The tasks of the concurrent executor only read the state, so each is its result on the state at
  the start of the wave; whether awaiting the task of transaction \<open>i\<close> succeeds (the runtime may
  report a join error) is the parameter \<open>joined\<close>.
\<close>

section \<open>Definitions\<close>

datatype tx_outcome = Committed | MvccConflictOutcome string

record block_exec_result =
  be_outcomes :: "(string \<times> tx_outcome) list"
  be_schedule :: batch_schedule
  be_committed_count :: nat
  be_conflict_count :: nat

datatype validation_result = Valid nat | Conflict nat string

type_synonym outcome_slots = "(string \<times> tx_outcome) option list"

text \<open>The mutable locals of the executors: the outcome slots and the two counters.\<close>

record exec_acc =
  ea_outcomes :: outcome_slots
  ea_committed :: nat
  ea_conflicts :: nat

definition prepare_schedule ::
    "endorsed_transaction list \<Rightarrow> batch_schedule \<times> tx_with_rwset list" where
  "prepare_schedule txs =
     (let batch = map (\<lambda>(i, endorsed). \<lparr>tw_index = i, tw_tx_id = tx_id (tp_tx (et_proposal endorsed)),
                                       tw_rwset = et_rwset endorsed\<rparr>) (List.enumerate 0 txs)
      in (schedule_batch batch, batch))"

definition fill_unscheduled :: "endorsed_transaction list \<Rightarrow> exec_acc \<Rightarrow> exec_acc" where
  "fill_unscheduled txs acc =
     acc\<lparr>ea_outcomes :=
           map (\<lambda>(i, slot). case slot of
                  None \<Rightarrow> Some (tx_id (tp_tx (et_proposal (txs ! i))), MvccConflictOutcome ''unscheduled'')
                | Some o' \<Rightarrow> Some o') (List.enumerate 0 (ea_outcomes acc)),
         ea_conflicts := ea_conflicts acc + length (filter (\<lambda>slot. slot = None) (ea_outcomes acc))\<rparr>"

definition exec_tx ::
    "'s world_state_ops \<Rightarrow> endorsed_transaction list \<Rightarrow> 's \<times> exec_acc \<Rightarrow> nat \<Rightarrow> 's \<times> exec_acc" where
  "exec_tx W txs = (\<lambda>(state, acc) idx.
     let endorsed = txs ! idx; txid = tx_id (tp_tx (et_proposal endorsed)) in
     case validate_rwset W (et_rwset endorsed) state of
       Inr _ \<Rightarrow>
         (put_all W (rw_writes (et_rwset endorsed)) state,
          acc\<lparr>ea_outcomes := (ea_outcomes acc)[idx := Some (txid, Committed)],
              ea_committed := ea_committed acc + 1\<rparr>)
     | Inl conflict \<Rightarrow>
         (state,
          acc\<lparr>ea_outcomes := (ea_outcomes acc)[idx := Some (txid, MvccConflictOutcome (mc_key conflict))],
              ea_conflicts := ea_conflicts acc + 1\<rparr>))"

definition exec_wave ::
    "'s world_state_ops \<Rightarrow> endorsed_transaction list \<Rightarrow> 's \<times> exec_acc \<Rightarrow> wave \<Rightarrow> 's \<times> exec_acc" where
  "exec_wave W txs st wv = foldl (exec_tx W txs) st (sort (wv_tx_indices wv))"

definition exec_init :: "endorsed_transaction list \<Rightarrow> exec_acc" where
  "exec_init txs =
     \<lparr>ea_outcomes = replicate (length txs) None, ea_committed = 0, ea_conflicts = 0\<rparr>"

definition exec_result ::
    "endorsed_transaction list \<Rightarrow> batch_schedule \<Rightarrow> exec_acc \<Rightarrow> block_exec_result" where
  "exec_result txs schedule acc =
     (let acc' = fill_unscheduled txs acc in
      \<lparr>be_outcomes = map the (ea_outcomes acc'), be_schedule = schedule,
       be_committed_count = ea_committed acc', be_conflict_count = ea_conflicts acc'\<rparr>)"

definition execute_block_parallel ::
    "'s world_state_ops \<Rightarrow> endorsed_transaction list \<Rightarrow> 's \<Rightarrow> 's \<times> block_exec_result" where
  "execute_block_parallel W txs state =
     (let schedule = fst (prepare_schedule txs);
          (state', acc) = foldl (exec_wave W txs) (state, exec_init txs) (bs_waves schedule)
      in (state', exec_result txs schedule acc))"

definition validate_task ::
    "'s world_state_ops \<Rightarrow> endorsed_transaction list \<Rightarrow> 's \<Rightarrow> nat \<Rightarrow> validation_result" where
  "validate_task W txs state idx =
     (case validate_rwset W (et_rwset (txs ! idx)) state of
        Inr _ \<Rightarrow> Valid idx
      | Inl conflict \<Rightarrow> Conflict idx (mc_key conflict))"

fun collect_result ::
    "endorsed_transaction list \<Rightarrow> exec_acc \<times> nat list \<Rightarrow> validation_result option
      \<Rightarrow> exec_acc \<times> nat list" where
  "collect_result txs (acc, valid) (Some (Valid idx)) = (acc, valid @ [idx])"
| "collect_result txs (acc, valid) (Some (Conflict idx key)) =
     (acc\<lparr>ea_outcomes := (ea_outcomes acc)[idx :=
            Some (tx_id (tp_tx (et_proposal (txs ! idx))), MvccConflictOutcome key)],
          ea_conflicts := ea_conflicts acc + 1\<rparr>, valid)"
| "collect_result txs (acc, valid) None = (acc, valid)"

definition apply_valid ::
    "'s world_state_ops \<Rightarrow> endorsed_transaction list \<Rightarrow> 's \<times> exec_acc \<Rightarrow> nat \<Rightarrow> 's \<times> exec_acc" where
  "apply_valid W txs = (\<lambda>(state, acc) idx.
     let endorsed = txs ! idx in
     (put_all W (rw_writes (et_rwset endorsed)) state,
      acc\<lparr>ea_outcomes := (ea_outcomes acc)[idx := Some (tx_id (tp_tx (et_proposal endorsed)), Committed)],
          ea_committed := ea_committed acc + 1\<rparr>))"

definition exec_wave_concurrent ::
    "(nat \<Rightarrow> bool) \<Rightarrow> 's world_state_ops \<Rightarrow> endorsed_transaction list \<Rightarrow> 's \<times> exec_acc \<Rightarrow> wave
      \<Rightarrow> 's \<times> exec_acc" where
  "exec_wave_concurrent joined W txs = (\<lambda>(state, acc) wv.
     let sorted_indices = sort (wv_tx_indices wv);
         handles = map (\<lambda>idx. if joined idx then Some (validate_task W txs state idx) else None)
                     sorted_indices;
         (acc', valid_indices) = foldl (collect_result txs) (acc, []) handles
     in foldl (apply_valid W txs) (state, acc') (sort valid_indices))"

definition execute_block_concurrent ::
    "(nat \<Rightarrow> bool) \<Rightarrow> 's world_state_ops \<Rightarrow> endorsed_transaction list \<Rightarrow> 's \<Rightarrow> 's \<times> block_exec_result" where
  "execute_block_concurrent joined W txs state =
     (let schedule = fst (prepare_schedule txs);
          (state', acc) =
            foldl (exec_wave_concurrent joined W txs) (state, exec_init txs) (bs_waves schedule)
      in (state', exec_result txs schedule acc))"

definition to_legacy_results ::
    "endorsed_transaction list \<Rightarrow> block_exec_result \<Rightarrow> transaction list" where
  "to_legacy_results txs result =
     map (\<lambda>(i, (_, outcome)).
       (tp_tx (et_proposal (txs ! i)))\<lparr>tx_state :=
          (case outcome of Committed \<Rightarrow> ''committed'' | MvccConflictOutcome _ \<Rightarrow> ''mvcc_conflict'')\<rparr>)
       (List.enumerate 0 (be_outcomes result))"

section \<open>Non-conflicting transactions commute\<close>

lemma obs_writes_local: "\<sigma> k = \<tau> k \<Longrightarrow> obs_writes \<sigma> ws k = obs_writes \<tau> ws k"
  by (simp add: obs_writes_at Let_def view_version_def)

lemma obs_step_other: "k \<notin> set (write_keys rw) \<Longrightarrow> obs_step \<sigma> rw k = \<sigma> k"
  by (auto simp: obs_step_def write_keys_def obs_writes_other split: sum.split)

lemma obs_validate_unaffected:
  "\<not> conflicts a b \<Longrightarrow> obs_validate (obs_step \<sigma> a) b = obs_validate \<sigma> b"
  unfolding obs_validate_def
  by (rule obs_reads_cong, rule obs_step_other) (auto simp: conflicts_iff read_keys_def)

lemma obs_step_commute:
  assumes "\<not> conflicts a b"
  shows "obs_step (obs_step \<sigma> a) b = obs_step (obs_step \<sigma> b) a"
proof
  fix k
  have va: "obs_validate (obs_step \<sigma> b) a = obs_validate \<sigma> a"
    and vb: "obs_validate (obs_step \<sigma> a) b = obs_validate \<sigma> b"
    using obs_validate_unaffected [OF assms] obs_validate_unaffected [OF not_conflicts_sym [OF assms]]
    by simp_all
  have loc: "\<upsilon> k = \<tau> k \<Longrightarrow> obs_validate \<upsilon> c = obs_validate \<tau> c \<Longrightarrow> obs_step \<upsilon> c k = obs_step \<tau> c k"
    for \<upsilon> \<tau> c by (cases "obs_validate \<tau> c") (simp_all add: obs_step_def obs_writes_local [of \<upsilon> k \<tau>])
  consider "k \<notin> set (write_keys a)" | "k \<notin> set (write_keys b)"
    using assms by (auto simp: conflicts_iff)
  then show "obs_step (obs_step \<sigma> a) b k = obs_step (obs_step \<sigma> b) a k"
  proof cases
    case 1
    then show ?thesis using loc [of "obs_step \<sigma> a" \<sigma> b] vb by (simp add: obs_step_other)
  next
    case 2
    then show ?thesis using loc [of \<sigma> "obs_step \<sigma> b" a] va by (simp add: obs_step_other)
  qed
qed

section \<open>Runs over index sequences\<close>

definition obs_run :: "(nat \<Rightarrow> read_write_set) \<Rightarrow> view \<Rightarrow> nat list \<Rightarrow> view" where
  "obs_run rw = foldl (\<lambda>\<sigma> i. obs_step \<sigma> (rw i))"

fun obs_outs ::
    "(nat \<Rightarrow> read_write_set) \<Rightarrow> view \<Rightarrow> nat list \<Rightarrow> nat \<Rightarrow> (mvcc_conflict + unit) option" where
  "obs_outs rw \<sigma> [] j = None"
| "obs_outs rw \<sigma> (i # is) j =
     (if j = i then Some (obs_validate \<sigma> (rw i)) else obs_outs rw (obs_step \<sigma> (rw i)) is j)"

lemma obs_run_simps [simp]:
  "obs_run rw \<sigma> [] = \<sigma>"
  "obs_run rw \<sigma> (i # is) = obs_run rw (obs_step \<sigma> (rw i)) is"
  by (simp_all add: obs_run_def)

lemma obs_outs_None: "i \<notin> set is \<Longrightarrow> obs_outs rw \<sigma> is i = None"
  by (induction rw \<sigma> "is" i rule: obs_outs.induct) simp_all

lemma obs_insort:
  assumes "\<And>z. z \<in> set zs \<Longrightarrow> z < y \<Longrightarrow> \<not> conflicts (rw y) (rw z)" and "y \<notin> set zs"
  shows "obs_run rw \<sigma> (insort y zs) = obs_run rw \<sigma> (y # zs) \<and>
    (\<forall>j. obs_outs rw \<sigma> (insort y zs) j = obs_outs rw \<sigma> (y # zs) j)"
  using assms
proof (induction zs arbitrary: \<sigma>)
  case (Cons z zs)
  show ?case
  proof (cases "y \<le> z")
    case False
    then have nc: "\<not> conflicts (rw y) (rw z)" and ne: "z \<noteq> y" using Cons.prems by auto
    note nc' = not_conflicts_sym [OF nc]
    then show ?thesis
      using False Cons.IH [of "obs_step \<sigma> (rw z)"] Cons.prems
        obs_step_commute [OF nc, of \<sigma>] obs_validate_unaffected [OF nc, of \<sigma>]
        obs_validate_unaffected [OF nc', of \<sigma>]
      by simp
  qed simp
qed simp

text \<open>Any order that keeps conflicting transactions in index order gives the sorted run.\<close>

lemma obs_sort:
  assumes "distinct is" and "sorted_wrt (\<lambda>i j. conflicts (rw i) (rw j) \<longrightarrow> i < j) is"
  shows "obs_run rw \<sigma> is = obs_run rw \<sigma> (sort is) \<and> (\<forall>j. obs_outs rw \<sigma> is j = obs_outs rw \<sigma> (sort is) j)"
  using assms
proof (induction "is" arbitrary: \<sigma>)
  case (Cons y zs)
  have "\<not> conflicts (rw y) (rw z)" if "z \<in> set (sort zs)" "z < y" for z
    using that Cons.prems by auto
  then show ?case
    using Cons.IH [of "obs_step \<sigma> (rw y)"] Cons.prems obs_insort [of "sort zs" y rw \<sigma>] by simp
qed simp

section \<open>The synchronous executor refines the abstract run\<close>

abbreviation rw_at :: "endorsed_transaction list \<Rightarrow> nat \<Rightarrow> read_write_set" where
  "rw_at txs i \<equiv> et_rwset (txs ! i)"

definition outcome_of :: "mvcc_conflict + unit \<Rightarrow> tx_outcome" where
  "outcome_of v = (case v of Inr _ \<Rightarrow> Committed | Inl c \<Rightarrow> MvccConflictOutcome (mc_key c))"

definition slot_of :: "endorsed_transaction list \<Rightarrow> nat \<Rightarrow> mvcc_conflict + unit \<Rightarrow> string \<times> tx_outcome" where
  "slot_of txs i v = (tx_id (tp_tx (et_proposal (txs ! i))), outcome_of v)"

definition label_of :: "mvcc_conflict + unit \<Rightarrow> string" where
  "label_of v = (case v of Inr _ \<Rightarrow> ''committed'' | Inl _ \<Rightarrow> ''mvcc_conflict'')"

definition n_committed :: "outcome_slots \<Rightarrow> nat" where
  "n_committed os = length (filter (\<lambda>slot. \<exists>t. slot = Some (t, Committed)) os)"

definition n_conflict :: "outcome_slots \<Rightarrow> nat" where
  "n_conflict os = length (filter (\<lambda>slot. \<exists>t k. slot = Some (t, MvccConflictOutcome k)) os)"

definition acc_ok :: "exec_acc \<Rightarrow> bool" where
  "acc_ok acc \<longleftrightarrow> ea_committed acc = n_committed (ea_outcomes acc) \<and>
     ea_conflicts acc = n_conflict (ea_outcomes acc)"

lemma count_update_None:
  assumes "i < length xs" and "xs ! i = None" and "\<not> P None"
  shows "length (filter P (xs[i := Some v])) = length (filter P xs) + (if P (Some v) then 1 else 0)"
proof -
  have xs: "xs = take i xs @ None # drop (Suc i) xs" using assms by (metis id_take_nth_drop)
  have "length (filter P xs) = length (filter P (take i xs)) + length (filter P (drop (Suc i) xs))"
    using arg_cong [OF xs, of "\<lambda>ys. length (filter P ys)"] assms(3) by simp
  then show ?thesis using assms(1) by (simp add: upd_conv_take_nth_drop)
qed

context world_state
begin

lemma exec_tx_view:
  assumes "ok s"
  shows "exec_tx W txs (s, acc) i = (s', acc') \<Longrightarrow>
    ok s' \<and> ws_view W s' = obs_step (ws_view W s) (rw_at txs i) \<and>
    ea_outcomes acc' = (ea_outcomes acc)[i := Some (slot_of txs i (obs_validate (ws_view W s) (rw_at txs i)))]"
  using assms put_all_view [OF assms]
  by (auto simp: exec_tx_def Let_def validate_view obs_step_def slot_of_def outcome_of_def
      split: sum.splits)

lemma exec_tx_acc_ok:
  assumes "acc_ok acc" and "i < length (ea_outcomes acc)" and "ea_outcomes acc ! i = None"
  shows "acc_ok (snd (exec_tx W txs (s, acc) i))"
  using assms
  by (auto simp: exec_tx_def Let_def acc_ok_def n_committed_def n_conflict_def count_update_None
      split: sum.splits)

lemma exec_run:
  assumes "ok s" and "distinct is" and "set is \<subseteq> {..<length (ea_outcomes acc)}"
    and "\<And>i. i \<in> set is \<Longrightarrow> ea_outcomes acc ! i = None" and "acc_ok acc"
    and "foldl (exec_tx W txs) (s, acc) is = (s', acc')"
  shows "ok s' \<and> ws_view W s' = obs_run (rw_at txs) (ws_view W s) is \<and> acc_ok acc' \<and>
    length (ea_outcomes acc') = length (ea_outcomes acc) \<and>
    (\<forall>i < length (ea_outcomes acc). ea_outcomes acc' ! i =
       (case obs_outs (rw_at txs) (ws_view W s) is i of
          Some v \<Rightarrow> Some (slot_of txs i v) | None \<Rightarrow> ea_outcomes acc ! i))"
  using assms
proof (induction "is" arbitrary: s acc)
  case (Cons i "is")
  obtain s1 acc1 where st: "exec_tx W txs (s, acc) i = (s1, acc1)" by (cases "exec_tx W txs (s, acc) i")
  note step = exec_tx_view [OF Cons.prems(1) st]
  have "acc_ok acc1" using exec_tx_acc_ok [of acc i txs s] Cons.prems st by simp
  moreover have "ea_outcomes acc1 ! j = None" if "j \<in> set is" for j
    using that Cons.prems step by (auto simp: nth_list_update)
  ultimately have IH: "ok s' \<and> ws_view W s' = obs_run (rw_at txs) (ws_view W s1) is \<and> acc_ok acc' \<and>
    length (ea_outcomes acc') = length (ea_outcomes acc1) \<and>
    (\<forall>i < length (ea_outcomes acc1). ea_outcomes acc' ! i =
       (case obs_outs (rw_at txs) (ws_view W s1) is i of
          Some v \<Rightarrow> Some (slot_of txs i v) | None \<Rightarrow> ea_outcomes acc1 ! i))"
    using Cons.prems step st by (intro Cons.IH) auto
  have "obs_outs (rw_at txs) (ws_view W s1) is i = None"
    using Cons.prems(2) by (simp add: obs_outs_None)
  then show ?case using IH step by (auto simp: nth_list_update split: option.split)
qed simp

lemma commit_run:
  assumes "ok s" and "\<And>i. i < length txs \<Longrightarrow> rw (k + i) = et_rwset (txs ! i)"
    and "commit_block W txs s = (s', ts)"
  shows "ok s' \<and> ws_view W s' = obs_run rw (ws_view W s) [k..<k + length txs] \<and>
    ts = map (\<lambda>i. (tp_tx (et_proposal (txs ! i)))\<lparr>tx_state :=
      label_of (the (obs_outs rw (ws_view W s) [k..<k + length txs] (k + i)))\<rparr>) [0..<length txs]"
  using assms
proof (induction txs arbitrary: s k ts)
  case (Cons t txs)
  have rw: "rw k = et_rwset t" "\<And>i. i < length txs \<Longrightarrow> rw (Suc k + i) = et_rwset (txs ! i)"
    using Cons.prems(2) [of 0] Cons.prems(2) [of "Suc _"] by auto
  define s1 where "s1 = (case validate_rwset W (et_rwset t) s of
      Inr _ \<Rightarrow> put_all W (rw_writes (et_rwset t)) s | Inl _ \<Rightarrow> s)"
  have s1: "ok s1 \<and> ws_view W s1 = obs_step (ws_view W s) (rw k)"
    using Cons.prems(1) put_all_view
    by (auto simp: s1_def rw validate_view obs_step_def split: sum.splits)
  obtain ts' where c: "commit_block W txs s1 = (s', ts')"
    and ts: "ts = (tp_tx (et_proposal t))\<lparr>tx_state := label_of (validate_rwset W (et_rwset t) s)\<rparr> # ts'"
    using Cons.prems(3) by (auto simp: s1_def label_of_def Let_def split: sum.splits prod.splits)
  have upt: "[k..<k + length (t # txs)] = k # [Suc k..<Suc k + length txs]"
    by (simp add: upt_conv_Cons del: upt_Suc)
  note IH = Cons.IH [OF conjunct1 [OF s1] rw(2) c]
  have "[0..<length (t # txs)] = 0 # map Suc [0..<length txs]"
    by (simp add: map_Suc_upt upt_conv_Cons del: upt_Suc)
  then show ?case
    using IH s1 Cons.prems(1) unfolding upt ts by (simp add: validate_view rw comp_def del: upt_Suc)
qed simp

end

section \<open>The wave order of a block\<close>

definition block_order :: "endorsed_transaction list \<Rightarrow> nat list" where
  "block_order txs = wave_order (fst (prepare_schedule txs))"

lemma prepare_schedule_batch:
  "length (snd (prepare_schedule txs)) = length txs"
  "i < length txs \<Longrightarrow> tw_index (snd (prepare_schedule txs) ! i) = i"
  "i < length txs \<Longrightarrow> tw_rwset (snd (prepare_schedule txs) ! i) = rw_at txs i"
  "fst (prepare_schedule txs) = schedule_batch (snd (prepare_schedule txs))"
  by (simp_all add: prepare_schedule_def Let_def nth_enumerate_eq)

lemma block_waves:
  "bs_waves (fst (prepare_schedule txs)) =
     map (\<lambda>w. \<lparr>wv_wave_id = w, wv_tx_indices = wave_members (wave_assignment (snd (prepare_schedule txs))) w\<rparr>)
       [0..<bs_wave_count (fst (prepare_schedule txs))]"
  using schedule_batch_waves [of "snd (prepare_schedule txs)"] prepare_schedule_batch by simp

lemma block_order_conv:
  "block_order txs = concat (map (wave_members (wave_assignment (snd (prepare_schedule txs))))
     [0..<bs_wave_count (fst (prepare_schedule txs))])"
  by (simp add: block_order_def wave_order_def block_waves comp_def)

lemma sort_wave_members: "sort (wave_members wa w) = wave_members wa w"
  by (rule sorted_sort_id) (simp add: wave_members_def sorted_wrt_filter)

lemma block_order_distinct: "distinct (block_order txs)"
  by (simp add: block_order_conv distinct_waves)

lemma block_order_set: "set (block_order txs) = {..<length txs}"
proof -
  have "wave_assignment (snd (prepare_schedule txs)) ! i < bs_wave_count (fst (prepare_schedule txs))"
    if "i < length txs" for i
    using that wave_count_bound [of i "wave_assignment (snd (prepare_schedule txs))"]
      prepare_schedule_batch(1,4) [of txs]
    by (auto simp: schedule_batch_def Let_def)
  then show ?thesis
    by (auto simp: block_order_conv wave_members_def prepare_schedule_batch(1))
qed

lemma block_order_respects:
  "sorted_wrt (\<lambda>i j. conflicts (rw_at txs i) (rw_at txs j) \<longrightarrow> i < j) (block_order txs)"
  unfolding block_order_conv
proof (rule sorted_wrt_waves)
  fix i j
  let ?b = "snd (prepare_schedule txs)"
  assume ij: "i < length (wave_assignment ?b)" "j < length (wave_assignment ?b)"
    and ne: "i \<noteq> j" and c: "conflicts (rw_at txs i) (rw_at txs j)" and le: "wave_assignment ?b ! i \<le> wave_assignment ?b ! j"
  have "\<not> j < i"
    using ij c le wave_assignment_increasing [of j i ?b]
    by (auto simp: prepare_schedule_batch conflicts_sym [of "rw_at txs j"])
  then show "i < j" using ne by simp
qed

lemma sort_block_order: "sort (block_order txs) = [0..<length txs]"
  by (rule sorted_distinct_set_unique)
    (simp_all add: block_order_distinct block_order_set lessThan_atLeast0)

lemma foldl_exec_wave:
  "foldl (exec_wave W txs) st wvs = foldl (exec_tx W txs) st (concat (map (\<lambda>w. sort (wv_tx_indices w)) wvs))"
  by (induction wvs arbitrary: st) (simp_all add: exec_wave_def)

lemma fold_block_waves:
  "foldl (exec_wave W txs) st (bs_waves (fst (prepare_schedule txs))) =
     foldl (exec_tx W txs) st (block_order txs)"
  by (simp add: foldl_exec_wave block_waves block_order_conv comp_def sort_wave_members)

section \<open>Serialisability\<close>

definition serial_slots ::
    "endorsed_transaction list \<Rightarrow> view \<Rightarrow> (string \<times> tx_outcome) list" where
  "serial_slots txs \<sigma> =
     map (\<lambda>i. slot_of txs i (the (obs_outs (rw_at txs) \<sigma> [0..<length txs] i))) [0..<length txs]"

lemma obs_outs_Some: "i \<in> set is \<Longrightarrow> \<exists>v. obs_outs rw \<sigma> is i = Some v"
  by (induction rw \<sigma> "is" i rule: obs_outs.induct) auto

lemma counts_total:
  "None \<notin> set os \<Longrightarrow> n_committed os + n_conflict os = length os"
proof (induction os)
  case (Cons slot os)
  then obtain t oc where "slot = Some (t, oc)" by (cases slot) auto
  then show ?case using Cons by (cases oc) (auto simp: n_committed_def n_conflict_def)
qed (simp add: n_committed_def n_conflict_def)

lemma fill_nothing:
  assumes "None \<notin> set (ea_outcomes acc)"
  shows "fill_unscheduled txs acc = acc"
proof -
  have "map (\<lambda>(i, slot). case slot of
          None \<Rightarrow> Some (tx_id (tp_tx (et_proposal (txs ! i))), MvccConflictOutcome ''unscheduled'')
        | Some o' \<Rightarrow> Some o') (List.enumerate 0 (ea_outcomes acc)) = ea_outcomes acc"
    using assms
    by (intro nth_equalityI)
      (auto simp: nth_enumerate_eq in_set_conv_nth all_conj_distrib split: option.split)
  moreover have "filter (\<lambda>slot. slot = None) (ea_outcomes acc) = []"
    using assms by (metis (mono_tags, lifting) filter_False)
  ultimately show ?thesis by (simp add: fill_unscheduled_def)
qed

context world_state
begin

lemma parallel_run:
  assumes "ok s" and "execute_block_parallel W txs s = (s', r)"
  shows "ok s' \<and> ws_view W s' = obs_run (rw_at txs) (ws_view W s) [0..<length txs] \<and>
    be_outcomes r = serial_slots txs (ws_view W s) \<and>
    be_committed_count r = n_committed (map Some (be_outcomes r)) \<and>
    be_committed_count r + be_conflict_count r = length txs"
proof -
  obtain acc where f: "foldl (exec_tx W txs) (s, exec_init txs) (block_order txs) = (s', acc)"
    and r: "r = exec_result txs (fst (prepare_schedule txs)) acc"
    using assms(2) by (auto simp: execute_block_parallel_def Let_def fold_block_waves split: prod.splits)
  have "ok s' \<and> ws_view W s' = obs_run (rw_at txs) (ws_view W s) (block_order txs) \<and> acc_ok acc \<and>
      length (ea_outcomes acc) = length (ea_outcomes (exec_init txs)) \<and>
      (\<forall>i < length (ea_outcomes (exec_init txs)). ea_outcomes acc ! i =
       (case obs_outs (rw_at txs) (ws_view W s) (block_order txs) i of
          Some v \<Rightarrow> Some (slot_of txs i v) | None \<Rightarrow> ea_outcomes (exec_init txs) ! i))"
    by (rule exec_run [OF assms(1) block_order_distinct _ _ _ f])
      (auto simp: exec_init_def block_order_set acc_ok_def n_committed_def n_conflict_def)
  then have run: "ok s'" "ws_view W s' = obs_run (rw_at txs) (ws_view W s) [0..<length txs]" "acc_ok acc"
    and len: "length (ea_outcomes acc) = length txs"
    and out: "\<And>i. i < length txs \<Longrightarrow> ea_outcomes acc ! i =
      Some (slot_of txs i (the (obs_outs (rw_at txs) (ws_view W s) [0..<length txs] i)))"
    using obs_sort [OF block_order_distinct block_order_respects, of txs "ws_view W s"]
      obs_outs_Some [of _ "[0..<length txs]" "rw_at txs" "ws_view W s"]
    by (auto simp: sort_block_order exec_init_def split: option.splits)
  have slots: "ea_outcomes acc = map Some (serial_slots txs (ws_view W s))"
    using len out by (intro nth_equalityI) (auto simp: serial_slots_def)
  then have some: "None \<notin> set (ea_outcomes acc)" by auto
  then show ?thesis
    using run slots len counts_total [OF some]
    by (auto simp: r exec_result_def Let_def fill_nothing acc_ok_def comp_def)
qed

lemma legacy_serial:
  assumes "be_outcomes r = serial_slots txs \<sigma>"
  shows "to_legacy_results txs r =
    map (\<lambda>i. (tp_tx (et_proposal (txs ! i)))\<lparr>tx_state :=
      label_of (the (obs_outs (rw_at txs) \<sigma> [0..<length txs] i))\<rparr>) [0..<length txs]"
proof -
  have "(case outcome_of v of Committed \<Rightarrow> ''committed'' | MvccConflictOutcome k \<Rightarrow> ''mvcc_conflict'') =
      label_of v" for v
    by (simp add: outcome_of_def label_of_def split: sum.split)
  then show ?thesis
    by (intro nth_equalityI)
      (simp_all add: to_legacy_results_def assms nth_enumerate_eq slot_of_def serial_slots_def)
qed

lemma parallel_serial:
  assumes "ok s" and "execute_block_parallel W txs s = (s1, r)" and "commit_block W txs s = (s2, ts)"
  shows "ok s1 \<and> ok s2 \<and> ws_view W s1 = ws_view W s2 \<and> to_legacy_results txs r = ts"
  using parallel_run [OF assms(1,2)] commit_run [OF assms(1) _ assms(3), of "rw_at txs" 0]
    legacy_serial [of r txs "ws_view W s"] by simp

end

section \<open>The concurrent executor\<close>

definition put_slot ::
    "endorsed_transaction list \<Rightarrow> (nat \<Rightarrow> mvcc_conflict + unit) \<Rightarrow> outcome_slots \<Rightarrow> nat \<Rightarrow> outcome_slots" where
  "put_slot txs v os i = os[i := Some (slot_of txs i (v i))]"

definition put_tx :: "'s world_state_ops \<Rightarrow> endorsed_transaction list \<Rightarrow> 's \<Rightarrow> nat \<Rightarrow> 's" where
  "put_tx W txs s i = put_all W (rw_writes (rw_at txs i)) s"

text \<open>What a wave does when every validation result in it is fixed in advance by \<open>v\<close>.\<close>

definition wave_effect ::
    "'s world_state_ops \<Rightarrow> endorsed_transaction list \<Rightarrow> (nat \<Rightarrow> mvcc_conflict + unit)
      \<Rightarrow> 's \<times> exec_acc \<Rightarrow> nat list \<Rightarrow> 's \<times> exec_acc" where
  "wave_effect W txs v = (\<lambda>(s, acc) is.
     (foldl (put_tx W txs) s (filter (\<lambda>i. v i = Inr ()) is),
      \<lparr>ea_outcomes = foldl (put_slot txs v) (ea_outcomes acc) is,
       ea_committed = ea_committed acc + length (filter (\<lambda>i. v i = Inr ()) is),
       ea_conflicts = ea_conflicts acc + length (filter (\<lambda>i. v i \<noteq> Inr ()) is)\<rparr>))"

lemma length_fold_slots [simp]: "length (foldl (put_slot txs v) os is) = length os"
  by (induction "is" arbitrary: os) (simp_all add: put_slot_def)

lemma fold_slots_nth:
  "i < length os \<Longrightarrow> foldl (put_slot txs v) os is ! i =
     (if i \<in> set is then Some (slot_of txs i (v i)) else os ! i)"
  by (induction "is" arbitrary: os) (auto simp: put_slot_def nth_list_update)

lemma fold_slots_split:
  "foldl (put_slot txs v) (foldl (put_slot txs v) os (filter (\<lambda>i. \<not> P i) is)) (filter P is) =
     foldl (put_slot txs v) os is"
  by (rule nth_equalityI) (auto simp: fold_slots_nth)

lemma collect_effect:
  "foldl (collect_result txs) (acc, vs) (map (\<lambda>i. Some (case v i of Inr _ \<Rightarrow> Valid i | Inl c \<Rightarrow> Conflict i (mc_key c))) is) =
     (acc\<lparr>ea_outcomes := foldl (put_slot txs v) (ea_outcomes acc) (filter (\<lambda>i. v i \<noteq> Inr ()) is),
          ea_conflicts := ea_conflicts acc + length (filter (\<lambda>i. v i \<noteq> Inr ()) is)\<rparr>,
      vs @ filter (\<lambda>i. v i = Inr ()) is)"
proof (induction "is" arbitrary: acc vs)
  case (Cons i "is")
  then show ?case
    by (cases "v i") (simp_all add: put_slot_def slot_of_def outcome_of_def)
qed simp

lemma apply_valid_effect:
  assumes "\<And>i. i \<in> set is \<Longrightarrow> v i = Inr ()"
  shows "foldl (apply_valid W txs) (s, acc) is =
    (foldl (put_tx W txs) s is,
     acc\<lparr>ea_outcomes := foldl (put_slot txs v) (ea_outcomes acc) is,
         ea_committed := ea_committed acc + length is\<rparr>)"
  using assms
proof (induction "is" arbitrary: s acc)
  case (Cons i "is")
  then show ?case
    by (simp add: apply_valid_def put_slot_def put_tx_def slot_of_def outcome_of_def Let_def)
qed simp

lemma concurrent_wave_effect:
  assumes "sorted (wv_tx_indices wv)" and "\<And>i. i \<in> set (wv_tx_indices wv) \<Longrightarrow> joined i"
  shows "exec_wave_concurrent joined W txs (s, acc) wv =
    wave_effect W txs (\<lambda>i. validate_rwset W (rw_at txs i) s) (s, acc) (wv_tx_indices wv)"
proof -
  let ?v = "\<lambda>i. validate_rwset W (rw_at txs i) s"
  let ?is = "wv_tx_indices wv"
  have tasks: "map (\<lambda>i. if joined i then Some (validate_task W txs s i) else None) ?is =
      map (\<lambda>i. Some (case ?v i of Inr _ \<Rightarrow> Valid i | Inl c \<Rightarrow> Conflict i (mc_key c))) ?is"
    using assms(2) by (simp add: validate_task_def)
  have srt: "sort (filter (\<lambda>i. ?v i = Inr ()) ?is) = filter (\<lambda>i. ?v i = Inr ()) ?is"
    using assms(1) by (simp add: sorted_sort_id sorted_wrt_filter)
  show ?thesis
    unfolding exec_wave_concurrent_def Let_def split sorted_sort_id [OF assms(1)] tasks collect_effect
      append_Nil srt wave_effect_def
    by (subst apply_valid_effect [of _ ?v])
      (simp_all add: fold_slots_split [of txs ?v "ea_outcomes acc" "\<lambda>i. ?v i = Inr ()" ?is])
qed

context world_state
begin

lemma exec_wave_effect:
  assumes "ok s" and "distinct is"
    and "\<And>i j. i \<in> set is \<Longrightarrow> j \<in> set is \<Longrightarrow> i \<noteq> j \<Longrightarrow> \<not> conflicts (rw_at txs i) (rw_at txs j)"
    and "\<And>i. i \<in> set is \<Longrightarrow> v i = obs_validate (ws_view W s) (rw_at txs i)"
  shows "foldl (exec_tx W txs) (s, acc) is = wave_effect W txs v (s, acc) is \<and>
    ok (fst (wave_effect W txs v (s, acc) is))"
  using assms
proof (induction "is" arbitrary: s acc)
  case (Cons i "is")
  obtain s1 acc1 where st: "exec_tx W txs (s, acc) i = (s1, acc1)" by (cases "exec_tx W txs (s, acc) i")
  note step = exec_tx_view [OF Cons.prems(1) st]
  have v: "v j = obs_validate (ws_view W s1) (rw_at txs j)" if "j \<in> set is" for j
  proof -
    have "\<not> conflicts (rw_at txs i) (rw_at txs j)" using that Cons.prems(2,3) by auto
    then show ?thesis using that Cons.prems(4) [of j] step by (simp add: obs_validate_unaffected)
  qed
  have IH: "foldl (exec_tx W txs) (s1, acc1) is = wave_effect W txs v (s1, acc1) is \<and>
      ok (fst (wave_effect W txs v (s1, acc1) is))"
    using Cons.prems step v by (intro Cons.IH) auto
  have vi: "validate_rwset W (rw_at txs i) s = v i"
    using Cons.prems(1,4) by (simp add: validate_view)
  have "wave_effect W txs v (s1, acc1) is = wave_effect W txs v (s, acc) (i # is)"
    using st [symmetric] vi
    by (cases "v i") (auto simp: exec_tx_def wave_effect_def put_slot_def put_tx_def slot_of_def
        outcome_of_def Let_def)
  then show ?case using IH st by simp
qed (simp add: wave_effect_def)

lemma concurrent_waves:
  assumes "ok s"
    and "\<And>w. w \<in> set wvs \<Longrightarrow> sorted (wv_tx_indices w) \<and> distinct (wv_tx_indices w)"
    and "\<And>w i j. w \<in> set wvs \<Longrightarrow> i \<in> set (wv_tx_indices w) \<Longrightarrow> j \<in> set (wv_tx_indices w) \<Longrightarrow> i \<noteq> j
      \<Longrightarrow> \<not> conflicts (rw_at txs i) (rw_at txs j)"
    and "\<And>w i. w \<in> set wvs \<Longrightarrow> i \<in> set (wv_tx_indices w) \<Longrightarrow> joined i"
  shows "foldl (exec_wave_concurrent joined W txs) (s, acc) wvs = foldl (exec_wave W txs) (s, acc) wvs"
  using assms
proof (induction wvs arbitrary: s acc)
  case (Cons w wvs)
  let ?v = "\<lambda>i. validate_rwset W (rw_at txs i) s"
  have e: "foldl (exec_tx W txs) (s, acc) (wv_tx_indices w) = wave_effect W txs ?v (s, acc) (wv_tx_indices w) \<and>
      ok (fst (wave_effect W txs ?v (s, acc) (wv_tx_indices w)))"
    using Cons.prems by (intro exec_wave_effect) (auto simp: validate_view)
  have c: "exec_wave_concurrent joined W txs (s, acc) w = exec_wave W txs (s, acc) w"
    using e Cons.prems(2) [of w] concurrent_wave_effect [of w joined W txs s acc] Cons.prems(4) [of w]
    by (simp add: exec_wave_def sorted_sort_id)
  obtain s1 acc1 where w: "exec_wave W txs (s, acc) w = (s1, acc1)" by force
  then have "ok s1" using e Cons.prems(2) [of w] by (simp add: exec_wave_def sorted_sort_id)
  then have "foldl (exec_wave_concurrent joined W txs) (s1, acc1) wvs = foldl (exec_wave W txs) (s1, acc1) wvs"
    using Cons.prems by (intro Cons.IH) (auto intro: Cons.prems(4))
  then show ?case using c w by simp
qed simp

lemma concurrent_eq_parallel:
  assumes "ok s" and "\<And>i. i < length txs \<Longrightarrow> joined i"
  shows "execute_block_concurrent joined W txs s = execute_block_parallel W txs s"
proof -
  let ?b = "snd (prepare_schedule txs)"
  have nc: "\<not> conflicts (rw_at txs i) (rw_at txs j)"
    if "i < length txs" "j < length txs" "wave_assignment ?b ! i = wave_assignment ?b ! j" "i \<noteq> j" for i j
    using that wave_assignment_increasing [of i j ?b] wave_assignment_increasing [of j i ?b]
    by (cases "i < j") (auto simp: prepare_schedule_batch conflicts_sym [of "rw_at txs i"] not_less)
  have "foldl (exec_wave_concurrent joined W txs) (s, exec_init txs) (bs_waves (fst (prepare_schedule txs)))
      = foldl (exec_wave W txs) (s, exec_init txs) (bs_waves (fst (prepare_schedule txs)))"
    using assms nc
    by (intro concurrent_waves)
      (auto simp: block_waves wave_members_def prepare_schedule_batch(1) sorted_wrt_filter)
  then show ?thesis by (simp add: execute_block_concurrent_def execute_block_parallel_def Let_def)
qed

end

text \<open>
  C10: when every validation task of the concurrent executor completes, it gives exactly the state
  and the result of the synchronous wave executor, although it validates a whole wave before
  applying any of its writes.
\<close>

theorem execute_block_concurrent_equiv:
  assumes "mem_ok s" and "\<And>i. i < length txs \<Longrightarrow> joined i"
  shows "execute_block_concurrent joined (mem_world_state now) txs s =
    execute_block_parallel (mem_world_state now) txs s"
  by (rule mem.concurrent_eq_parallel [OF assms])

lemma mem_view_inner: "ws_view (mem_world_state now) s = map_of (mws_inner s)"
  by (simp add: fun_eq_iff ws_view_def mem_world_state_def mem_get_def)

lemma parallel_serializable_mem:
  assumes "mem_ok s"
  shows "let (s1, r) = execute_block_parallel (mem_world_state now) txs s;
             (s2, ts) = commit_block (mem_world_state now) txs s
    in mws_inner s1 = mws_inner s2 \<and> to_legacy_results txs r = ts \<and>
       be_committed_count r + be_conflict_count r = length txs"
proof -
  obtain s1 r where p: "execute_block_parallel (mem_world_state now) txs s = (s1, r)" by force
  obtain s2 ts where c: "commit_block (mem_world_state now) txs s = (s2, ts)" by force
  show ?thesis
    using mem.parallel_serial [OF assms p c] mem.parallel_run [OF assms p] p c
    by (auto simp: mem_view_inner mem_ok_def intro!: btree_ext)
qed

text \<open>
  C1: executing a block wave by wave on the in-memory world state leaves exactly the key/value
  store, versions included, and the per-transaction results of committing the block sequentially
  in batch order; every transaction is counted once as committed or as a conflict.
\<close>

theorem execute_block_parallel_serializable:
  assumes "mem_ok s"
  shows "let (s1, r) = execute_block_parallel (mem_world_state now) txs s;
             (s2, ts) = commit_block (mem_world_state now) txs s
    in mws_inner s1 = mws_inner s2 \<and> to_legacy_results txs r = ts \<and>
       be_committed_count r + be_conflict_count r = length txs"
  by (rule parallel_serializable_mem [OF assms])

definition demo_tx :: "string \<Rightarrow> kv_read list \<Rightarrow> kv_write list \<Rightarrow> endorsed_transaction" where
  "demo_tx i rs ws =
     \<lparr>et_proposal = \<lparr>tp_tx = \<lparr>tx_id = i, tx_block_height = 0, tx_timestamp = 0, tx_input_did = ''alice'',
         tx_output_recipient = ''bob'', tx_amount = 1, tx_state = ''pending''\<rparr>,
        tp_creator_did = ''alice'', tp_creator_signature = [], tp_signature_algorithm = Ed25519,
        tp_rwset = \<lparr>rw_reads = rs, rw_writes = ws\<rparr>\<rparr>,
      et_endorsements = [], et_rwset = \<lparr>rw_reads = rs, rw_writes = ws\<rparr>\<rparr>"

definition demo_block :: "endorsed_transaction list" where
  "demo_block =
     [demo_tx ''t0'' [\<lparr>kr_key = ''a'', kr_version = 0\<rparr>] [\<lparr>kw_key = ''a'', kw_value = [1]\<rparr>],
      demo_tx ''t1'' [\<lparr>kr_key = ''a'', kr_version = 0\<rparr>] [\<lparr>kw_key = ''b'', kw_value = [2]\<rparr>],
      demo_tx ''t2'' [] [\<lparr>kw_key = ''c'', kw_value = [3]\<rparr>]]"

theorem execute_block_parallel_serializable_witness:
  "let (s1, r) = execute_block_parallel (mem_world_state 9) demo_block memory_world_state_new;
       (s2, ts) = commit_block (mem_world_state 9) demo_block memory_world_state_new
   in mws_inner s1 = mws_inner s2 \<and> to_legacy_results demo_block r = ts \<and>
      be_committed_count r + be_conflict_count r = length demo_block"
  by (rule execute_block_parallel_serializable) (simp add: mem_ok_def memory_world_state_new_def)

theorem execute_block_concurrent_equiv_witness:
  "execute_block_concurrent (\<lambda>i. i < 3) (mem_world_state 9) demo_block memory_world_state_new =
   execute_block_parallel (mem_world_state 9) demo_block memory_world_state_new"
  by (rule execute_block_concurrent_equiv)
    (simp_all add: mem_ok_def memory_world_state_new_def demo_block_def)

end
