(* ===== verification/Mempool.thy ===== *)
theory Mempool
  imports Transactions
begin

text \<open>
  The transaction pool (\<open>src/src/transaction/mempool.rs\<close>).  The pending-spend sum of
  \<open>add_checked\<close> wraps at 64 bits as \<open>Iterator::sum\<close> does in a release build; the invariant
  shows that it never does in a pool filled through \<open>add_checked\<close>.
\<close>

section \<open>Definitions\<close>

record transaction_pool =
  pl_transactions :: "transaction list"
  pl_max_size :: nat

datatype pool_error = MempoolFull | AlreadyInMempool | DoubleSpend u64 u64 u64 u64

definition pool_new :: transaction_pool where
  "pool_new = \<lparr>pl_transactions = [], pl_max_size = 1000\<rparr>"

definition pool_add ::
    "transaction_pool \<Rightarrow> transaction \<Rightarrow> transaction_pool \<times> (pool_error + unit)" where
  "pool_add p tx =
     (if length (pl_transactions p) \<ge> pl_max_size p then (p, Inl MempoolFull)
      else if list_ex (\<lambda>t. tx_id t = tx_id tx) (pl_transactions p) then (p, Inl AlreadyInMempool)
      else (p\<lparr>pl_transactions := pl_transactions p @ [tx]\<rparr>, Inr ()))"

definition pending_spent :: "transaction_pool \<Rightarrow> string \<Rightarrow> u64" where
  "pending_spent p did =
     sum_list (map tx_amount (filter (\<lambda>t. tx_input_did t = did) (pl_transactions p)))"

definition pool_add_checked ::
    "transaction_pool \<Rightarrow> transaction \<Rightarrow> u64 \<Rightarrow> transaction_pool \<times> (pool_error + unit)" where
  "pool_add_checked p tx sender_balance =
     (if length (pl_transactions p) \<ge> pl_max_size p then (p, Inl MempoolFull)
      else if list_ex (\<lambda>t. tx_id t = tx_id tx) (pl_transactions p) then (p, Inl AlreadyInMempool)
      else
        (let pending = pending_spent p (tx_input_did tx);
             total_required = sat_add pending (tx_amount tx)
         in if total_required > sender_balance
            then (p, Inl (DoubleSpend pending (tx_amount tx) total_required sender_balance))
            else (p\<lparr>pl_transactions := pl_transactions p @ [tx]\<rparr>, Inr ())))"

definition drain_for_block ::
    "transaction_pool \<Rightarrow> nat \<Rightarrow> transaction_pool \<times> transaction list" where
  "drain_for_block p max_txs =
     (let count = min max_txs (length (pl_transactions p)) in
      (p\<lparr>pl_transactions := drop count (pl_transactions p)\<rparr>, take count (pl_transactions p)))"

definition pool_remove :: "transaction_pool \<Rightarrow> string \<Rightarrow> transaction_pool \<times> bool" where
  "pool_remove p txid =
     (case position_of (\<lambda>t. tx_id t = txid) (pl_transactions p) of
        Some pos \<Rightarrow> (p\<lparr>pl_transactions := remove_at pos (pl_transactions p)\<rparr>, True)
      | None \<Rightarrow> (p, False))"

definition pool_len :: "transaction_pool \<Rightarrow> nat" where
  "pool_len p = length (pl_transactions p)"

definition pool_is_empty :: "transaction_pool \<Rightarrow> bool" where
  "pool_is_empty p = (pl_transactions p = [])"

section \<open>Steps and the invariant\<close>

text \<open>A node that admits transactions through \<open>add_checked\<close> against the balances \<open>bal\<close>.\<close>

inductive pool_step :: "(string \<Rightarrow> u64) \<Rightarrow> transaction_pool \<Rightarrow> transaction_pool \<Rightarrow> bool"
  for bal :: "string \<Rightarrow> u64" where
  admit: "pool_add_checked p tx (bal (tx_input_did tx)) = (p', r) \<Longrightarrow> pool_step bal p p'"
| drain: "drain_for_block p n = (p', txs) \<Longrightarrow> pool_step bal p p'"
| remove: "pool_remove p i = (p', b) \<Longrightarrow> pool_step bal p p'"

definition pending_nat :: "transaction list \<Rightarrow> string \<Rightarrow> nat" where
  "pending_nat ts did = sum_list (map (\<lambda>t. unat (tx_amount t)) (filter (\<lambda>t. tx_input_did t = did) ts))"

definition pool_ok :: "(string \<Rightarrow> u64) \<Rightarrow> transaction_pool \<Rightarrow> bool" where
  "pool_ok bal p \<longleftrightarrow>
     distinct (map tx_id (pl_transactions p)) \<and>
     length (pl_transactions p) \<le> pl_max_size p \<and>
     (\<forall>did. pending_nat (pl_transactions p) did \<le> unat (bal did))"

lemma pending_nat_Nil [simp]: "pending_nat [] did = 0"
  by (simp add: pending_nat_def)

lemma pending_nat_append [simp]: "pending_nat (xs @ ys) did = pending_nat xs did + pending_nat ys did"
  by (simp add: pending_nat_def)

lemma pending_nat_Cons [simp]:
  "pending_nat (t # ts) did =
     (if tx_input_did t = did then unat (tx_amount t) else 0) + pending_nat ts did"
  by (simp add: pending_nat_def)

lemma pending_spent_exact:
  assumes "pending_nat (pl_transactions p) did \<le> unat (b :: u64)"
  shows "unat (pending_spent p did) = pending_nat (pl_transactions p) did"
proof -
  have "pending_nat (pl_transactions p) did < 2 ^ LENGTH(64)"
    using le_less_trans [OF assms u64_bound] by simp
  then show ?thesis
    using unat_sum_list [of "map tx_amount (filter (\<lambda>t. tx_input_did t = did) (pl_transactions p))"]
    by (simp add: pending_spent_def pending_nat_def comp_def)
qed

lemma sat_add_le_exact:
  assumes "sat_add a b \<le> (c :: u64)" and "c \<noteq> - 1"
  shows "unat a + unat b \<le> unat c"
proof -
  have "unat c \<noteq> 18446744073709551615"
    using assms(2) by (simp add: word_unat_eq_iff)
  moreover have "unat c < 18446744073709551616" by simp
  ultimately have "unat c < 18446744073709551615" by linarith
  then show ?thesis
    using assms(1) by (simp add: word_le_nat_alt unat_sat_add min_def split: if_splits)
qed

lemma pool_ok_admit:
  assumes "pool_ok bal p" and "pool_add_checked p tx (bal (tx_input_did tx)) = (p', r)"
    and "bal (tx_input_did tx) \<noteq> - 1"
  shows "pool_ok bal p'"
proof (cases "p' = p")
  case False
  let ?did = "tx_input_did tx"
  have ex: "unat (pending_spent p ?did) = pending_nat (pl_transactions p) ?did"
    using assms(1) by (intro pending_spent_exact [of _ _ "bal ?did"]) (simp add: pool_ok_def)
  have le: "sat_add (pending_spent p ?did) (tx_amount tx) \<le> bal ?did"
    and p': "p' = p\<lparr>pl_transactions := pl_transactions p @ [tx]\<rparr>"
    and fresh: "tx_id tx \<notin> tx_id ` set (pl_transactions p)"
    and room: "length (pl_transactions p) < pl_max_size p"
    using assms(2) False
    by (auto simp: pool_add_checked_def Let_def list_ex_iff not_le not_less split: if_splits)
  show ?thesis
    using assms(1) sat_add_le_exact [OF le assms(3)] fresh room by (auto simp: pool_ok_def p' ex)
qed (use assms in simp)

lemma pool_ok_drain:
  assumes "pool_ok bal p" and "drain_for_block p n = (p', txs)"
  shows "pool_ok bal p'"
proof -
  obtain c where p': "p' = p\<lparr>pl_transactions := drop c (pl_transactions p)\<rparr>"
    using assms(2) by (auto simp: drain_for_block_def Let_def)
  have "pending_nat (drop c (pl_transactions p)) did \<le> pending_nat (pl_transactions p) did" for did
    using pending_nat_append [of "take c (pl_transactions p)" "drop c (pl_transactions p)" did] by simp
  then show ?thesis
    using assms(1) by (auto simp: pool_ok_def p' distinct_drop simp flip: drop_map intro: order_trans)
qed

lemma pool_ok_remove:
  assumes "pool_ok bal p" and "pool_remove p i = (p', b)"
  shows "pool_ok bal p'"
proof (cases "position_of (\<lambda>t. tx_id t = i) (pl_transactions p)")
  case (Some pos)
  let ?ts = "pl_transactions p"
  have p': "p' = p\<lparr>pl_transactions := take pos ?ts @ drop (Suc pos) ?ts\<rparr>"
    using assms(2) Some by (simp add: pool_remove_def remove_at_def)
  have "pos < length ?ts" using position_of_Some [OF Some] by simp
  then have split: "?ts = take pos ?ts @ [?ts ! pos] @ drop (Suc pos) ?ts"
    by (simp add: id_take_nth_drop)
  have "distinct (map tx_id (take pos ?ts @ drop (Suc pos) ?ts))"
    using assms(1) unfolding pool_ok_def by (subst (asm) split) auto
  moreover have "pending_nat (take pos ?ts @ drop (Suc pos) ?ts) did \<le> unat (bal did)" for did
  proof (rule order_trans)
    show "pending_nat (take pos ?ts @ drop (Suc pos) ?ts) did \<le> pending_nat ?ts did"
      using arg_cong [OF split, of "\<lambda>ts. pending_nat ts did"] by simp
  qed (use assms(1) in \<open>simp add: pool_ok_def\<close>)
  ultimately show ?thesis
    using assms(1) by (auto simp: pool_ok_def p' min_def)
qed (use assms in \<open>simp add: pool_remove_def\<close>)

text \<open>
  C29: in a pool that starts empty and admits transactions only through \<open>add_checked\<close>, drains and
  removals included in any order, transaction ids stay distinct, the size limit is kept, and no
  sender ever has pending more than its balance; this for balances below the maximal 64-bit
  number.
\<close>

theorem pool_no_double_spend:
  assumes "(pool_step bal)\<^sup>*\<^sup>* pool_new p" and "\<And>did. bal did \<noteq> - 1"
  shows "distinct (map tx_id (pl_transactions p)) \<and> length (pl_transactions p) \<le> 1000 \<and>
    pending_nat (pl_transactions p) did \<le> unat (bal did) \<and>
    unat (pending_spent p did) = pending_nat (pl_transactions p) did"
proof -
  have "pool_ok bal p \<and> pl_max_size p = 1000"
    using assms(1)
  proof (induction rule: rtranclp_induct)
    case base
    show ?case by (simp add: pool_ok_def pool_new_def pending_nat_def)
  next
    case (step p p')
    from step.hyps(2) have "pl_max_size p' = pl_max_size p"
      by cases (auto simp: pool_add_checked_def drain_for_block_def pool_remove_def Let_def
          split: if_splits option.splits)
    moreover from step.hyps(2) have "pool_ok bal p'"
      by cases (use step.IH assms(2) pool_ok_admit pool_ok_drain pool_ok_remove in blast)+
    ultimately show ?case using step.IH by simp
  qed
  then show ?thesis
    using pending_spent_exact [of p did "bal did"] by (simp add: pool_ok_def)
qed

theorem pool_no_double_spend_witness:
  "let tx = \<lparr>tx_id = ''t'', tx_block_height = 0, tx_timestamp = 0, tx_input_did = ''alice'',
             tx_output_recipient = ''bob'', tx_amount = 7, tx_state = []\<rparr>;
       p = pool_new\<lparr>pl_transactions := [tx]\<rparr>
   in pool_add_checked pool_new tx 10 = (p, Inr ()) \<and> unat (pending_spent p ''alice'') \<le> 10"
proof -
  define tx :: transaction where "tx = \<lparr>tx_id = ''t'', tx_block_height = 0, tx_timestamp = 0,
      tx_input_did = ''alice'', tx_output_recipient = ''bob'', tx_amount = 7, tx_state = []\<rparr>"
  let ?p = "pool_new\<lparr>pl_transactions := [tx]\<rparr>"
  have add: "pool_add_checked pool_new tx 10 = (?p, Inr ())"
    by (simp add: pool_add_checked_def pool_new_def pending_spent_def sat_add_def tx_def Let_def)
  then have "pool_step (\<lambda>_. 10) pool_new ?p" by (intro pool_step.admit) simp
  then have "unat (pending_spent ?p ''alice'') = pending_nat (pl_transactions ?p) ''alice'' \<and>
      pending_nat (pl_transactions ?p) ''alice'' \<le> unat (10 :: u64)"
    using pool_no_double_spend [of "\<lambda>_. 10" ?p "''alice''"] by (simp add: r_into_rtranclp)
  then show ?thesis using add by (simp add: tx_def Let_def)
qed

text \<open>
  The reason for the bound on balances: at the maximal balance the saturating sum cannot exceed it,
  and a second spend of everything is admitted.
\<close>

lemma add_checked_saturates:
  "let tx = \<lambda>i. \<lparr>tx_id = i, tx_block_height = 0, tx_timestamp = 0, tx_input_did = ''a'',
                 tx_output_recipient = ''b'', tx_amount = - 1, tx_state = []\<rparr>;
       p = pool_new\<lparr>pl_transactions := [tx ''1'']\<rparr>
   in snd (pool_add_checked p (tx ''2'') (- 1)) = Inr ()"
  by (simp add: pool_add_checked_def pool_new_def pending_spent_def sat_add_def Let_def)

end
