(* ===== verification/Bft_Quorum.thy ===== *)
theory Bft_Quorum
  imports Cerulean_Prelude
begin

text \<open>
  Votes, quorum certificates, their validation and the vote collector
  (\<open>src/src/consensus/bft/types.rs\<close>, \<open>quorum.rs\<close> and \<open>vote_collector.rs\<close>).

  The \<open>SignatureVerifier\<close> is a field of the validator, an arbitrary function.  The \<open>HashSet\<close> of
  validators is the list of its distinct elements and the \<open>HashMap\<close> of accepted votes an
  association list; nothing below depends on its order.  The locale \<open>byz_quorum\<close> is the contract
  of a Byzantine quorum system, interpreted on the quorums of a validator set of size
  \<open>3 f + 1\<close>.
\<close>

section \<open>Types\<close>

datatype bft_phase = Prepare | PreCommit | Commit | Decide

fun as_byte :: "bft_phase \<Rightarrow> u8" where
  "as_byte Prepare = 0"
| "as_byte PreCommit = 1"
| "as_byte Commit = 2"
| "as_byte Decide = 3"

record vote_message =
  vm_block_hash :: hash32
  vm_round :: u64
  vm_phase :: bft_phase
  vm_voter_id :: string
  vm_signature :: bytes

definition signing_payload :: "bft_phase \<Rightarrow> hash32 \<Rightarrow> u64 \<Rightarrow> bytes" where
  "signing_payload phase block_hash round = [as_byte phase] @ hash_bytes block_hash @ to_le_bytes round"

definition vote_payload :: "vote_message \<Rightarrow> bytes" where
  "vote_payload v = signing_payload (vm_phase v) (vm_block_hash v) (vm_round v)"

record quorum_certificate =
  qc_block_hash :: hash32
  qc_round :: u64
  qc_phase :: bft_phase
  qc_votes :: "vote_message list"

datatype qc_error =
    MismatchedPhase bft_phase bft_phase
  | MismatchedBlockHash hash32 hash32
  | MismatchedRound u64 u64
  | InsufficientVotes nat nat
  | DuplicateVoter string
  | UnknownVoter string
  | InvalidSignature string
  | InsufficientValidators nat nat

fun check_votes :: "bft_phase \<Rightarrow> hash32 \<Rightarrow> u64 \<Rightarrow> vote_message list \<Rightarrow> qc_error + unit" where
  "check_votes phase block_hash round [] = Inr ()"
| "check_votes phase block_hash round (v # vs) =
     (if vm_phase v \<noteq> phase then Inl (MismatchedPhase phase (vm_phase v))
      else if vm_block_hash v \<noteq> block_hash then Inl (MismatchedBlockHash block_hash (vm_block_hash v))
      else if vm_round v \<noteq> round then Inl (MismatchedRound round (vm_round v))
      else check_votes phase block_hash round vs)"

definition quorum_certificate_new ::
    "bft_phase \<Rightarrow> hash32 \<Rightarrow> u64 \<Rightarrow> vote_message list \<Rightarrow> qc_error + quorum_certificate" where
  "quorum_certificate_new phase block_hash round votes =
     (case check_votes phase block_hash round votes of
        Inl e \<Rightarrow> Inl e
      | Inr _ \<Rightarrow> Inr \<lparr>qc_block_hash = block_hash, qc_round = round, qc_phase = phase, qc_votes = votes\<rparr>)"

definition voter_count :: "quorum_certificate \<Rightarrow> nat" where
  "voter_count qc = length (remdups (map vm_voter_id (qc_votes qc)))"

section \<open>The quorum validator\<close>


type_synonym verifier = "string \<Rightarrow> bytes \<Rightarrow> bytes \<Rightarrow> bool"

record quorum_validator =
  qv_validators :: "string list"
  qv_verifier :: verifier

definition quorum_validator_new :: "string list \<Rightarrow> verifier \<Rightarrow> quorum_validator" where
  "quorum_validator_new validators ver = \<lparr>qv_validators = remdups validators, qv_verifier = ver\<rparr>"


definition total_validators :: "quorum_validator \<Rightarrow> nat" where
  "total_validators qv = length (qv_validators qv)"

definition max_faulty :: "quorum_validator \<Rightarrow> nat" where
  "max_faulty qv = (let n = length (qv_validators qv) in if n = 0 then 0 else (n - 1) div 3)"

definition quorum_threshold :: "quorum_validator \<Rightarrow> nat" where
  "quorum_threshold qv = (if qv_validators qv = [] then 0 else 2 * max_faulty qv + 1)"

definition validate_vote :: "quorum_validator \<Rightarrow> vote_message \<Rightarrow> qc_error + unit" where
  "validate_vote qv vote =
     (if \<not> List.member (qv_validators qv) (vm_voter_id vote) then Inl (UnknownVoter (vm_voter_id vote))
      else if \<not> qv_verifier qv (vm_voter_id vote) (vote_payload vote) (vm_signature vote)
      then Inl (InvalidSignature (vm_voter_id vote))
      else Inr ())"

fun validate_qc_votes ::
    "quorum_validator \<Rightarrow> string list \<Rightarrow> vote_message list \<Rightarrow> qc_error + string list" where
  "validate_qc_votes qv seen [] = Inr seen"
| "validate_qc_votes qv seen (v # vs) =
     (if List.member seen (vm_voter_id v) then Inl (DuplicateVoter (vm_voter_id v))
      else (case validate_vote qv v of
              Inl e \<Rightarrow> Inl e
            | Inr _ \<Rightarrow> validate_qc_votes qv (vm_voter_id v # seen) vs))"

definition validate_qc :: "quorum_validator \<Rightarrow> quorum_certificate \<Rightarrow> qc_error + unit" where
  "validate_qc qv qc =
     (case validate_qc_votes qv [] (qc_votes qc) of
        Inl e \<Rightarrow> Inl e
      | Inr seen \<Rightarrow>
          let valid_count = length seen; threshold = quorum_threshold qv in
          if valid_count < threshold then Inl (InsufficientVotes threshold valid_count) else Inr ())"

section \<open>The vote collector\<close>

datatype vote_result =
    Pending nat
  | QuorumReached quorum_certificate
  | Rejected qc_error

record vote_collector =
  vc_phase :: bft_phase
  vc_round :: u64
  vc_block_hash :: hash32
  vc_votes :: "(string, vote_message) hash_map"
  vc_validator :: quorum_validator
  vc_quorum_reached :: bool

definition vote_collector_new ::
    "bft_phase \<Rightarrow> u64 \<Rightarrow> hash32 \<Rightarrow> quorum_validator \<Rightarrow> vote_collector" where
  "vote_collector_new phase round block_hash qv =
     \<lparr>vc_phase = phase, vc_round = round, vc_block_hash = block_hash, vc_votes = [],
      vc_validator = qv, vc_quorum_reached = False\<rparr>"

definition add_vote :: "vote_collector \<Rightarrow> vote_message \<Rightarrow> vote_collector \<times> vote_result" where
  "add_vote c vote =
     (if vc_quorum_reached c then (c, Rejected (DuplicateVoter ''quorum already reached''))
      else if vm_phase vote \<noteq> vc_phase c then (c, Rejected (MismatchedPhase (vc_phase c) (vm_phase vote)))
      else if vm_round vote \<noteq> vc_round c then (c, Rejected (MismatchedRound (vc_round c) (vm_round vote)))
      else if vm_block_hash vote \<noteq> vc_block_hash c
      then (c, Rejected (MismatchedBlockHash (vc_block_hash c) (vm_block_hash vote)))
      else if hm_contains (vm_voter_id vote) (vc_votes c)
      then (c, Rejected (DuplicateVoter (vm_voter_id vote)))
      else (case validate_vote (vc_validator c) vote of
              Inl e \<Rightarrow> (c, Rejected e)
            | Inr _ \<Rightarrow>
                let c' = c\<lparr>vc_votes := hm_insert (vm_voter_id vote) vote (vc_votes c)\<rparr>;
                    count = length (vc_votes c');
                    threshold = quorum_threshold (vc_validator c)
                in if count \<ge> threshold
                   then (c'\<lparr>vc_quorum_reached := True\<rparr>,
                         (case quorum_certificate_new (vc_phase c) (vc_block_hash c) (vc_round c)
                                 (map snd (vc_votes c')) of
                            Inr qc \<Rightarrow> QuorumReached qc
                          | Inl e \<Rightarrow> Rejected e))
                   else (c', Pending count)))"

definition vote_count :: "vote_collector \<Rightarrow> nat" where
  "vote_count c = length (vc_votes c)"

definition is_complete :: "vote_collector \<Rightarrow> bool" where
  "is_complete c = vc_quorum_reached c"

definition collector_threshold :: "vote_collector \<Rightarrow> nat" where
  "collector_threshold c = quorum_threshold (vc_validator c)"

section \<open>Payloads\<close>

lemma as_byte_inj [simp]: "as_byte p = as_byte q \<longleftrightarrow> p = q"
  by (cases p; cases q) simp_all

text \<open>
  The bytes a validator signs determine the phase, the block hash and the round, so a signature
  made for one vote is a signature for no other vote.
\<close>

theorem signing_payload_inj:
  "signing_payload p h r = signing_payload p' h' r' \<longleftrightarrow> p = p' \<and> h = h' \<and> r = r'"
  by (auto simp: signing_payload_def)

lemma signing_payload_eqD:
  "signing_payload p h r = signing_payload p' h' r' \<Longrightarrow> p = p' \<and> h = h' \<and> r = r'"
  by (auto simp: signing_payload_def)

section \<open>What validation accepts\<close>

definition qv_ok :: "quorum_validator \<Rightarrow> bool" where
  "qv_ok qv \<longleftrightarrow> distinct (qv_validators qv)"

definition vote_ok :: "quorum_validator \<Rightarrow> vote_message \<Rightarrow> bool" where
  "vote_ok qv v \<longleftrightarrow> vm_voter_id v \<in> set (qv_validators qv) \<and>
     qv_verifier qv (vm_voter_id v) (vote_payload v) (vm_signature v)"

lemma qv_ok_new [simp]: "qv_ok (quorum_validator_new vs ver)"
  by (simp add: qv_ok_def quorum_validator_new_def)

lemma validate_vote_ok: "validate_vote qv v = Inr u \<longleftrightarrow> vote_ok qv v"
  by (auto simp: validate_vote_def vote_ok_def)

lemma check_votes_ok:
  "check_votes p h r vs = Inr u \<longleftrightarrow> (\<forall>v \<in> set vs. vm_phase v = p \<and> vm_block_hash v = h \<and> vm_round v = r)"
  by (induction p h r vs rule: check_votes.induct) auto

lemma quorum_certificate_new_ok:
  "quorum_certificate_new p h r vs = Inr qc \<longleftrightarrow>
     (\<forall>v \<in> set vs. vm_phase v = p \<and> vm_block_hash v = h \<and> vm_round v = r) \<and>
     qc = \<lparr>qc_block_hash = h, qc_round = r, qc_phase = p, qc_votes = vs\<rparr>"
  using check_votes_ok [of p h r vs "()"]
  by (cases "check_votes p h r vs") (auto simp: quorum_certificate_new_def)

lemma quorum_certificate_new_phase: "quorum_certificate_new p h r vs = Inr qc \<Longrightarrow> qc_phase qc = p"
  by (simp add: quorum_certificate_new_ok)

lemma validate_qc_votes_ok:
  "validate_qc_votes qv seen vs = Inr seen' \<longleftrightarrow>
     distinct (map vm_voter_id vs) \<and> set (map vm_voter_id vs) \<inter> set seen = {} \<and>
     (\<forall>v \<in> set vs. vote_ok qv v) \<and> seen' = rev (map vm_voter_id vs) @ seen"
proof (induction qv seen vs rule: validate_qc_votes.induct)
  case (2 qv seen v vs)
  then show ?case
    by (cases "validate_vote qv v") (auto simp flip: validate_vote_ok [of qv _ "()"])
qed auto

lemma validate_qc_ok:
  "validate_qc qv qc = Inr u \<longleftrightarrow>
     distinct (map vm_voter_id (qc_votes qc)) \<and> (\<forall>v \<in> set (qc_votes qc). vote_ok qv v) \<and>
     quorum_threshold qv \<le> length (qc_votes qc)"
proof (cases "validate_qc_votes qv [] (qc_votes qc)")
  case (Inl e)
  then show ?thesis
    using validate_qc_votes_ok [of qv "[]" "qc_votes qc" "rev (map vm_voter_id (qc_votes qc))"]
    by (simp add: validate_qc_def)
next
  case (Inr seen)
  then show ?thesis
    using validate_qc_votes_ok [of qv "[]" "qc_votes qc" seen]
    by (auto simp: validate_qc_def Let_def not_less)
qed

section \<open>Quorum intersection\<close>

locale byz_quorum =
  fixes members :: "'v set" and is_quorum :: "'v set \<Rightarrow> bool" and f :: nat
  assumes finite_members: "finite members"
    and quorum_members: "is_quorum Q \<Longrightarrow> Q \<subseteq> members"
    and quorum_inter: "is_quorum Q \<Longrightarrow> is_quorum Q' \<Longrightarrow> f < card (Q \<inter> Q')"
begin

lemma honest_in_common:
  assumes "is_quorum Q" and "is_quorum Q'" and "finite B" and "card B \<le> f"
  obtains v where "v \<in> Q" and "v \<in> Q'" and "v \<notin> B"
proof -
  have "card B < card (Q \<inter> Q')" using quorum_inter [OF assms(1,2)] assms(4) by simp
  then have "\<not> Q \<inter> Q' \<subseteq> B" using assms(3) card_mono leD by blast
  then show ?thesis using that by blast
qed

lemma no_conflicting_quorums:
  assumes "is_quorum Q" and "is_quorum Q'" and "finite B" and "card B \<le> f"
    and "\<And>v. v \<in> Q \<Longrightarrow> v \<notin> B \<Longrightarrow> choice v = Some x"
    and "\<And>v. v \<in> Q' \<Longrightarrow> v \<notin> B \<Longrightarrow> choice v = Some y"
  shows "x = y"
proof -
  obtain v where "v \<in> Q" "v \<in> Q'" "v \<notin> B" using honest_in_common [OF assms(1-4)] .
  then have "Some x = Some y" using assms(5,6) by metis
  then show ?thesis by simp
qed

end

definition bft_quorum :: "quorum_validator \<Rightarrow> string set \<Rightarrow> bool" where
  "bft_quorum qv Q \<longleftrightarrow> total_validators qv mod 3 = 1 \<and> qv_ok qv \<and>
     Q \<subseteq> set (qv_validators qv) \<and> quorum_threshold qv \<le> card Q"

lemma threshold_sum:
  assumes "total_validators qv mod 3 = 1"
  shows "total_validators qv + max_faulty qv < 2 * quorum_threshold qv"
  using assms by (auto simp: total_validators_def max_faulty_def quorum_threshold_def Let_def) presburger

lemma card_inter_lower:
  "finite A \<Longrightarrow> X \<subseteq> A \<Longrightarrow> Y \<subseteq> A \<Longrightarrow> card X + card Y \<le> card A + card (X \<inter> Y)"
  by (metis card_Un_Int card_mono finite_subset sup.bounded_iff add_le_mono1)

interpretation bftq: byz_quorum "set (qv_validators qv)" "bft_quorum qv" "max_faulty qv"
proof
  fix Q Q'
  assume q: "bft_quorum qv Q" "bft_quorum qv Q'"
  then have "card (set (qv_validators qv)) = total_validators qv"
    by (simp add: bft_quorum_def qv_ok_def distinct_card total_validators_def)
  then show "max_faulty qv < card (Q \<inter> Q')"
    using q threshold_sum [of qv] card_inter_lower [of "set (qv_validators qv)" Q Q']
    by (auto simp: bft_quorum_def)
qed (auto simp: bft_quorum_def)

lemma accepted_qc_quorum:
  assumes "qv_ok qv" and "total_validators qv mod 3 = 1" and "validate_qc qv qc = Inr ()"
  shows "bft_quorum qv (vm_voter_id ` set (qc_votes qc))"
proof -
  have "card (vm_voter_id ` set (qc_votes qc)) = length (qc_votes qc)"
    using assms(3) distinct_card [of "map vm_voter_id (qc_votes qc)"] by (simp add: validate_qc_ok)
  then show ?thesis using assms by (auto simp: bft_quorum_def validate_qc_ok vote_ok_def)
qed

lemma accepted_certificates_agree:
  fixes voted :: "string \<Rightarrow> (bft_phase \<times> hash32 \<times> u64) set"
  assumes "qv_ok qv" and "total_validators qv mod 3 = 1"
    and "finite faulty" and "card faulty \<le> max_faulty qv"
    and unforgeable: "\<And>v payload sig. v \<notin> faulty \<Longrightarrow> qv_verifier qv v payload sig \<Longrightarrow>
      \<exists>p h r. (p, h, r) \<in> voted v \<and> payload = signing_payload p h r"
    and no_equivocation: "\<And>v p r h h'. v \<notin> faulty \<Longrightarrow> (p, h, r) \<in> voted v \<Longrightarrow> (p, h', r) \<in> voted v \<Longrightarrow> h = h'"
    and "quorum_certificate_new p h r votes = Inr qc" and "validate_qc qv qc = Inr ()"
    and "quorum_certificate_new p h' r votes' = Inr qc'" and "validate_qc qv qc' = Inr ()"
  shows "h = h'"
proof -
  have cast: "(p, x, r) \<in> voted v"
    if new: "quorum_certificate_new p x r vs = Inr c" and acc: "validate_qc qv c = Inr ()"
      and mem: "v \<in> vm_voter_id ` set (qc_votes c)" and honest: "v \<notin> faulty" for x vs c v
  proof -
    obtain m where "m \<in> set (qc_votes c)" "v = vm_voter_id m" using mem by blast
    then have "qv_verifier qv v (signing_payload p x r) (vm_signature m)"
      using new acc by (auto simp: quorum_certificate_new_ok validate_qc_ok vote_ok_def vote_payload_def)
    from unforgeable [OF honest this] obtain p' x' r'
      where "(p', x', r') \<in> voted v" "signing_payload p x r = signing_payload p' x' r'" by blast
    then show ?thesis using signing_payload_eqD by fast
  qed
  have q: "bft_quorum qv (vm_voter_id ` set (qc_votes qc))" "bft_quorum qv (vm_voter_id ` set (qc_votes qc'))"
    using accepted_qc_quorum [OF assms(1,2)] assms(8,10) by simp_all
  obtain v where v: "v \<in> vm_voter_id ` set (qc_votes qc)" "v \<in> vm_voter_id ` set (qc_votes qc')" "v \<notin> faulty"
    using bftq.honest_in_common [OF q assms(3,4)] .
  show ?thesis
    by (rule no_equivocation [OF v(3) cast [OF assms(7,8) v(1,3)] cast [OF assms(9,10) v(2,3)]])
qed

text \<open>
  C2: with \<open>n = 3 f + 1\<close> validators, at most \<open>f\<close> of them faulty, two well-formed certificates of
  the same phase and round that the validator accepts certify the same block.  The honest
  validators sign at most one block per phase and round, and a signature of theirs verifies only
  for a vote they cast.
\<close>

theorem qc_agreement:
  fixes voted :: "string \<Rightarrow> (bft_phase \<times> hash32 \<times> u64) set"
  assumes "qv_ok qv" and "total_validators qv mod 3 = 1"
    and "finite faulty" and "card faulty \<le> max_faulty qv"
    and unforgeable: "\<And>v payload sig. v \<notin> faulty \<Longrightarrow> qv_verifier qv v payload sig \<Longrightarrow>
      \<exists>p h r. (p, h, r) \<in> voted v \<and> payload = signing_payload p h r"
    and no_equivocation: "\<And>v p r h h'. v \<notin> faulty \<Longrightarrow> (p, h, r) \<in> voted v \<Longrightarrow> (p, h', r) \<in> voted v \<Longrightarrow> h = h'"
    and "quorum_certificate_new p h r votes = Inr qc" and "validate_qc qv qc = Inr ()"
    and "quorum_certificate_new p h' r votes' = Inr qc'" and "validate_qc qv qc' = Inr ()"
  shows "h = h'"
  by (rule accepted_certificates_agree [OF assms(1-4) unforgeable no_equivocation assms(7-10)])

definition demo_validators :: "string list" where
  "demo_validators = [''v0'', ''v1'', ''v2'', ''v3'']"

text \<open>A verifier for examples: the signature of a payload is the payload itself.\<close>

definition demo_verifier :: verifier where
  "demo_verifier v payload sig = (sig = payload \<and> sig = signing_payload Commit 7 1)"

definition demo_vote :: "bft_phase \<Rightarrow> hash32 \<Rightarrow> u64 \<Rightarrow> string \<Rightarrow> vote_message" where
  "demo_vote p h r v = \<lparr>vm_block_hash = h, vm_round = r, vm_phase = p, vm_voter_id = v,
     vm_signature = signing_payload p h r\<rparr>"

theorem qc_agreement_witness:
  "\<exists>qc qc'. quorum_certificate_new Commit 7 1 (map (demo_vote Commit 7 1) [''v0'', ''v1'', ''v2'']) = Inr qc \<and>
     quorum_certificate_new Commit 7 1 (map (demo_vote Commit 7 1) [''v1'', ''v2'', ''v3'']) = Inr qc' \<and>
     qc_block_hash qc = qc_block_hash qc'"
proof -
  let ?qv = "quorum_validator_new demo_validators demo_verifier"
  let ?vs = "map (demo_vote Commit 7 1) [''v0'', ''v1'', ''v2'']"
  let ?vs' = "map (demo_vote Commit 7 1) [''v1'', ''v2'', ''v3'']"
  define qc where "qc = \<lparr>qc_block_hash = 7, qc_round = 1, qc_phase = Commit, qc_votes = ?vs\<rparr>"
  define qc' where "qc' = \<lparr>qc_block_hash = 7, qc_round = 1, qc_phase = Commit, qc_votes = ?vs'\<rparr>"
  have n: "quorum_certificate_new Commit 7 1 ?vs = Inr qc" "quorum_certificate_new Commit 7 1 ?vs' = Inr qc'"
    by (simp_all add: quorum_certificate_new_ok qc_def qc'_def demo_vote_def)
  have v: "validate_qc ?qv qc = Inr ()" "validate_qc ?qv qc' = Inr ()"
    by (simp_all add: validate_qc_ok qc_def qc'_def demo_vote_def vote_ok_def quorum_validator_new_def
        demo_validators_def demo_verifier_def vote_payload_def quorum_threshold_def max_faulty_def Let_def)
  have "total_validators ?qv mod 3 = 1"
    by (simp add: total_validators_def quorum_validator_new_def demo_validators_def)
  then have "(7 :: hash32) = 7"
    by (intro qc_agreement [where qv = ?qv and faulty = "{}" and voted = "\<lambda>_. {(Commit, 7, 1)}",
          OF _ _ _ _ _ _ n(1) v(1) n(2) v(2)])
      (auto simp: quorum_validator_new_def demo_verifier_def qv_ok_def)
  then show ?thesis using n by (auto simp: qc_def qc'_def)
qed


text \<open>
  Certificate validation does not look at the block the votes are for: a certificate naming any
  block, round and phase is accepted once it carries enough valid votes for some other block.
\<close>

theorem validate_qc_ignores_target:
  "validate_qc qv (qc\<lparr>qc_block_hash := h, qc_round := r, qc_phase := p\<rparr>) = validate_qc qv qc"
  by (simp add: validate_qc_def)

section \<open>The vote collector\<close>

definition collector_ok :: "vote_collector \<Rightarrow> bool" where
  "collector_ok c \<longleftrightarrow> hm_ok (vc_votes c) \<and> qv_ok (vc_validator c) \<and>
     (\<forall>(k, v) \<in> set (vc_votes c). k = vm_voter_id v \<and> vote_ok (vc_validator c) v \<and>
        vm_phase v = vc_phase c \<and> vm_round v = vc_round c \<and> vm_block_hash v = vc_block_hash c) \<and>
     (vc_quorum_reached c \<longleftrightarrow> vc_votes c \<noteq> [] \<and> quorum_threshold (vc_validator c) \<le> length (vc_votes c))"

definition votes_for :: "vote_collector \<Rightarrow> vote_message \<Rightarrow> bool" where
  "votes_for c v \<longleftrightarrow> vm_phase v = vc_phase c \<and> vm_round v = vc_round c \<and>
     vm_block_hash v = vc_block_hash c \<and> vote_ok (vc_validator c) v"

definition accepts_vote :: "vote_collector \<Rightarrow> vote_message \<Rightarrow> bool" where
  "accepts_vote c v \<longleftrightarrow> \<not> vc_quorum_reached c \<and> votes_for c v \<and> vm_voter_id v \<notin> fst ` set (vc_votes c)"

lemma collector_ok_new: "qv_ok qv \<Longrightarrow> collector_ok (vote_collector_new p r h qv)"
  by (simp add: collector_ok_def vote_collector_new_def)

lemma collector_votes_ok:
  assumes "collector_ok c"
  shows "distinct (map vm_voter_id (map snd (vc_votes c)))"
    and "\<forall>v \<in> set (map snd (vc_votes c)). vote_ok (vc_validator c) v \<and>
      vm_phase v = vc_phase c \<and> vm_block_hash v = vc_block_hash c \<and> vm_round v = vc_round c"
proof -
  have "map vm_voter_id (map snd (vc_votes c)) = map fst (vc_votes c)"
    using assms by (auto simp: collector_ok_def)
  then show "distinct (map vm_voter_id (map snd (vc_votes c)))"
    using assms unfolding collector_ok_def hm_ok_def by argo
  show "\<forall>v \<in> set (map snd (vc_votes c)). vote_ok (vc_validator c) v \<and>
      vm_phase v = vc_phase c \<and> vm_block_hash v = vc_block_hash c \<and> vm_round v = vc_round c"
    using assms by (auto simp: collector_ok_def)
qed

text \<open>The certificate of the collector's accepted votes.\<close>

definition collector_qc :: "vote_collector \<Rightarrow> quorum_certificate" where
  "collector_qc c = \<lparr>qc_block_hash = vc_block_hash c, qc_round = vc_round c, qc_phase = vc_phase c,
     qc_votes = map snd (vc_votes c)\<rparr>"

definition record_vote :: "vote_collector \<Rightarrow> vote_message \<Rightarrow> vote_collector" where
  "record_vote c v =
     (let votes = vc_votes c @ [(vm_voter_id v, v)] in
      c\<lparr>vc_votes := votes,
        vc_quorum_reached := (quorum_threshold (vc_validator c) \<le> length votes)\<rparr>)"

lemma collector_ok_record:
  "collector_ok c \<Longrightarrow> accepts_vote c v \<Longrightarrow> collector_ok (record_vote c v)"
  by (auto simp: collector_ok_def accepts_vote_def votes_for_def record_vote_def hm_ok_def Let_def)

lemma add_vote_accept:
  assumes "collector_ok c" and "accepts_vote c v"
  shows "add_vote c v = (record_vote c v,
    if vc_quorum_reached (record_vote c v) then QuorumReached (collector_qc (record_vote c v))
    else Pending (Suc (length (vc_votes c))))"
proof -
  let ?c' = "record_vote c v"
  have fresh: "\<not> hm_contains (vm_voter_id v) (vc_votes c)"
    using assms(2) by (auto simp: accepts_vote_def hm_contains_iff)
  have "quorum_certificate_new (vc_phase c) (vc_block_hash c) (vc_round c) (map snd (vc_votes ?c')) =
      Inr (collector_qc ?c')"
    using collector_votes_ok(2) [OF collector_ok_record [OF assms]]
    by (simp add: quorum_certificate_new_ok collector_qc_def record_vote_def Let_def)
  moreover have "validate_vote (vc_validator c) v = Inr ()"
    using assms(2) by (simp add: accepts_vote_def votes_for_def validate_vote_ok)
  ultimately show ?thesis
    using assms(2) fresh
    by (simp add: add_vote_def accepts_vote_def votes_for_def hm_insert_fresh record_vote_def Let_def)
qed

lemma add_vote_reject:
  assumes "\<not> accepts_vote c v"
  shows "\<exists>e. add_vote c v = (c, Rejected e)"
proof (cases "validate_vote (vc_validator c) v")
  case (Inl e)
  then show ?thesis by (simp add: add_vote_def)
next
  case (Inr u)
  then show ?thesis
    using assms
    by (auto simp: add_vote_def accepts_vote_def votes_for_def validate_vote_ok hm_contains_iff)
qed

lemma add_vote_cases:
  assumes "collector_ok c"
  obtains (accept) "accepts_vote c v" "fst (add_vote c v) = record_vote c v"
  | (reject) e where "\<not> accepts_vote c v" "add_vote c v = (c, Rejected e)"
proof (cases "accepts_vote c v")
  case True
  then show ?thesis using accept add_vote_accept [OF assms True] by simp
next
  case False
  then show ?thesis using reject add_vote_reject [OF False] by blast
qed

lemma collector_ok_add_vote: "collector_ok c \<Longrightarrow> collector_ok (fst (add_vote c v))"
  by (rule add_vote_cases [of c v]) (simp_all add: collector_ok_record)

lemma complete_qc_valid:
  assumes "collector_ok c" and "vc_quorum_reached c"
  shows "validate_qc (vc_validator c) (collector_qc c) = Inr ()"
proof -
  have "quorum_threshold (vc_validator c) \<le> length (vc_votes c)"
    using assms by (simp add: collector_ok_def)
  then show ?thesis
    unfolding validate_qc_ok collector_qc_def quorum_certificate.simps length_map
    using collector_votes_ok [OF assms(1)] by blast
qed

lemma add_vote_quorum:
  assumes "collector_ok c" and "add_vote c v = (c', QuorumReached qc)"
  shows "qc = collector_qc c' \<and> collector_ok c' \<and> vc_quorum_reached c' \<and>
    validate_qc (vc_validator c) qc = Inr () \<and>
    quorum_certificate_new (vc_phase c) (vc_block_hash c) (vc_round c) (qc_votes qc) = Inr qc"
proof -
  have acc: "accepts_vote c v" using assms(2) add_vote_reject [of c v] by fastforce
  then have c': "c' = record_vote c v" "vc_quorum_reached c'" "qc = collector_qc c'"
    using assms(2) add_vote_accept [OF assms(1) acc] by (auto split: if_splits)
  note ok' = collector_ok_record [OF assms(1) acc, folded c'(1)]
  show ?thesis
    using c' ok' complete_qc_valid [OF ok' c'(2)] collector_votes_ok(2) [OF ok']
    by (simp add: collector_qc_def quorum_certificate_new_ok record_vote_def Let_def)
qed

definition collect :: "vote_collector \<Rightarrow> vote_message list \<Rightarrow> vote_collector" where
  "collect = foldl (\<lambda>c v. fst (add_vote c v))"

lemma collect_simps [simp]:
  "collect c [] = c" "collect c (v # vs) = collect (fst (add_vote c v)) vs"
  by (simp_all add: collect_def)

lemma add_vote_keeps:
  "vc_phase (fst (add_vote c v)) = vc_phase c" "vc_round (fst (add_vote c v)) = vc_round c"
  "vc_block_hash (fst (add_vote c v)) = vc_block_hash c"
  "vc_validator (fst (add_vote c v)) = vc_validator c"
  by (auto simp: add_vote_def Let_def split: sum.splits)

lemma collect_keeps:
  "vc_phase (collect c vs) = vc_phase c" "vc_round (collect c vs) = vc_round c"
  "vc_block_hash (collect c vs) = vc_block_hash c" "vc_validator (collect c vs) = vc_validator c"
  by (induction vs arbitrary: c) (simp_all add: add_vote_keeps)

lemma collector_ok_collect: "collector_ok c \<Longrightarrow> collector_ok (collect c vs)"
  by (induction vs arbitrary: c) (simp_all add: collector_ok_add_vote)

text \<open>
  Whatever votes a collector is fed, a certificate it reports carries exactly the quorum of
  distinct, valid votes for the collector's own phase, round and block, and passes
  \<open>validate_qc\<close>.
\<close>

theorem collector_certificate_sound:
  assumes "add_vote (collect (vote_collector_new p r h (quorum_validator_new vs ver)) votes) v = (c, QuorumReached qc)"
  shows "validate_qc (quorum_validator_new vs ver) qc = Inr () \<and>
    qc_phase qc = p \<and> qc_round qc = r \<and> qc_block_hash qc = h \<and>
    (\<forall>m \<in> set (qc_votes qc). vm_phase m = p \<and> vm_round m = r \<and> vm_block_hash m = h) \<and>
    length (qc_votes qc) = max 1 (quorum_threshold (quorum_validator_new vs ver))"
proof -
  let ?new = "vote_collector_new p r h (quorum_validator_new vs ver)"
  let ?c = "collect ?new votes"
  have ok: "collector_ok ?c" by (simp add: collector_ok_collect collector_ok_new)
  have acc: "accepts_vote ?c v" using assms add_vote_reject [of ?c v] by (metis prod.inject vote_result.distinct(6))
  note ok' = collector_ok_record [OF ok acc]
  have c: "c = record_vote ?c v" and reached: "vc_quorum_reached c" and qc: "qc = collector_qc c"
    using assms add_vote_accept [OF ok acc] by (auto split: if_splits)
  have keep: "vc_phase c = p" "vc_round c = r" "vc_block_hash c = h"
      "vc_validator c = quorum_validator_new vs ver"
    by (simp_all add: c record_vote_def Let_def collect_keeps vote_collector_new_def)
  have "\<not> vc_quorum_reached ?c" using acc by (simp add: accepts_vote_def)
  then have "length (vc_votes c) = max 1 (quorum_threshold (vc_validator c))"
    using ok reached by (auto simp: collector_ok_def c record_vote_def Let_def)
  then show ?thesis
    using complete_qc_valid [of c] ok' reached collector_votes_ok(2) [OF ok'] keep
    by (simp add: qc c collector_qc_def)
qed

definition demo_ballot :: "string \<Rightarrow> vote_message" where
  "demo_ballot v = \<lparr>vm_block_hash = 7, vm_round = 1, vm_phase = Prepare, vm_voter_id = v, vm_signature = [1]\<rparr>"

definition demo_collector :: vote_collector where
  "demo_collector = vote_collector_new Prepare 1 7
     (quorum_validator_new demo_validators (\<lambda>_ _ sig. sig \<noteq> []))"

theorem collector_certificate_sound_witness:
  "\<exists>c qc. add_vote (collect demo_collector (map demo_ballot [''v0'', ''v2''])) (demo_ballot ''v3'') =
      (c, QuorumReached qc) \<and> length (qc_votes qc) = 3"
proof -
  let ?qv = "quorum_validator_new demo_validators (\<lambda>_ _ sig. sig \<noteq> [])"
  have "\<exists>c qc. add_vote (collect demo_collector (map demo_ballot [''v0'', ''v2''])) (demo_ballot ''v3'') =
      (c, QuorumReached qc)"
    by (simp add: demo_collector_def demo_ballot_def vote_collector_new_def add_vote_def
        quorum_validator_new_def demo_validators_def validate_vote_def hm_contains_def hm_insert_def
        quorum_threshold_def max_faulty_def quorum_certificate_new_def Let_def)
  then obtain c qc where e: "add_vote (collect demo_collector (map demo_ballot [''v0'', ''v2''])) (demo_ballot ''v3'') =
      (c, QuorumReached qc)" by blast
  have "quorum_threshold ?qv = 3"
    by (simp add: quorum_threshold_def max_faulty_def quorum_validator_new_def demo_validators_def Let_def)
  then have "length (qc_votes qc) = 3"
    using collector_certificate_sound [OF e [unfolded demo_collector_def]] by simp
  then show ?thesis using e by blast
qed

lemma collect_covers:
  assumes "collector_ok c" and "v \<in> set vs" and "votes_for c v" and "\<not> vc_quorum_reached (collect c vs)"
  shows "vm_voter_id v \<in> fst ` set (vc_votes (collect c vs))"
proof -
  have mono: "fst ` set (vc_votes c) \<subseteq> fst ` set (vc_votes (collect c vs)) \<and>
      (vc_quorum_reached c \<longrightarrow> vc_quorum_reached (collect c vs))"
    if "collector_ok c" for c vs
    using that
  proof (induction vs arbitrary: c)
    case (Cons w vs)
    have "fst ` set (vc_votes c) \<subseteq> fst ` set (vc_votes (fst (add_vote c w))) \<and>
        (vc_quorum_reached c \<longrightarrow> vc_quorum_reached (fst (add_vote c w)))"
      by (rule add_vote_cases [OF Cons.prems, of w]) (auto simp: record_vote_def accepts_vote_def Let_def)
    then show ?case using Cons.IH [OF collector_ok_add_vote [OF Cons.prems, of w]] by simp blast
  qed simp
  show ?thesis
    using assms
  proof (induction vs arbitrary: c)
    case (Cons w vs)
    note ok' = collector_ok_add_vote [OF Cons.prems(1), of w]
    show ?case
    proof (cases "v \<in> set vs")
      case True
      then show ?thesis
        using Cons.IH [OF ok'] Cons.prems by (simp add: votes_for_def add_vote_keeps)
    next
      case False
      then have w: "w = v" using Cons.prems by simp
      have "\<not> vc_quorum_reached c"
        using Cons.prems mono [OF Cons.prems(1), of "w # vs"] by auto
      then have "vm_voter_id v \<in> fst ` set (vc_votes (fst (add_vote c v)))"
        using Cons.prems(3)
        by (rule_tac add_vote_cases [OF Cons.prems(1), of v])
          (auto simp: accepts_vote_def record_vote_def Let_def)
      then show ?thesis using mono [OF ok', of vs] w by auto
    qed
  qed simp
qed

text \<open>
  A collector fed valid votes for its phase, round and block from at least a quorum of distinct
  validators completes, whatever other votes arrive and in whatever order.
\<close>

theorem collector_completes:
  assumes "good \<subseteq> set votes" and "validators \<noteq> []"
    and "\<And>v. v \<in> good \<Longrightarrow> votes_for (vote_collector_new p r h (quorum_validator_new validators ver)) v"
    and "quorum_threshold (quorum_validator_new validators ver) \<le> card (vm_voter_id ` good)"
  shows "is_complete (collect (vote_collector_new p r h (quorum_validator_new validators ver)) votes)"
proof (rule ccontr)
  let ?new = "vote_collector_new p r h (quorum_validator_new validators ver)"
  let ?c = "collect ?new votes"
  assume "\<not> is_complete ?c"
  then have nr: "\<not> vc_quorum_reached ?c" by (simp add: is_complete_def)
  have ok: "collector_ok ?new" by (simp add: collector_ok_new)
  have "vm_voter_id ` good \<subseteq> fst ` set (vc_votes ?c)"
    using collect_covers [OF ok _ _ nr] assms(1,3) by blast
  then have "card (vm_voter_id ` good) \<le> length (vc_votes ?c)"
    using le_trans [OF card_mono card_length [of "map fst (vc_votes ?c)"]] by simp
  moreover have "0 < quorum_threshold (quorum_validator_new validators ver)"
    using assms(2) by (simp add: quorum_threshold_def quorum_validator_new_def)
  ultimately show False
    using nr assms(4) collector_ok_collect [OF ok, of votes]
    by (auto simp: collector_ok_def collect_keeps vote_collector_new_def)
qed

theorem collector_completes_witness:
  "is_complete (collect demo_collector (map demo_ballot [''x'', ''v0'', ''v2'', ''v0'', ''v3'']))"
  unfolding demo_collector_def
proof (rule collector_completes [where good = "demo_ballot ` {''v0'', ''v2'', ''v3''}"])
  have "vm_voter_id ` demo_ballot ` {''v0'', ''v2'', ''v3''} = {''v0'', ''v2'', ''v3''}"
    by (simp add: demo_ballot_def)
  then show "quorum_threshold (quorum_validator_new demo_validators (\<lambda>_ _ sig. sig \<noteq> [])) \<le>
      card (vm_voter_id ` demo_ballot ` {''v0'', ''v2'', ''v3''})"
    by (simp add: quorum_threshold_def max_faulty_def quorum_validator_new_def demo_validators_def Let_def)
qed (auto simp: votes_for_def vote_collector_new_def vote_ok_def quorum_validator_new_def
    demo_validators_def demo_ballot_def)

end
