(* ===== verification/Bft_Round.thy ===== *)
theory Bft_Round
  imports Bft_Quorum
begin

text \<open>
  The BFT round state machine and the round manager (\<open>src/src/consensus/bft/round.rs\<close> and
  \<open>round_manager.rs\<close>).  A handler takes the round and returns the updated round with the action
  for the caller; the reachable rounds are those that \<open>process\<close> reaches from a new round.
\<close>

section \<open>The round\<close>

datatype round_event =
    StartAsLeader hash32
  | Proposal hash32 string
  | VoteEvent vote_message
  | Timeout

datatype round_action =
    BroadcastProposal hash32
  | SendVote vote_message
  | PhaseComplete bft_phase quorum_certificate
  | DecideAction hash32 u64 quorum_certificate
  | NoAction

datatype round_state = AwaitingProposal | Preparing | PreCommitting | Committing | Decided | Failed

definition make_vote :: "bft_phase \<Rightarrow> hash32 \<Rightarrow> u64 \<Rightarrow> string \<Rightarrow> vote_message" where
  "make_vote phase block_hash round node_id =
     \<lparr>vm_block_hash = block_hash, vm_round = round, vm_phase = phase, vm_voter_id = node_id,
      vm_signature = []\<rparr>"

record bft_round =
  br_round :: u64
  br_node_id :: string
  br_leader_id :: string
  br_state :: round_state
  br_block_hash :: "hash32 option"
  br_prepare_qc :: "quorum_certificate option"
  br_precommit_qc :: "quorum_certificate option"
  br_commit_qc :: "quorum_certificate option"
  br_prepare_collector :: "vote_collector option"
  br_precommit_collector :: "vote_collector option"
  br_commit_collector :: "vote_collector option"
  br_validators :: "string list"
  br_verifier :: verifier

definition bft_round_new ::
    "u64 \<Rightarrow> string \<Rightarrow> string \<Rightarrow> string list \<Rightarrow> verifier \<Rightarrow> bft_round" where
  "bft_round_new round node_id leader_id validators ver =
     \<lparr>br_round = round, br_node_id = node_id, br_leader_id = leader_id, br_state = AwaitingProposal,
      br_block_hash = None, br_prepare_qc = None, br_precommit_qc = None, br_commit_qc = None,
      br_prepare_collector = None, br_precommit_collector = None, br_commit_collector = None,
      br_validators = validators, br_verifier = ver\<rparr>"

definition is_leader :: "bft_round \<Rightarrow> bool" where
  "is_leader r = (br_node_id r = br_leader_id r)"

text \<open>The \<open>match phase\<close> that picks the collector field; the phase \<open>Decide\<close> has none.\<close>

fun collector_slot :: "bft_phase \<Rightarrow> bft_round \<Rightarrow> vote_collector option" where
  "collector_slot Prepare r = br_prepare_collector r"
| "collector_slot PreCommit r = br_precommit_collector r"
| "collector_slot Commit r = br_commit_collector r"
| "collector_slot Decide r = None"

fun set_collector_slot :: "bft_phase \<Rightarrow> vote_collector \<Rightarrow> bft_round \<Rightarrow> bft_round" where
  "set_collector_slot Prepare c r = r\<lparr>br_prepare_collector := Some c\<rparr>"
| "set_collector_slot PreCommit c r = r\<lparr>br_precommit_collector := Some c\<rparr>"
| "set_collector_slot Commit c r = r\<lparr>br_commit_collector := Some c\<rparr>"
| "set_collector_slot Decide c r = r"

definition ensure_collector :: "bft_phase \<Rightarrow> hash32 \<Rightarrow> bft_round \<Rightarrow> bft_round" where
  "ensure_collector phase bh r =
     (if phase = Decide then r
      else if collector_slot phase r = None
      then set_collector_slot phase
             (vote_collector_new phase (br_round r) bh
                (quorum_validator_new (br_validators r) (br_verifier r))) r
      else r)"

definition handle_start_as_leader :: "hash32 \<Rightarrow> bft_round \<Rightarrow> bft_round \<times> round_action" where
  "handle_start_as_leader block_hash r =
     (if br_state r \<noteq> AwaitingProposal \<or> \<not> is_leader r then (r, NoAction)
      else (ensure_collector Prepare block_hash
              (r\<lparr>br_block_hash := Some block_hash, br_state := Preparing\<rparr>),
            BroadcastProposal block_hash))"

definition handle_proposal :: "hash32 \<Rightarrow> string \<Rightarrow> bft_round \<Rightarrow> bft_round \<times> round_action" where
  "handle_proposal block_hash leader_id r =
     (if br_state r \<noteq> AwaitingProposal \<or> leader_id \<noteq> br_leader_id r then (r, NoAction)
      else (ensure_collector Prepare block_hash
              (r\<lparr>br_block_hash := Some block_hash, br_state := Preparing\<rparr>),
            SendVote (make_vote Prepare block_hash (br_round r) (br_node_id r))))"

fun advance_phase ::
    "bft_phase \<Rightarrow> quorum_certificate \<Rightarrow> hash32 \<Rightarrow> bft_round \<Rightarrow> bft_round \<times> round_action" where
  "advance_phase Prepare qc bh r =
     (ensure_collector PreCommit bh (r\<lparr>br_prepare_qc := Some qc, br_state := PreCommitting\<rparr>),
      PhaseComplete Prepare qc)"
| "advance_phase PreCommit qc bh r =
     (ensure_collector Commit bh (r\<lparr>br_precommit_qc := Some qc, br_state := Committing\<rparr>),
      PhaseComplete PreCommit qc)"
| "advance_phase Commit qc bh r =
     (r\<lparr>br_commit_qc := Some qc, br_state := Decided\<rparr>, DecideAction bh (br_round r) qc)"
| "advance_phase Decide qc bh r = (r, NoAction)"

definition on_vote :: "bft_phase \<Rightarrow> vote_message \<Rightarrow> hash32 \<Rightarrow> bft_round \<Rightarrow> bft_round \<times> round_action" where
  "on_vote phase vote bh r =
     (let r1 = ensure_collector phase bh r in
      case collector_slot phase r1 of
        None \<Rightarrow> (r1, NoAction)
      | Some c \<Rightarrow>
          let (c', res) = add_vote c vote;
              r2 = set_collector_slot phase c' r1
          in (case res of
                QuorumReached qc \<Rightarrow> advance_phase phase qc bh r2
              | _ \<Rightarrow> (r2, NoAction)))"

definition handle_vote :: "vote_message \<Rightarrow> bft_round \<Rightarrow> bft_round \<times> round_action" where
  "handle_vote vote r =
     (case br_block_hash r of
        None \<Rightarrow> (r, NoAction)
      | Some bh \<Rightarrow>
          (case br_state r of
             Preparing \<Rightarrow> on_vote Prepare vote bh r
           | PreCommitting \<Rightarrow> on_vote PreCommit vote bh r
           | Committing \<Rightarrow> on_vote Commit vote bh r
           | _ \<Rightarrow> (r, NoAction)))"

definition handle_timeout :: "bft_round \<Rightarrow> bft_round \<times> round_action" where
  "handle_timeout r =
     (if br_state r \<noteq> Decided \<and> br_state r \<noteq> Failed then (r\<lparr>br_state := Failed\<rparr>, NoAction)
      else (r, NoAction))"

fun process :: "bft_round \<Rightarrow> round_event \<Rightarrow> bft_round \<times> round_action" where
  "process r (StartAsLeader block_hash) = handle_start_as_leader block_hash r"
| "process r (Proposal block_hash leader_id) = handle_proposal block_hash leader_id r"
| "process r (VoteEvent vote) = handle_vote vote r"
| "process r Timeout = handle_timeout r"

definition run_round :: "bft_round \<Rightarrow> round_event list \<Rightarrow> bft_round" where
  "run_round = foldl (\<lambda>r e. fst (process r e))"

section \<open>The round manager\<close>

record round_manager_config =
  rc_base_timeout_ms :: u64
  rc_max_timeout_ms :: u64

definition default_round_config :: round_manager_config where
  "default_round_config = \<lparr>rc_base_timeout_ms = 3000, rc_max_timeout_ms = 30000\<rparr>"

datatype manager_action =
    RoundAct round_action
  | NewRound u64 string u64
  | NoManagerAction

record round_manager =
  rm_node_id :: string
  rm_validators :: "string list"
  rm_verifier :: verifier
  rm_config :: round_manager_config
  rm_current_round :: u64
  rm_current :: "bft_round option"
  rm_consecutive_timeouts :: u32
  rm_highest_commit_qc :: "quorum_certificate option"

definition round_manager_new ::
    "string \<Rightarrow> string list \<Rightarrow> verifier \<Rightarrow> round_manager_config \<Rightarrow> round_manager" where
  "round_manager_new node_id validators ver config =
     \<lparr>rm_node_id = node_id, rm_validators = validators, rm_verifier = ver, rm_config = config,
      rm_current_round = 0, rm_current = None, rm_consecutive_timeouts = 0,
      rm_highest_commit_qc = None\<rparr>"

definition leader_for_round :: "round_manager \<Rightarrow> u64 \<Rightarrow> string" where
  "leader_for_round m round =
     (if rm_validators m = [] then []
      else rm_validators m ! (unat round mod length (rm_validators m)))"

definition current_leader :: "round_manager \<Rightarrow> string" where
  "current_leader m = leader_for_round m (rm_current_round m)"

definition is_current_leader :: "round_manager \<Rightarrow> bool" where
  "is_current_leader m = (current_leader m = rm_node_id m)"

text \<open>\<open>2u64.saturating_pow\<close>.\<close>

definition saturating_pow2 :: "u32 \<Rightarrow> u64" where
  "saturating_pow2 k = (if k < 64 then 2 ^ unat k else - 1)"

definition current_timeout_ms :: "round_manager \<Rightarrow> u64" where
  "current_timeout_ms m =
     min (rc_base_timeout_ms (rm_config m) * saturating_pow2 (rm_consecutive_timeouts m))
       (rc_max_timeout_ms (rm_config m))"

definition start_round :: "round_manager \<Rightarrow> u64 \<Rightarrow> round_manager \<times> manager_action" where
  "start_round m round =
     (let m1 = m\<lparr>rm_current_round := round\<rparr>;
          leader = leader_for_round m1 round;
          m2 = m1\<lparr>rm_current :=
                 Some (bft_round_new round (rm_node_id m1) leader (rm_validators m1) (rm_verifier m1))\<rparr>
      in (m2, NewRound round leader (current_timeout_ms m2)))"

definition manager_start :: "round_manager \<Rightarrow> round_manager \<times> manager_action" where
  "manager_start m = start_round m 0"

definition process_event :: "round_manager \<Rightarrow> round_event \<Rightarrow> round_manager \<times> manager_action" where
  "process_event m event =
     (case rm_current m of
        None \<Rightarrow> (m, NoManagerAction)
      | Some r \<Rightarrow>
          let (r', action) = process r event;
              m1 = m\<lparr>rm_current := Some r'\<rparr>;
              m2 = (case action of
                      DecideAction _ _ commit_qc \<Rightarrow>
                        m1\<lparr>rm_highest_commit_qc := Some commit_qc, rm_consecutive_timeouts := 0\<rparr>
                    | _ \<Rightarrow> m1)
          in (m2, RoundAct action))"

definition on_timeout :: "round_manager \<Rightarrow> round_manager \<times> manager_action" where
  "on_timeout m =
     (let m1 = (case rm_current m of
                  None \<Rightarrow> m
                | Some r \<Rightarrow> m\<lparr>rm_current := Some (fst (process r Timeout))\<rparr>);
          m2 = m1\<lparr>rm_consecutive_timeouts := rm_consecutive_timeouts m1 + 1\<rparr>
      in start_round m2 (rm_current_round m2 + 1))"

definition advance_after_decide :: "round_manager \<Rightarrow> round_manager \<times> manager_action" where
  "advance_after_decide m =
     (let m1 = m\<lparr>rm_consecutive_timeouts := 0\<rparr> in start_round m1 (rm_current_round m1 + 1))"

section \<open>Invariant of the round\<close>

abbreviation round_qv :: "bft_round \<Rightarrow> quorum_validator" where
  "round_qv r \<equiv> quorum_validator_new (br_validators r) (br_verifier r)"

text \<open>A certificate of the round for one phase: valid, and all its votes for the round's block.\<close>

definition certified :: "bft_round \<Rightarrow> bft_phase \<Rightarrow> quorum_certificate option \<Rightarrow> bool" where
  "certified r p oqc \<longleftrightarrow> (\<exists>qc h. oqc = Some qc \<and> br_block_hash r = Some h \<and>
     validate_qc (round_qv r) qc = Inr () \<and>
     quorum_certificate_new p h (br_round r) (qc_votes qc) = Inr qc)"

definition collecting :: "bft_round \<Rightarrow> bft_phase \<Rightarrow> vote_collector \<Rightarrow> bool" where
  "collecting r p c \<longleftrightarrow> collector_ok c \<and> vc_phase c = p \<and> vc_round c = br_round r \<and>
     br_block_hash r = Some (vc_block_hash c) \<and> vc_validator c = round_qv r"

definition slots_ok :: "bft_round \<Rightarrow> bool" where
  "slots_ok r \<longleftrightarrow> (\<forall>p c. collector_slot p r = Some c \<longrightarrow> collecting r p c)"

definition round_ok :: "bft_round \<Rightarrow> bool" where
  "round_ok r \<longleftrightarrow>
     slots_ok r \<and>
     (br_state r = AwaitingProposal \<longrightarrow> br_block_hash r = None) \<and>
     (br_state r \<in> {PreCommitting, Committing, Decided} \<longrightarrow> certified r Prepare (br_prepare_qc r)) \<and>
     (br_state r \<in> {Committing, Decided} \<longrightarrow> certified r PreCommit (br_precommit_qc r)) \<and>
     (br_state r = Decided \<longrightarrow> certified r Commit (br_commit_qc r)) \<and>
     (br_state r \<noteq> Decided \<longrightarrow> br_commit_qc r = None)"

lemma collector_slot_set [simp]:
  "collector_slot q (set_collector_slot p c r) = (if q = p \<and> p \<noteq> Decide then Some c else collector_slot q r)"
  by (cases p; cases q) simp_all

lemma set_collector_slot_keeps [simp]:
  "br_round (set_collector_slot p c r) = br_round r"
  "br_node_id (set_collector_slot p c r) = br_node_id r"
  "br_leader_id (set_collector_slot p c r) = br_leader_id r"
  "br_state (set_collector_slot p c r) = br_state r"
  "br_block_hash (set_collector_slot p c r) = br_block_hash r"
  "br_prepare_qc (set_collector_slot p c r) = br_prepare_qc r"
  "br_precommit_qc (set_collector_slot p c r) = br_precommit_qc r"
  "br_commit_qc (set_collector_slot p c r) = br_commit_qc r"
  "br_validators (set_collector_slot p c r) = br_validators r"
  "br_verifier (set_collector_slot p c r) = br_verifier r"
  by (cases p; simp)+

lemma ensure_collector_keeps [simp]:
  "br_round (ensure_collector p h r) = br_round r"
  "br_node_id (ensure_collector p h r) = br_node_id r"
  "br_leader_id (ensure_collector p h r) = br_leader_id r"
  "br_state (ensure_collector p h r) = br_state r"
  "br_block_hash (ensure_collector p h r) = br_block_hash r"
  "br_prepare_qc (ensure_collector p h r) = br_prepare_qc r"
  "br_precommit_qc (ensure_collector p h r) = br_precommit_qc r"
  "br_commit_qc (ensure_collector p h r) = br_commit_qc r"
  "br_validators (ensure_collector p h r) = br_validators r"
  "br_verifier (ensure_collector p h r) = br_verifier r"
  by (simp_all add: ensure_collector_def)

lemma collecting_set [simp]: "collecting (set_collector_slot q c' r) p c = collecting r p c"
  by (simp add: collecting_def)

lemma certified_set [simp]:
  "certified (set_collector_slot q c r) p oqc = certified r p oqc"
  "certified (ensure_collector q h r) p oqc = certified r p oqc"
  by (simp_all add: certified_def)

lemma collecting_new:
  "br_block_hash r = Some h \<Longrightarrow> collecting r p (vote_collector_new p (br_round r) h (round_qv r))"
  by (simp add: collecting_def collector_ok_new) (simp add: vote_collector_new_def)

lemma slots_ok_set: "slots_ok r \<Longrightarrow> collecting r p c \<Longrightarrow> slots_ok (set_collector_slot p c r)"
  by (auto simp: slots_ok_def)

lemma slots_ok_ensure: "slots_ok r \<Longrightarrow> br_block_hash r = Some h \<Longrightarrow> slots_ok (ensure_collector p h r)"
  by (simp add: ensure_collector_def slots_ok_set collecting_new)

lemma slots_ok_cong:
  assumes "slots_ok r" and "\<And>p. collector_slot p r' = collector_slot p r" and "br_round r' = br_round r"
    and "br_block_hash r' = br_block_hash r" and "br_validators r' = br_validators r"
    and "br_verifier r' = br_verifier r"
  shows "slots_ok r'"
  using assms by (simp add: slots_ok_def collecting_def)

lemma collector_slot_update [simp]:
  "collector_slot p (r\<lparr>br_state := s\<rparr>) = collector_slot p r"
  "collector_slot p (r\<lparr>br_block_hash := h\<rparr>) = collector_slot p r"
  "collector_slot p (r\<lparr>br_prepare_qc := q\<rparr>) = collector_slot p r"
  "collector_slot p (r\<lparr>br_precommit_qc := q\<rparr>) = collector_slot p r"
  "collector_slot p (r\<lparr>br_commit_qc := q\<rparr>) = collector_slot p r"
  by (cases p; simp)+

lemma round_ok_new: "round_ok (bft_round_new rd n l vs ver)"
proof -
  have "collector_slot p (bft_round_new rd n l vs ver) = None" for p
    by (cases p) (simp_all add: bft_round_new_def)
  then show ?thesis by (simp add: round_ok_def slots_ok_def) (simp add: bft_round_new_def)
qed

lemma round_ok_propose:
  assumes "round_ok r" and "br_state r = AwaitingProposal"
  shows "round_ok (ensure_collector Prepare h (r\<lparr>br_block_hash := Some h, br_state := Preparing\<rparr>))"
proof -
  let ?r = "r\<lparr>br_block_hash := Some h, br_state := Preparing\<rparr>"
  have "collector_slot p r = None" for p
    using assms by (cases "collector_slot p r") (auto simp: round_ok_def slots_ok_def collecting_def)
  then have "slots_ok ?r" by (simp add: slots_ok_def)
  then have "slots_ok (ensure_collector Prepare h ?r)" by (rule slots_ok_ensure) simp
  then show ?thesis using assms by (simp add: round_ok_def)
qed

lemma round_ok_fail: "round_ok r \<Longrightarrow> br_state r \<noteq> Decided \<Longrightarrow> round_ok (r\<lparr>br_state := Failed\<rparr>)"
  by (simp add: round_ok_def slots_ok_def collecting_def)

lemma collecting_add_vote:
  "collecting r p c \<Longrightarrow> collecting r p (fst (add_vote c v))"
  by (simp add: collecting_def collector_ok_add_vote add_vote_keeps)

lemma ensure_collector_slot:
  assumes "slots_ok r" and "br_block_hash r = Some h" and "p \<noteq> Decide"
  obtains c where "collector_slot p (ensure_collector p h r) = Some c" and "collecting r p c"
  using assms that collecting_new [OF assms(2), of p]
  by (cases "collector_slot p r") (auto simp: ensure_collector_def slots_ok_def)

text \<open>The phase in which a state collects votes.\<close>

fun phase_of :: "round_state \<Rightarrow> bft_phase" where
  "phase_of Preparing = Prepare"
| "phase_of PreCommitting = PreCommit"
| "phase_of Committing = Commit"
| "phase_of _ = Decide"

lemma certified_update [simp]:
  "certified (r\<lparr>br_state := s\<rparr>) p oqc = certified r p oqc"
  "certified (r\<lparr>br_prepare_qc := q\<rparr>) p oqc = certified r p oqc"
  "certified (r\<lparr>br_precommit_qc := q\<rparr>) p oqc = certified r p oqc"
  "certified (r\<lparr>br_commit_qc := q\<rparr>) p oqc = certified r p oqc"
  by (simp_all add: certified_def)

lemma round_ok_advance:
  assumes "round_ok r" and "br_block_hash r = Some h" and "certified r (phase_of (br_state r)) (Some qc)"
  shows "round_ok (fst (advance_phase (phase_of (br_state r)) qc h r))"
proof -
  have so: "slots_ok r" using assms(1) by (simp add: round_ok_def)
  have "slots_ok (fst (advance_phase (phase_of (br_state r)) qc h r))"
    using so assms(2)
    by (cases "br_state r") (auto intro!: slots_ok_ensure intro: slots_ok_cong)
  then show ?thesis
    using assms by (cases "br_state r") (auto simp: round_ok_def)
qed

lemma on_vote_cases:
  assumes "round_ok r" and "br_block_hash r = Some h" and "p \<noteq> Decide"
  obtains (quorum) c c' qc where "collector_slot p (ensure_collector p h r) = Some c"
      and "collecting r p c" and "add_vote c v = (c', QuorumReached qc)"
      and "collecting r p c'" and "certified r p (Some qc)"
      and "on_vote p v h r = advance_phase p qc h (set_collector_slot p c' (ensure_collector p h r))"
  | (pending) c c' where "collector_slot p (ensure_collector p h r) = Some c"
      and "collecting r p c" and "c' = fst (add_vote c v)" and "collecting r p c'"
      and "vc_quorum_reached c' \<Longrightarrow> vc_quorum_reached c"
      and "on_vote p v h r = (set_collector_slot p c' (ensure_collector p h r), NoAction)"
proof -
  have so: "slots_ok r" using assms(1) by (simp add: round_ok_def)
  obtain c where c: "collector_slot p (ensure_collector p h r) = Some c" "collecting r p c"
    using ensure_collector_slot [OF so assms(2,3)] .
  obtain c' res where av: "add_vote c v = (c', res)" by force
  have c': "collecting r p c'" using collecting_add_vote [OF c(2), of v] av by simp
  show ?thesis
  proof (cases "\<exists>qc. res = QuorumReached qc")
    case True
    then obtain qc where QuorumReached: "res = QuorumReached qc" by blast
    then have "certified r p (Some qc)"
      using add_vote_quorum [of c v c' qc] av c(2) assms(2) by (auto simp: certified_def collecting_def)
    then show ?thesis
      using quorum [of c c' qc] c c' av QuorumReached by (simp add: on_vote_def Let_def)
  next
    case False
    have "collector_ok c" using c(2) by (simp add: collecting_def)
    then have "vc_quorum_reached c' \<Longrightarrow> vc_quorum_reached c"
      using False av add_vote_accept [of c v] add_vote_reject [of c v]
      by (cases "accepts_vote c v") auto
    moreover have "on_vote p v h r = (set_collector_slot p c' (ensure_collector p h r), NoAction)"
      using False c av by (cases res) (auto simp: on_vote_def Let_def)
    ultimately show ?thesis using pending [of c c'] c c' av by simp
  qed
qed

lemma round_ok_set_slot:
  "round_ok r \<Longrightarrow> br_block_hash r = Some h \<Longrightarrow> collecting r p c \<Longrightarrow>
     round_ok (set_collector_slot p c (ensure_collector p h r))"
  using slots_ok_set [OF slots_ok_ensure, of r h p p c]
  by (simp add: round_ok_def collecting_def)

lemma round_ok_on_vote:
  assumes "round_ok r" and "br_block_hash r = Some h" and "br_state r \<in> {Preparing, PreCommitting, Committing}"
  shows "round_ok (fst (on_vote (phase_of (br_state r)) v h r))"
proof -
  let ?p = "phase_of (br_state r)"
  have "?p \<noteq> Decide" using assms(3) by auto
  with assms(1,2) show ?thesis
  proof (cases rule: on_vote_cases [where v = v])
    case (quorum c c' qc)
    then show ?thesis
      using round_ok_advance [of "set_collector_slot ?p c' (ensure_collector ?p h r)" h qc]
        round_ok_set_slot [OF assms(1,2), of ?p c'] assms(2) by simp
  next
    case (pending c c')
    then show ?thesis using round_ok_set_slot [OF assms(1,2)] by simp
  qed
qed

lemma round_ok_process: "round_ok r \<Longrightarrow> round_ok (fst (process r e))"
proof (cases e)
  case (VoteEvent v)
  assume ok: "round_ok r"
  show ?thesis
  proof (cases "br_block_hash r")
    case (Some h)
    then show ?thesis
      using ok VoteEvent round_ok_on_vote [OF ok Some, of v]
      by (cases "br_state r") (simp_all add: handle_vote_def)
  qed (use ok VoteEvent in \<open>simp add: handle_vote_def\<close>)
qed (simp_all add: handle_start_as_leader_def handle_proposal_def handle_timeout_def
    round_ok_propose round_ok_fail)

lemma process_keeps:
  "br_round (fst (process r e)) = br_round r" "br_validators (fst (process r e)) = br_validators r"
  "br_verifier (fst (process r e)) = br_verifier r" "br_leader_id (fst (process r e)) = br_leader_id r"
proof -
  have adv: "br_round (fst (advance_phase p qc h r)) = br_round r \<and>
      br_validators (fst (advance_phase p qc h r)) = br_validators r \<and>
      br_verifier (fst (advance_phase p qc h r)) = br_verifier r \<and>
      br_leader_id (fst (advance_phase p qc h r)) = br_leader_id r" for p qc h r
    by (cases p) simp_all
  have "br_round (fst (on_vote p v h r)) = br_round r \<and>
      br_validators (fst (on_vote p v h r)) = br_validators r \<and>
      br_verifier (fst (on_vote p v h r)) = br_verifier r \<and>
      br_leader_id (fst (on_vote p v h r)) = br_leader_id r" for p v h
    by (simp add: on_vote_def Let_def adv split: option.split prod.split vote_result.split)
  then show "br_round (fst (process r e)) = br_round r" "br_validators (fst (process r e)) = br_validators r"
    "br_verifier (fst (process r e)) = br_verifier r" "br_leader_id (fst (process r e)) = br_leader_id r"
    by (cases e; simp add: handle_start_as_leader_def handle_proposal_def handle_timeout_def
        handle_vote_def split: option.split round_state.split)+
qed

lemma run_round_simps [simp]:
  "run_round r [] = r" "run_round r (e # es) = run_round (fst (process r e)) es"
  by (simp_all add: run_round_def)

lemma run_round_append: "run_round r (es @ fs) = run_round (run_round r es) fs"
  by (simp add: run_round_def)

lemma round_ok_run: "round_ok r \<Longrightarrow> round_ok (run_round r es)"
  by (induction es arbitrary: r) (simp_all add: round_ok_process)

lemma run_round_keeps:
  "br_round (run_round r es) = br_round r" "br_validators (run_round r es) = br_validators r"
  "br_verifier (run_round r es) = br_verifier r" "br_leader_id (run_round r es) = br_leader_id r"
  by (induction es arbitrary: r) (simp_all add: process_keeps)

lemma decided_certificates:
  assumes "br_state (run_round (bft_round_new rd n l vs ver) es) = Decided"
  shows "\<exists>h qp qpc qc.
    br_block_hash (run_round (bft_round_new rd n l vs ver) es) = Some h \<and>
    br_prepare_qc (run_round (bft_round_new rd n l vs ver) es) = Some qp \<and>
    br_precommit_qc (run_round (bft_round_new rd n l vs ver) es) = Some qpc \<and>
    br_commit_qc (run_round (bft_round_new rd n l vs ver) es) = Some qc \<and>
    (\<forall>(p, q) \<in> {(Prepare, qp), (PreCommit, qpc), (Commit, qc)}.
       validate_qc (quorum_validator_new vs ver) q = Inr () \<and>
       quorum_certificate_new p h rd (qc_votes q) = Inr q)"
proof -
  let ?r = "run_round (bft_round_new rd n l vs ver) es"
  have "round_ok ?r" by (simp add: round_ok_run round_ok_new)
  then have "certified ?r Prepare (br_prepare_qc ?r)" "certified ?r PreCommit (br_precommit_qc ?r)"
      "certified ?r Commit (br_commit_qc ?r)"
    using assms by (simp_all add: round_ok_def)
  then show ?thesis
    by (auto simp: certified_def run_round_keeps) (auto simp: bft_round_new_def)
qed

text \<open>
  C6: a round that decides, after any sequence of events, holds a certificate for each of the three
  phases; each passes certificate validation and consists of votes of that phase for the round's
  own block and round number.
\<close>

theorem decided_round_certified:
  assumes "br_state (run_round (bft_round_new rd n l vs ver) es) = Decided"
  shows "\<exists>h qp qpc qc.
    br_block_hash (run_round (bft_round_new rd n l vs ver) es) = Some h \<and>
    br_prepare_qc (run_round (bft_round_new rd n l vs ver) es) = Some qp \<and>
    br_precommit_qc (run_round (bft_round_new rd n l vs ver) es) = Some qpc \<and>
    br_commit_qc (run_round (bft_round_new rd n l vs ver) es) = Some qc \<and>
    (\<forall>(p, q) \<in> {(Prepare, qp), (PreCommit, qpc), (Commit, qc)}.
       validate_qc (quorum_validator_new vs ver) q = Inr () \<and>
       quorum_certificate_new p h rd (qc_votes q) = Inr q)"
  by (rule decided_certificates [OF assms])

text \<open>
  The decided and the failed state are terminal: no event changes such a round or makes it emit
  an action.
\<close>

theorem terminal_round_inert:
  assumes "br_state r = Decided \<or> br_state r = Failed"
  shows "process r e = (r, NoAction)"
  using assms
  by (cases e) (auto simp: handle_start_as_leader_def handle_proposal_def handle_timeout_def
      handle_vote_def split: option.split)

theorem terminal_round_inert_witness:
  "process (fst (process (bft_round_new 3 ''a'' ''a'' [''a''] (\<lambda>_ _ _. True)) Timeout)) (StartAsLeader 9) =
   (fst (process (bft_round_new 3 ''a'' ''a'' [''a''] (\<lambda>_ _ _. True)) Timeout), NoAction)"
  by (rule terminal_round_inert) (simp add: handle_timeout_def bft_round_new_def)

section \<open>Progress of the round\<close>

text \<open>The collector in use is never already complete, and later phases have no collector yet.\<close>

definition later_ok :: "bft_round \<Rightarrow> bool" where
  "later_ok r \<longleftrightarrow>
     (br_state r = AwaitingProposal \<longrightarrow> br_prepare_collector r = None) \<and>
     (br_state r \<in> {AwaitingProposal, Preparing} \<longrightarrow> br_precommit_collector r = None) \<and>
     (br_state r \<in> {AwaitingProposal, Preparing, PreCommitting} \<longrightarrow> br_commit_collector r = None)"

definition open_ok :: "bft_round \<Rightarrow> bool" where
  "open_ok r \<longleftrightarrow> later_ok r \<and>
     (\<forall>c. collector_slot (phase_of (br_state r)) r = Some c \<longrightarrow> \<not> vc_quorum_reached c)"

lemma new_not_reached [simp]: "\<not> vc_quorum_reached (vote_collector_new p rd h qv)"
  by (simp add: vote_collector_new_def)

lemma open_ok_new: "open_ok (bft_round_new rd n l vs ver)"
  by (simp add: open_ok_def later_ok_def bft_round_new_def)

lemma ensure_slot_reached:
  "open_ok r \<Longrightarrow> collector_slot (phase_of (br_state r)) (ensure_collector (phase_of (br_state r)) h r) = Some c
     \<Longrightarrow> \<not> vc_quorum_reached c"
  by (auto simp: open_ok_def ensure_collector_def split: if_splits)

lemma later_ok_set:
  assumes "later_ok r" and "br_state r \<in> {Preparing, PreCommitting, Committing}"
  shows "later_ok (set_collector_slot (phase_of (br_state r)) c (ensure_collector (phase_of (br_state r)) h r))"
  using assms by (cases "br_state r") (simp_all add: later_ok_def ensure_collector_def)

lemma open_ok_advance:
  assumes "later_ok r" and "br_state r \<in> {Preparing, PreCommitting, Committing}"
  shows "open_ok (fst (advance_phase (phase_of (br_state r)) qc h r))"
  using assms by (cases "br_state r") (simp_all add: open_ok_def later_ok_def ensure_collector_def)

lemma open_ok_vote:
  assumes "round_ok r" and "open_ok r" and "br_block_hash r = Some h"
    and "br_state r \<in> {Preparing, PreCommitting, Committing}"
  shows "open_ok (fst (on_vote (phase_of (br_state r)) v h r))"
proof -
  let ?p = "phase_of (br_state r)"
  have lo: "later_ok (set_collector_slot ?p c (ensure_collector ?p h r))" for c
    using assms(2,4) by (intro later_ok_set) (simp_all add: open_ok_def)
  have pd: "?p \<noteq> Decide" using assms(4) by auto
  from assms(1,3) pd show ?thesis
  proof (cases rule: on_vote_cases [where v = v])
    case (quorum c c' qc)
    then show ?thesis using open_ok_advance [OF lo [of c'], of qc h] assms(4) by simp
  next
    case (pending c c')
    then have "\<not> vc_quorum_reached c'" using ensure_slot_reached [OF assms(2)] by blast
    then show ?thesis using pending(6) lo [of c'] pd by (simp add: open_ok_def)
  qed
qed

lemma open_ok_process:
  assumes "round_ok r" and "open_ok r"
  shows "open_ok (fst (process r e))"
proof (cases e)
  case (VoteEvent v)
  then show ?thesis
    using assms(2) open_ok_vote [OF assms, of _ v]
    by (cases "br_state r") (auto simp: handle_vote_def split: option.split)
qed (use assms in \<open>auto simp: handle_start_as_leader_def handle_proposal_def handle_timeout_def
    open_ok_def later_ok_def ensure_collector_def\<close>)

lemma open_ok_run: "round_ok r \<Longrightarrow> open_ok r \<Longrightarrow> open_ok (run_round r es)"
proof (induction es arbitrary: r)
  case (Cons e es)
  show ?case
    unfolding run_round_simps
    by (rule Cons.IH [OF round_ok_process [OF Cons.prems(1)] open_ok_process [OF Cons.prems]])
qed simp

fun rank :: "round_state \<Rightarrow> nat" where
  "rank Preparing = 1"
| "rank PreCommitting = 2"
| "rank Committing = 3"
| "rank Decided = 4"
| "rank _ = 0"

lemma advance_rank:
  assumes "br_state r \<in> {Preparing, PreCommitting, Committing}"
  shows "rank (br_state (fst (advance_phase (phase_of (br_state r)) qc h r))) = Suc (rank (br_state r))"
  using assms by auto

lemma vote_step:
  assumes "round_ok r" and "br_block_hash r = Some h" and "br_state r \<in> {Preparing, PreCommitting, Committing}"
  obtains (up) "rank (br_state (fst (process r (VoteEvent v)))) = Suc (rank (br_state r))"
  | (same) c where "br_state (fst (process r (VoteEvent v))) = br_state r"
      and "collector_slot (phase_of (br_state r)) (ensure_collector (phase_of (br_state r)) h r) = Some c"
      and "collector_slot (phase_of (br_state r)) (fst (process r (VoteEvent v))) = Some (fst (add_vote c v))"
proof -
  have pd: "phase_of (br_state r) \<noteq> Decide" using assms(3) by auto
  have hv: "process r (VoteEvent v) = on_vote (phase_of (br_state r)) v h r"
    using assms(2,3) by (auto simp: handle_vote_def)
  from assms(1,2) pd show ?thesis
  proof (cases rule: on_vote_cases [where v = v])
    case (quorum c c' qc)
    then show ?thesis
      using up hv assms(3)
        advance_rank [of "set_collector_slot (phase_of (br_state r)) c' (ensure_collector (phase_of (br_state r)) h r)" qc h]
      by simp
  next
    case (pending c c')
    then show ?thesis using same [of c] hv pd by simp
  qed
qed

lemma process_vote_rank:
  assumes "round_ok r"
  shows "rank (br_state r) \<le> rank (br_state (fst (process r (VoteEvent v))))"
    and "br_block_hash (fst (process r (VoteEvent v))) = br_block_hash r"
proof -
  show "rank (br_state r) \<le> rank (br_state (fst (process r (VoteEvent v))))"
  proof (cases "\<exists>h. br_block_hash r = Some h \<and> br_state r \<in> {Preparing, PreCommitting, Committing}")
    case True
    then obtain h where h: "br_block_hash r = Some h" "br_state r \<in> {Preparing, PreCommitting, Committing}"
      by blast
    show ?thesis by (rule vote_step [OF assms h, of v]) simp_all
  next
    case False
    then show ?thesis
      by (cases "br_state r") (auto simp: handle_vote_def split: option.split)
  qed
  have "br_block_hash (fst (advance_phase p qc h r)) = br_block_hash r" for p qc h r
    by (cases p) simp_all
  then show "br_block_hash (fst (process r (VoteEvent v))) = br_block_hash r"
    by (simp add: handle_vote_def on_vote_def Let_def
        split: option.split round_state.split prod.split vote_result.split)
qed

lemma run_votes_rank:
  assumes "round_ok r"
  shows "rank (br_state r) \<le> rank (br_state (run_round r (map VoteEvent vs))) \<and>
    br_block_hash (run_round r (map VoteEvent vs)) = br_block_hash r"
  using assms
proof (induction vs arbitrary: r)
  case (Cons v vs)
  have "rank (br_state r) \<le> rank (br_state (fst (process r (VoteEvent v))))"
    "br_block_hash (fst (process r (VoteEvent v))) = br_block_hash r"
    using process_vote_rank [OF Cons.prems] by blast+
  moreover note Cons.IH [OF round_ok_process [OF Cons.prems], of "VoteEvent v"]
  ultimately show ?case unfolding list.map run_round_simps using le_trans by metis
qed simp

text \<open>As long as votes do not move the round on, its collector accumulates them.\<close>

lemma run_votes_collect:
  assumes "round_ok r" and "br_block_hash r = Some h"
    and "br_state r \<in> {Preparing, PreCommitting, Committing}"
    and "collector_slot (phase_of (br_state r)) (ensure_collector (phase_of (br_state r)) h r) = Some c"
    and "rank (br_state (run_round r (map VoteEvent vs))) = rank (br_state r)"
  shows "collector_slot (phase_of (br_state r))
      (ensure_collector (phase_of (br_state r)) h (run_round r (map VoteEvent vs))) = Some (collect c vs)"
  using assms
proof (induction vs arbitrary: r c)
  case (Cons v vs)
  let ?r = "fst (process r (VoteEvent v))"
  have le: "rank (br_state ?r) \<le> rank (br_state (run_round ?r (map VoteEvent vs)))"
    using run_votes_rank [OF round_ok_process [OF Cons.prems(1)]] by blast
  from Cons.prems(1-3) show ?case
  proof (cases rule: vote_step [where v = v])
    case up
    then show ?thesis using le Cons.prems(5) by simp
  next
    case (same c1)
    then have c1: "c1 = c" using Cons.prems(4) by simp
    have "collector_slot (phase_of (br_state ?r)) (ensure_collector (phase_of (br_state ?r)) h ?r) =
        Some (fst (add_vote c v))"
      using same(1,3) c1 Cons.prems(3) unfolding ensure_collector_def by auto
    then show ?thesis
      using Cons.IH [of ?r "fst (add_vote c v)"] Cons.prems same(1)
        round_ok_process [OF Cons.prems(1), of "VoteEvent v"] process_vote_rank(2) [OF Cons.prems(1)]
      by simp
  qed
qed simp

definition quorum_of_votes :: "bft_round \<Rightarrow> bft_phase \<Rightarrow> hash32 \<Rightarrow> vote_message list \<Rightarrow> bool" where
  "quorum_of_votes r p h vs \<longleftrightarrow> (\<exists>good \<subseteq> set vs.
     (\<forall>v \<in> good. vm_phase v = p \<and> vm_round v = br_round r \<and> vm_block_hash v = h \<and> vote_ok (round_qv r) v) \<and>
     quorum_threshold (round_qv r) \<le> card (vm_voter_id ` good))"

lemma threshold_pos: "vs \<noteq> [] \<Longrightarrow> 0 < quorum_threshold (quorum_validator_new vs ver)"
  by (simp add: quorum_threshold_def quorum_validator_new_def)

lemma covered_complete:
  assumes "collector_ok c" and "finite X" and "X \<subseteq> fst ` set (vc_votes c)"
    and "quorum_threshold (vc_validator c) \<le> card X" and "0 < quorum_threshold (vc_validator c)"
  shows "vc_quorum_reached c"
proof -
  have "card X \<le> length (vc_votes c)"
    using le_trans [OF card_mono card_length [of "map fst (vc_votes c)"]] assms(3) by simp
  then show ?thesis using assms by (auto simp: collector_ok_def)
qed

lemma quorum_advances:
  assumes "round_ok r" and "open_ok r" and "br_block_hash r = Some h" and "br_validators r \<noteq> []"
    and "br_state r \<in> {Preparing, PreCommitting, Committing}"
    and "quorum_of_votes r (phase_of (br_state r)) h vs"
  shows "rank (br_state r) < rank (br_state (run_round r (map VoteEvent vs)))"
proof (rule ccontr)
  let ?p = "phase_of (br_state r)" and ?r = "run_round r (map VoteEvent vs)"
  assume "\<not> rank (br_state r) < rank (br_state ?r)"
  then have same: "rank (br_state ?r) = rank (br_state r)" using run_votes_rank [OF assms(1), of vs] by simp
  then have st: "br_state ?r = br_state r" using assms(5) by (cases "br_state ?r") auto
  have pd: "?p \<noteq> Decide" using assms(5) by auto
  have so: "slots_ok r" using assms(1) by (simp add: round_ok_def)
  obtain c where c: "collector_slot ?p (ensure_collector ?p h r) = Some c" "collecting r ?p c"
    using ensure_collector_slot [OF so assms(3) pd] .
  then have ok: "collector_ok c" and cv: "vc_validator c = round_qv r" by (simp_all add: collecting_def)
  note sl = run_votes_collect [OF assms(1,3,5) c(1) same]
  have "open_ok ?r" by (rule open_ok_run [OF assms(1,2)])
  then have nr: "\<not> vc_quorum_reached (collect c vs)" using ensure_slot_reached [of ?r h] sl st by simp
  obtain good where g: "good \<subseteq> set vs" "\<forall>v \<in> good. votes_for c v"
      "quorum_threshold (round_qv r) \<le> card (vm_voter_id ` good)"
    using assms(3,6) c(2) by (auto simp: quorum_of_votes_def votes_for_def collecting_def)
  have "vm_voter_id ` good \<subseteq> fst ` set (vc_votes (collect c vs))"
    using collect_covers [OF ok _ _ nr] g(1,2) by blast
  then have "vc_quorum_reached (collect c vs)"
    using covered_complete [OF collector_ok_collect [OF ok, of vs], of "vm_voter_id ` good"] g
      threshold_pos [OF assms(4)] finite_subset [OF g(1)]
    by (simp add: collect_keeps cv)
  then show False using nr by simp
qed

definition live :: "bft_round \<Rightarrow> hash32 \<Rightarrow> bool" where
  "live r h \<longleftrightarrow> round_ok r \<and> open_ok r \<and> br_block_hash r = Some h \<and> br_validators r \<noteq> []"

fun phase_rank :: "bft_phase \<Rightarrow> nat" where
  "phase_rank Prepare = 1"
| "phase_rank PreCommit = 2"
| "phase_rank Commit = 3"
| "phase_rank Decide = 4"

lemma live_votes: "live r h \<Longrightarrow> live (run_round r (map VoteEvent vs)) h"
  using run_votes_rank [of r vs] by (simp add: live_def round_ok_run open_ok_run run_round_keeps)

lemma quorum_raises:
  assumes "live r h" and "quorum_of_votes r p h vs" and "p \<noteq> Decide"
    and "phase_rank p \<le> rank (br_state r)"
  shows "phase_rank p < rank (br_state (run_round r (map VoteEvent vs)))"
proof (cases "phase_rank p = rank (br_state r)")
  case True
  then have "phase_of (br_state r) = p" "br_state r \<in> {Preparing, PreCommitting, Committing}"
    using assms(3) by (cases p; cases "br_state r"; simp)+
  then show ?thesis
    using True quorum_advances [of r h vs] assms(1,2) by (simp add: live_def)
next
  case False
  then show ?thesis using assms(1,4) run_votes_rank [of r vs] by (simp add: live_def)
qed

lemma quorum_of_votes_run:
  "quorum_of_votes (run_round r es) p h vs = quorum_of_votes r p h vs"
  by (simp add: quorum_of_votes_def run_round_keeps)

text \<open>
  C5: a round that receives a proposal from its leader and then, phase by phase, valid votes for it
  from a quorum of distinct validators decides on the proposed block, whatever other votes are
  mixed in.
\<close>

theorem round_decides:
  assumes "vals \<noteq> []"
    and "quorum_of_votes (bft_round_new rd n l vals ver) Prepare h vs1"
    and "quorum_of_votes (bft_round_new rd n l vals ver) PreCommit h vs2"
    and "quorum_of_votes (bft_round_new rd n l vals ver) Commit h vs3"
  shows "let r = run_round (bft_round_new rd n l vals ver)
               (Proposal h l # map VoteEvent (vs1 @ vs2 @ vs3))
    in br_state r = Decided \<and> br_block_hash r = Some h"
proof -
  let ?new = "bft_round_new rd n l vals ver"
  define r where "r = run_round ?new [Proposal h l]"
  define a where "a = run_round r (map VoteEvent vs1)"
  define b where "b = run_round a (map VoteEvent vs2)"
  define c where "c = run_round b (map VoteEvent vs3)"
  have st: "br_state r = Preparing" "br_block_hash r = Some h" "br_validators r = vals"
    by (simp_all add: r_def handle_proposal_def bft_round_new_def)
  have live: "live r h"
    using st assms(1) round_ok_run [OF round_ok_new] open_ok_run [OF round_ok_new open_ok_new]
    by (simp add: live_def r_def del: run_round_simps)
  note la = live_votes [OF live, of vs1, folded a_def]
  note lb = live_votes [OF la, of vs2, folded b_def]
  note lc = live_votes [OF lb, of vs3, folded c_def]
  have q: "quorum_of_votes r Prepare h vs1" "quorum_of_votes a PreCommit h vs2" "quorum_of_votes b Commit h vs3"
    using assms(2-4) by (simp_all only: r_def a_def b_def quorum_of_votes_run)
  have "1 < rank (br_state a)" using quorum_raises [OF live q(1)] st by (simp add: a_def)
  then have "2 < rank (br_state b)" using quorum_raises [OF la q(2)] by (simp add: b_def)
  then have "3 < rank (br_state c)" using quorum_raises [OF lb q(3)] by (simp add: c_def)
  then have "br_state c = Decided" by (cases "br_state c") simp_all
  moreover have "c = run_round ?new (Proposal h l # map VoteEvent (vs1 @ vs2 @ vs3))"
    by (simp add: c_def b_def a_def r_def run_round_append)
  ultimately show ?thesis using lc by (simp add: live_def Let_def)
qed

definition demo_signed :: "bft_phase \<Rightarrow> string \<Rightarrow> vote_message" where
  "demo_signed p v = \<lparr>vm_block_hash = 7, vm_round = 1, vm_phase = p, vm_voter_id = v, vm_signature = [1]\<rparr>"

definition demo_round :: bft_round where
  "demo_round = bft_round_new 1 ''v1'' ''v0'' demo_validators (\<lambda>_ _ sig. sig \<noteq> [])"

lemma demo_quorum: "quorum_of_votes demo_round p 7 (map (demo_signed p) [''v0'', ''v2'', ''v3''])"
proof -
  have ids: "vm_voter_id ` set (map (demo_signed p) [''v0'', ''v2'', ''v3'']) = {''v0'', ''v2'', ''v3''}"
    by (simp add: demo_signed_def)
  show ?thesis
    unfolding quorum_of_votes_def
    by (rule exI [of _ "set (map (demo_signed p) [''v0'', ''v2'', ''v3''])"])
      (simp only: ids, simp add: demo_signed_def demo_round_def bft_round_new_def vote_ok_def
        quorum_validator_new_def demo_validators_def quorum_threshold_def max_faulty_def Let_def)
qed

theorem round_decides_witness:
  "let r = run_round demo_round (Proposal 7 ''v0'' # map VoteEvent
       (map (demo_signed Prepare) [''v0'', ''v2'', ''v3''] @ map (demo_signed PreCommit) [''v0'', ''v2'', ''v3''] @
        map (demo_signed Commit) [''v0'', ''v2'', ''v3'']))
   in br_state r = Decided \<and> br_block_hash r = Some 7"
  using round_decides [OF _ demo_quorum [unfolded demo_round_def] demo_quorum [unfolded demo_round_def]
      demo_quorum [unfolded demo_round_def]]
  by (simp add: demo_round_def demo_validators_def)

definition solo_events :: "round_event list" where
  "solo_events = Proposal 7 ''v0'' # map (\<lambda>p. VoteEvent (demo_signed p ''v0'')) [Prepare, PreCommit, Commit]"

theorem decided_round_certified_witness:
  "\<exists>q. br_commit_qc (run_round (bft_round_new 1 ''v0'' ''v0'' [''v0''] (\<lambda>_ _ sig. sig \<noteq> [])) solo_events) = Some q \<and>
     quorum_certificate_new Commit 7 1 (qc_votes q) = Inr q"
proof -
  let ?r = "run_round (bft_round_new 1 ''v0'' ''v0'' [''v0''] (\<lambda>_ _ sig. sig \<noteq> [])) solo_events"
  have d: "br_state ?r = Decided" "br_block_hash ?r = Some 7"
    by (simp_all add: solo_events_def demo_signed_def bft_round_new_def handle_proposal_def
        ensure_collector_def handle_vote_def on_vote_def add_vote_def vote_collector_new_def
        validate_vote_def quorum_validator_new_def hm_contains_def hm_insert_def quorum_threshold_def
        max_faulty_def quorum_certificate_new_def Let_def)
  show ?thesis
    using decided_round_certified [OF d(1)] d(2) by auto
qed

section \<open>The round manager\<close>

text \<open>
  Over as many consecutive rounds as there are validators, round numbers not wrapping, every
  validator is the leader of exactly one round.
\<close>

theorem leader_rotation:
  assumes "distinct (rm_validators m)" and "v \<in> set (rm_validators m)"
    and "unat r + length (rm_validators m) \<le> 2 ^ 64"
  shows "\<exists>!i. i < length (rm_validators m) \<and> leader_for_round m (r + of_nat i) = v"
proof -
  let ?vs = "rm_validators m" let ?n = "length ?vs"
  obtain k where k: "k < ?n" "?vs ! k = v" using assms(2) by (auto simp: in_set_conv_nth)
  have leader: "leader_for_round m (r + of_nat i) = v \<longleftrightarrow> (unat r + i) mod ?n = k" if "i < ?n" for i
  proof -
    have "i < 2 ^ 64" using that assms(3) by simp
    then have "unat (of_nat i :: u64) = i" by (simp add: unat_of_nat_lt)
    then have "unat (r + of_nat i) = unat r + i"
      using that assms(3) unat_add_no_wrap [of r "of_nat i"] by simp
    moreover have "?vs ! ((unat r + i) mod ?n) = v \<longleftrightarrow> (unat r + i) mod ?n = k"
      using k assms(1) by (metis mod_less_divisor nth_eq_iff_index_eq order_le_less_trans zero_le)
    ultimately show ?thesis using k by (auto simp: leader_for_round_def)
  qed
  have "\<exists>!i. i < ?n \<and> (unat r + i) mod ?n = k"
    by (rule rotation_unique [OF k(1)])
  then show ?thesis using leader by metis
qed

theorem leader_rotation_witness:
  "\<exists>!i. i < length demo_validators \<and>
     leader_for_round (round_manager_new ''v1'' demo_validators (\<lambda>_ _ _. True) default_round_config) (5 + of_nat i) = ''v2''"
  using leader_rotation [of "round_manager_new ''v1'' demo_validators (\<lambda>_ _ _. True) default_round_config" "''v2''" 5]
  by (simp add: round_manager_new_def demo_validators_def)

text \<open>
  The round timeout never exceeds the configured maximum, and as long as the doubled base fits
  in 64 bits it is the base doubled once per consecutive timeout, capped at the maximum.
\<close>

theorem timeout_backoff:
  assumes "unat (rm_consecutive_timeouts m) < 64"
    and "unat (rc_base_timeout_ms (rm_config m)) * 2 ^ unat (rm_consecutive_timeouts m) < 2 ^ 64"
  shows "unat (current_timeout_ms m) =
    min (unat (rc_base_timeout_ms (rm_config m)) * 2 ^ unat (rm_consecutive_timeouts m))
      (unat (rc_max_timeout_ms (rm_config m)))"
proof -
  let ?k = "unat (rm_consecutive_timeouts m)" and ?b = "rc_base_timeout_ms (rm_config m)"
  have "rm_consecutive_timeouts m < 64" using assms(1) by (simp add: word_less_nat_alt)
  moreover have "unat ((2 :: u64) ^ ?k) = 2 ^ ?k"
    using assms(1) by (simp add: unat_2_power)
  ultimately have "unat (?b * saturating_pow2 (rm_consecutive_timeouts m)) = unat ?b * 2 ^ ?k"
    using assms(2) unat_mul_no_wrap [of ?b "2 ^ ?k"] by (simp add: saturating_pow2_def)
  then show ?thesis by (simp add: current_timeout_ms_def min_def word_le_nat_alt)
qed

theorem timeout_backoff_witness:
  "unat (current_timeout_ms ((round_manager_new ''a'' [''a''] (\<lambda>_ _ _. True) default_round_config)
      \<lparr>rm_consecutive_timeouts := 2\<rparr>)) = 12000"
  using timeout_backoff [of "(round_manager_new ''a'' [''a''] (\<lambda>_ _ _. True) default_round_config)
      \<lparr>rm_consecutive_timeouts := 2\<rparr>"]
  by (simp add: round_manager_new_def default_round_config_def)

text \<open>
  With the default configuration, after 61 consecutive timeouts the product overflows and the
  timeout of the next round is zero instead of the 30 seconds of the cap.
\<close>

theorem timeout_overflow:
  "current_timeout_ms ((round_manager_new n vs ver default_round_config)\<lparr>rm_consecutive_timeouts := 61\<rparr>) = 0"
  by (simp add: current_timeout_ms_def round_manager_new_def default_round_config_def saturating_pow2_def)

lemma decide_action:
  assumes "process r e = (r', DecideAction h rd qc)"
  shows "br_state r' = Decided \<and> br_commit_qc r' = Some qc"
proof -
  have adv: "br_state r' = Decided \<and> br_commit_qc r' = Some qc"
    if "advance_phase p q b r1 = (r', DecideAction h rd qc)" for p q b r1
    using that by (cases p) auto
  have "br_state r' = Decided \<and> br_commit_qc r' = Some qc"
    if "on_vote p v b r = (r', DecideAction h rd qc)" for p v b
    using that adv by (auto simp: on_vote_def Let_def split: option.splits prod.splits vote_result.splits)
  then show ?thesis
    using assms by (cases e) (auto simp: handle_start_as_leader_def handle_proposal_def handle_timeout_def
        handle_vote_def split: if_splits option.splits round_state.splits)
qed

lemma certifiedD:
  "certified r p (Some qc) \<Longrightarrow> qc_phase qc = p \<and> validate_qc (round_qv r) qc = Inr ()"
  unfolding certified_def using quorum_certificate_new_phase by blast

inductive manager_step :: "round_manager \<Rightarrow> round_manager \<Rightarrow> bool" where
  start: "manager_step m (fst (start_round m rd))"
| event: "manager_step m (fst (process_event m e))"
| timeout: "manager_step m (fst (on_timeout m))"
| advance: "manager_step m (fst (advance_after_decide m))"

definition manager_ok :: "round_manager \<Rightarrow> bool" where
  "manager_ok m \<longleftrightarrow>
     (\<forall>r. rm_current m = Some r \<longrightarrow> (\<exists>es. r = run_round (bft_round_new (rm_current_round m) (rm_node_id m)
        (current_leader m) (rm_validators m) (rm_verifier m)) es)) \<and>
     (\<forall>qc. rm_highest_commit_qc m = Some qc \<longrightarrow> qc_phase qc = Commit \<and>
        validate_qc (quorum_validator_new (rm_validators m) (rm_verifier m)) qc = Inr ())"

lemma manager_ok_start:
  assumes "\<forall>qc. rm_highest_commit_qc m = Some qc \<longrightarrow> qc_phase qc = Commit \<and>
        validate_qc (quorum_validator_new (rm_validators m) (rm_verifier m)) qc = Inr ()"
  shows "manager_ok (fst (start_round m rd))"
  using assms by (auto simp: manager_ok_def start_round_def Let_def current_leader_def leader_for_round_def
      intro: exI [of _ "[]"])

lemma manager_ok_event:
  assumes "manager_ok m"
  shows "manager_ok (fst (process_event m e))"
proof (cases "rm_current m")
  case (Some r)
  let ?new = "bft_round_new (rm_current_round m) (rm_node_id m) (current_leader m) (rm_validators m) (rm_verifier m)"
  obtain es where r: "r = run_round ?new es" using assms Some by (auto simp: manager_ok_def)
  obtain r' a where pr: "process r e = (r', a)" by force
  have r': "r' = run_round ?new (es @ [e])" using r pr by (simp add: run_round_append)
  have dec: "qc_phase qc = Commit \<and> validate_qc (quorum_validator_new (rm_validators m) (rm_verifier m)) qc = Inr ()"
    if "a = DecideAction h rd qc" for h rd qc
  proof -
    have "br_state r' = Decided \<and> br_commit_qc r' = Some qc" using decide_action pr that by blast
    moreover have "round_ok r'" by (simp only: r' round_ok_run [OF round_ok_new])
    ultimately have "certified r' Commit (Some qc)" by (simp add: round_ok_def)
    then show ?thesis
      using certifiedD by (fastforce simp: r' run_round_keeps bft_round_new_def)
  qed
  have lead: "current_leader (m\<lparr>rm_current := c, rm_highest_commit_qc := q, rm_consecutive_timeouts := k\<rparr>) =
      current_leader m" "current_leader (m\<lparr>rm_current := c\<rparr>) = current_leader m" for c q k
    by (simp_all add: current_leader_def leader_for_round_def)
  show ?thesis
    using assms Some pr r' dec
    by (cases a) (auto simp: manager_ok_def process_event_def lead)
qed (use assms in \<open>simp add: process_event_def\<close>)

text \<open>
  Along every run of the round manager the active round is one that its event handler reached
  from a fresh round with the current number and the round-robin leader, and the highest commit
  certificate it keeps is a commit-phase certificate accepted by the validator set.
\<close>

theorem manager_invariant:
  assumes "manager_step\<^sup>*\<^sup>* (round_manager_new n vs ver cfg) m"
  shows "manager_ok m"
  using assms
proof (induction rule: rtranclp_induct)
  case base
  show ?case by (simp add: manager_ok_def round_manager_new_def)
next
  case (step m m')
  have keep: "manager_ok m \<Longrightarrow> manager_ok (fst (start_round (m\<lparr>rm_current := c, rm_consecutive_timeouts := k\<rparr>) rd))"
    "manager_ok m \<Longrightarrow> manager_ok (fst (start_round (m\<lparr>rm_consecutive_timeouts := k\<rparr>) rd))" for m c k rd
    by (rule manager_ok_start, simp add: manager_ok_def)+
  from step.hyps(2) show ?case
  proof cases
    case (start rd)
    then show ?thesis using step.IH manager_ok_start [of m rd] by (simp add: manager_ok_def)
  next
    case (event e)
    then show ?thesis using step.IH manager_ok_event by simp
  next
    case timeout
    then show ?thesis using step.IH keep by (auto simp: on_timeout_def Let_def split: option.split)
  next
    case advance
    then show ?thesis using step.IH keep by (simp add: advance_after_decide_def Let_def)
  qed
qed

theorem manager_invariant_witness:
  "manager_ok (fst (on_timeout (round_manager_new ''v1'' demo_validators (\<lambda>_ _ _. True) default_round_config)))"
  by (rule manager_invariant [OF r_into_rtranclp]) (rule manager_step.timeout)

end
