(* ===== verification/Endorsement.thy ===== *)
theory Endorsement
  imports Transactions
begin

text \<open>
  Endorsement policies, organizations, the stores that hold them and endorsement validation
  (\<open>src/src/endorsement/\<close>, \<open>src/src/identity/pqc_policy.rs\<close>, \<open>src/src/msp/\<close>).

  A trait object that a function only reads is the look-up function it offers.  The Ed25519
  primitives, the hex encoding and the environment variable that makes post-quantum signatures
  mandatory are the fields of \<open>crypto_ops\<close>.  Error messages built by \<open>format!\<close> are the values
  they mention.  The in-memory stores interpret the locale \<open>keyed_store\<close>.
\<close>

section \<open>Policies and organizations\<close>

datatype endorsement_policy =
    AnyOf "string list"
  | AllOf "string list"
  | NOutOf nat "string list"
  | AndPolicy endorsement_policy endorsement_policy
  | OrPolicy endorsement_policy endorsement_policy
  | OuBased "string list" nat

fun evaluate :: "endorsement_policy \<Rightarrow> string list \<Rightarrow> bool" where
  "evaluate (AnyOf orgs) signer_orgs = list_ex (\<lambda>o'. List.member signer_orgs o') orgs"
| "evaluate (AllOf orgs) signer_orgs = list_all (\<lambda>o'. List.member signer_orgs o') orgs"
| "evaluate (NOutOf n orgs) signer_orgs = (length (filter (List.member signer_orgs) orgs) \<ge> n)"
| "evaluate (AndPolicy a b) signer_orgs = (evaluate a signer_orgs \<and> evaluate b signer_orgs)"
| "evaluate (OrPolicy a b) signer_orgs = (evaluate a signer_orgs \<or> evaluate b signer_orgs)"
| "evaluate (OuBased ou_ids min_count) signer_orgs =
     (length (filter (List.member signer_orgs) ou_ids) \<ge> min_count)"

fun evaluate_with_ous ::
    "endorsement_policy \<Rightarrow> string list \<Rightarrow> (string, string) hash_map \<Rightarrow> bool" where
  "evaluate_with_ous (OuBased ou_ids min_count) signer_orgs signer_ous =
     (length (filter (\<lambda>org. case map_of signer_ous org of
                        Some ou \<Rightarrow> List.member ou_ids ou | None \<Rightarrow> False) signer_orgs) \<ge> min_count)"
| "evaluate_with_ous p signer_orgs signer_ous = evaluate p signer_orgs"

record organization =
  og_org_id :: string
  og_msp_id :: string
  og_admin_dids :: "string list"
  og_member_dids :: "string list"
  og_root_public_keys :: "hash32 list"

definition organization_new ::
    "string \<Rightarrow> string \<Rightarrow> string list \<Rightarrow> string list \<Rightarrow> hash32 list \<Rightarrow> organization option" where
  "organization_new org_id msp_id admin_dids member_dids root_public_keys =
     (if admin_dids = [] then None
      else Some \<lparr>og_org_id = org_id, og_msp_id = msp_id, og_admin_dids = admin_dids,
                 og_member_dids = member_dids, og_root_public_keys = root_public_keys\<rparr>)"

section \<open>Stores\<close>

type_synonym key_policy_store = "(string, endorsement_policy) hash_map"

definition set_key_policy ::
    "key_policy_store \<Rightarrow> string \<Rightarrow> endorsement_policy \<Rightarrow> key_policy_store \<times> (storage_error + unit)" where
  "set_key_policy s key policy = (hm_insert key policy s, Inr ())"

definition get_key_policy ::
    "key_policy_store \<Rightarrow> string \<Rightarrow> storage_error + endorsement_policy option" where
  "get_key_policy s key = Inr (map_of s key)"

definition delete_key_policy ::
    "key_policy_store \<Rightarrow> string \<Rightarrow> key_policy_store \<times> (storage_error + unit)" where
  "delete_key_policy s key = (hm_remove key s, Inr ())"

type_synonym policy_store = "(string, endorsement_policy) hash_map"

definition set_policy ::
    "policy_store \<Rightarrow> string \<Rightarrow> endorsement_policy \<Rightarrow> policy_store \<times> (storage_error + unit)" where
  "set_policy s resource_id policy = (hm_insert resource_id policy s, Inr ())"

definition get_policy :: "policy_store \<Rightarrow> string \<Rightarrow> storage_error + endorsement_policy" where
  "get_policy s resource_id =
     (case map_of s resource_id of Some p \<Rightarrow> Inr p | None \<Rightarrow> Inl (KeyNotFound resource_id))"

type_synonym org_registry = "(string, organization) hash_map"

definition register_org :: "org_registry \<Rightarrow> organization \<Rightarrow> org_registry \<times> (storage_error + unit)" where
  "register_org s org = (hm_insert (og_org_id org) org s, Inr ())"

definition get_org :: "org_registry \<Rightarrow> string \<Rightarrow> storage_error + organization" where
  "get_org s org_id =
     (case map_of s org_id of Some org \<Rightarrow> Inr org | None \<Rightarrow> Inl (KeyNotFound org_id))"

definition list_orgs :: "org_registry \<Rightarrow> storage_error + organization list" where
  "list_orgs s = Inr (map snd s)"

definition remove_org :: "org_registry \<Rightarrow> string \<Rightarrow> org_registry \<times> (storage_error + unit)" where
  "remove_org s org_id =
     (case map_of s org_id of
        None \<Rightarrow> (s, Inl (KeyNotFound org_id))
      | Some _ \<Rightarrow> (hm_remove org_id s, Inr ()))"

type_synonym crl_store = "(string, string list) hash_map"

definition write_crl :: "crl_store \<Rightarrow> string \<Rightarrow> string list \<Rightarrow> crl_store \<times> (storage_error + unit)" where
  "write_crl s msp_id serials = (hm_insert msp_id serials s, Inr ())"

definition read_crl :: "crl_store \<Rightarrow> string \<Rightarrow> storage_error + string list" where
  "read_crl s msp_id = Inr (case map_of s msp_id of Some l \<Rightarrow> l | None \<Rightarrow> [])"

section \<open>Membership service providers\<close>

datatype msp_error = UnknownKey | Revoked string

record msp =
  msp_id :: string
  msp_root_public_keys :: "hash32 list"
  msp_revoked_serials :: "string list"
  msp_org_id :: string

definition msp_new :: "string \<Rightarrow> string \<Rightarrow> msp" where
  "msp_new mid oid = \<lparr>msp_id = mid, msp_root_public_keys = [], msp_revoked_serials = [], msp_org_id = oid\<rparr>"

definition msp_revoke :: "msp \<Rightarrow> string \<Rightarrow> msp" where
  "msp_revoke m serial =
     (if \<not> list_ex (\<lambda>s. s = serial) (msp_revoked_serials m)
      then m\<lparr>msp_revoked_serials := msp_revoked_serials m @ [serial]\<rparr> else m)"

definition validate_identity :: "(hash32 \<Rightarrow> string) \<Rightarrow> msp \<Rightarrow> hash32 \<Rightarrow> msp_error + unit" where
  "validate_identity hex m public_key =
     (if \<not> List.member (msp_root_public_keys m) public_key then Inl UnknownKey
      else if List.member (msp_revoked_serials m) (hex public_key) then Inl (Revoked (hex public_key))
      else Inr ())"

record organizational_unit =
  ou_id :: string
  ou_org_id :: string
  ou_description :: string
  ou_parent :: "string option"

type_synonym ou_registry = "(string, organizational_unit) hash_map"

definition register_ou :: "ou_registry \<Rightarrow> organizational_unit \<Rightarrow> ou_registry \<times> (storage_error + unit)" where
  "register_ou s ou = (hm_insert (ou_id ou) ou s, Inr ())"

definition get_ou :: "ou_registry \<Rightarrow> string \<Rightarrow> storage_error + organizational_unit option" where
  "get_ou s i = Inr (map_of s i)"

definition list_ous :: "ou_registry \<Rightarrow> string \<Rightarrow> storage_error + organizational_unit list" where
  "list_ous s org_id = Inr (filter (\<lambda>ou. ou_org_id ou = org_id) (map snd s))"

fun walk_ous :: "ou_registry \<Rightarrow> nat \<Rightarrow> string \<Rightarrow> organizational_unit list" where
  "walk_ous s 0 current = []"
| "walk_ous s (Suc n) current =
     (case map_of s current of
        None \<Rightarrow> []
      | Some ou \<Rightarrow> ou # (case ou_parent ou of Some parent \<Rightarrow> walk_ous s n parent | None \<Rightarrow> []))"

definition get_hierarchy :: "ou_registry \<Rightarrow> string \<Rightarrow> storage_error + organizational_unit list" where
  "get_hierarchy s i = Inr (walk_ous s 100 i)"

section \<open>Signature policy and verification\<close>

record crypto_ops =
  ed_key_ok :: "hash32 \<Rightarrow> bool"
  ed_sig_ok :: "bytes \<Rightarrow> bool"
  ed_verify :: "hash32 \<Rightarrow> hash32 \<Rightarrow> bytes \<Rightarrow> bool"
  hex_encode :: "hash32 \<Rightarrow> string"
  pqc_required :: bool

datatype sig_reason =
    PqcViolation signing_algorithm
  | SignatureMismatch signing_algorithm nat nat
  | Unparsable

definition enforce_pqc :: "crypto_ops \<Rightarrow> signing_algorithm \<Rightarrow> sig_reason + unit" where
  "enforce_pqc env algorithm =
     (if pqc_required env \<and> \<not> is_post_quantum algorithm then Inl (PqcViolation algorithm) else Inr ())"

fun expected_len :: "signing_algorithm \<Rightarrow> nat" where
  "expected_len Ed25519 = 64"
| "expected_len MlDsa65 = 3309"

definition validate_signature_consistency :: "signing_algorithm \<Rightarrow> bytes \<Rightarrow> sig_reason + unit" where
  "validate_signature_consistency algorithm signature =
     (if length signature \<noteq> expected_len algorithm
      then Inl (SignatureMismatch algorithm (expected_len algorithm) (length signature))
      else Inr ())"

datatype endorsement_error =
    InvalidPublicKey
  | InvalidEndorsementSignature sig_reason
  | VerificationFailed
  | OrgNotFound string
  | SignerRevoked string string
  | PolicyNotSatisfied nat

definition verify_endorsement :: "crypto_ops \<Rightarrow> endorsement \<Rightarrow> hash32 \<Rightarrow> endorsement_error + unit" where
  "verify_endorsement env e public_key =
     (if \<not> ed_key_ok env public_key then Inl InvalidPublicKey
      else if \<not> ed_sig_ok env (en_signature e) then Inl (InvalidEndorsementSignature Unparsable)
      else if ed_verify env public_key (en_payload_hash e) (en_signature e) then Inr ()
      else Inl VerificationFailed)"

type_synonym org_lookup = "string \<Rightarrow> storage_error + organization"
type_synonym crl_lookup = "string \<Rightarrow> storage_error + string list"
type_synonym key_policy_lookup = "string \<Rightarrow> storage_error + endorsement_policy option"

text \<open>The part of the two validation loops from the registry look-up to \<open>valid_orgs.push\<close>.\<close>

definition endorse_one ::
    "crypto_ops \<Rightarrow> org_lookup \<Rightarrow> crl_lookup option \<Rightarrow> string list \<Rightarrow> endorsement
      \<Rightarrow> endorsement_error + string list" where
  "endorse_one env registry crl_store valid_orgs e =
     (case registry (en_org_id e) of
        Inl _ \<Rightarrow> Inl (OrgNotFound (en_org_id e))
      | Inr org \<Rightarrow>
          (case List.find (\<lambda>pk. verify_endorsement env e pk = Inr ()) (og_root_public_keys org) of
             None \<Rightarrow> Inr valid_orgs
           | Some pk \<Rightarrow>
               let serial = hex_encode env pk;
                   revoked = (case crl_store of
                                None \<Rightarrow> []
                              | Some store \<Rightarrow> (case store (og_msp_id org) of Inr l \<Rightarrow> l | Inl _ \<Rightarrow> []))
               in if List.member revoked serial then Inl (SignerRevoked serial (og_msp_id org))
                  else if List.member valid_orgs (en_org_id e) then Inr valid_orgs
                  else Inr (valid_orgs @ [en_org_id e])))"

fun collect_orgs ::
    "crypto_ops \<Rightarrow> org_lookup \<Rightarrow> crl_lookup option \<Rightarrow> endorsement list \<Rightarrow> string list
      \<Rightarrow> endorsement_error + string list" where
  "collect_orgs env registry crl_store [] valid_orgs = Inr valid_orgs"
| "collect_orgs env registry crl_store (e # es) valid_orgs =
     (case validate_signature_consistency (en_signature_algorithm e) (en_signature e) of
        Inl r \<Rightarrow> Inl (InvalidEndorsementSignature r)
      | Inr _ \<Rightarrow>
          (case enforce_pqc env (en_signature_algorithm e) of
             Inl r \<Rightarrow> Inl (InvalidEndorsementSignature r)
           | Inr _ \<Rightarrow>
               (case endorse_one env registry crl_store valid_orgs e of
                  Inl err \<Rightarrow> Inl err
                | Inr valid_orgs' \<Rightarrow> collect_orgs env registry crl_store es valid_orgs')))"

definition validate_endorsements ::
    "crypto_ops \<Rightarrow> endorsement list \<Rightarrow> endorsement_policy \<Rightarrow> org_lookup \<Rightarrow> crl_lookup option
      \<Rightarrow> endorsement_error + unit" where
  "validate_endorsements env endorsements policy registry crl_store =
     (case collect_orgs env registry crl_store endorsements [] of
        Inl err \<Rightarrow> Inl err
      | Inr valid_orgs \<Rightarrow>
          if evaluate policy valid_orgs then Inr () else Inl (PolicyNotSatisfied (length valid_orgs)))"

fun collect_orgs_for_writes ::
    "crypto_ops \<Rightarrow> org_lookup \<Rightarrow> crl_lookup option \<Rightarrow> endorsement list \<Rightarrow> string list
      \<Rightarrow> endorsement_error + string list" where
  "collect_orgs_for_writes env registry crl_store [] valid_orgs = Inr valid_orgs"
| "collect_orgs_for_writes env registry crl_store (e # es) valid_orgs =
     (case endorse_one env registry crl_store valid_orgs e of
        Inl err \<Rightarrow> Inl err
      | Inr valid_orgs' \<Rightarrow> collect_orgs_for_writes env registry crl_store es valid_orgs')"

definition effective_policy :: "key_policy_lookup option \<Rightarrow> string \<Rightarrow> endorsement_policy option" where
  "effective_policy key_policy_store key =
     (case key_policy_store of
        None \<Rightarrow> None
      | Some store \<Rightarrow> (case store key of Inr p \<Rightarrow> p | Inl _ \<Rightarrow> None))"

fun check_write_keys ::
    "endorsement_policy \<Rightarrow> key_policy_lookup option \<Rightarrow> string list \<Rightarrow> bool \<Rightarrow> string list
      \<Rightarrow> endorsement_error + unit" where
  "check_write_keys chaincode_policy store valid_orgs evaluated [] = Inr ()"
| "check_write_keys chaincode_policy store valid_orgs evaluated (key # keys) =
     (case effective_policy store key of
        Some kp \<Rightarrow>
          if \<not> evaluate kp valid_orgs then Inl (PolicyNotSatisfied (length valid_orgs))
          else check_write_keys chaincode_policy store valid_orgs evaluated keys
      | None \<Rightarrow>
          if \<not> evaluated \<and> \<not> evaluate chaincode_policy valid_orgs
          then Inl (PolicyNotSatisfied (length valid_orgs))
          else check_write_keys chaincode_policy store valid_orgs True keys)"

definition validate_endorsements_for_writes ::
    "crypto_ops \<Rightarrow> endorsement list \<Rightarrow> endorsement_policy \<Rightarrow> org_lookup \<Rightarrow> crl_lookup option \<Rightarrow> string list
      \<Rightarrow> key_policy_lookup option \<Rightarrow> endorsement_error + unit" where
  "validate_endorsements_for_writes env endorsements chaincode_policy registry crl_store write_keys
       key_policy_store =
     (case collect_orgs_for_writes env registry crl_store endorsements [] of
        Inl err \<Rightarrow> Inl err
      | Inr valid_orgs \<Rightarrow>
          (case check_write_keys chaincode_policy key_policy_store valid_orgs False write_keys of
             Inl err \<Rightarrow> Inl err
           | Inr _ \<Rightarrow>
               if write_keys = [] \<and> \<not> evaluate chaincode_policy valid_orgs
               then Inl (PolicyNotSatisfied (length valid_orgs))
               else Inr ()))"

section \<open>The contract of the stores\<close>

locale keyed_store =
  fixes look :: "'s \<Rightarrow> 'k \<Rightarrow> 'v option" and store :: "'s \<Rightarrow> 'k \<Rightarrow> 'v \<Rightarrow> 's" and drop_key :: "'s \<Rightarrow> 'k \<Rightarrow> 's"
  assumes look_store: "look (store s k v) k' = (if k' = k then Some v else look s k')"
    and look_drop: "look (drop_key s k) k' = (if k' = k then None else look s k')"
begin

lemma last_write_wins: "look (store (store s k v) k w) = look (store s k w)"
  by (auto simp: look_store)

lemma stores_commute: "k \<noteq> k' \<Longrightarrow> look (store (store s k v) k' w) = look (store (store s k' w) k v)"
  by (auto simp: look_store)

lemma drop_store: "look (drop_key (store s k v) k) = look (drop_key s k)"
  by (auto simp: look_store look_drop)

end

interpretation key_policies: keyed_store
  "\<lambda>s k. case get_key_policy s k of Inr r \<Rightarrow> r | Inl _ \<Rightarrow> None"
  "\<lambda>s k v. fst (set_key_policy s k v)" "\<lambda>s k. fst (delete_key_policy s k)"
  by unfold_locales (simp_all add: get_key_policy_def set_key_policy_def delete_key_policy_def)

interpretation policies: keyed_store
  "\<lambda>s k. case get_policy s k of Inr r \<Rightarrow> Some r | Inl _ \<Rightarrow> None"
  "\<lambda>s k v. fst (set_policy s k v)" "\<lambda>s k. hm_remove k s"
  by unfold_locales (auto simp: get_policy_def set_policy_def split: option.split)

lemma get_org_registered:
  "get_org (fst (register_org s org)) i = (if i = og_org_id org then Inr org else get_org s i)"
  by (simp add: get_org_def register_org_def)

lemma get_org_removed:
  "get_org (fst (remove_org s o')) i = (if i = o' then Inl (KeyNotFound i) else get_org s i)"
  by (auto simp: get_org_def remove_org_def split: option.split)

text \<open>The walk up the unit hierarchy follows parent links and is cut at 100 units.\<close>

lemma walk_ous_length: "length (walk_ous s n i) \<le> n"
  by (induction s n i rule: walk_ous.induct) (auto split: option.split)

section \<open>Policies as sets of organizations\<close>

fun policy_sat :: "endorsement_policy \<Rightarrow> string set \<Rightarrow> bool" where
  "policy_sat (AnyOf orgs) S = (set orgs \<inter> S \<noteq> {})"
| "policy_sat (AllOf orgs) S = (set orgs \<subseteq> S)"
| "policy_sat (NOutOf n orgs) S = (n \<le> length (filter (\<lambda>o'. o' \<in> S) orgs))"
| "policy_sat (AndPolicy a b) S = (policy_sat a S \<and> policy_sat b S)"
| "policy_sat (OrPolicy a b) S = (policy_sat a S \<or> policy_sat b S)"
| "policy_sat (OuBased ou_ids n) S = (n \<le> length (filter (\<lambda>o'. o' \<in> S) ou_ids))"

lemma evaluate_sat: "evaluate p xs = policy_sat p (set xs)"
proof -
  have "List.member xs = (\<lambda>x. x \<in> set xs)" by (simp add: fun_eq_iff)
  then show ?thesis by (induction p) (auto simp: list_ex_iff list_all_iff)
qed

lemma filter_length_mono: "(\<And>x. P x \<Longrightarrow> Q x) \<Longrightarrow> length (filter P xs) \<le> length (filter Q xs)"
  by (induction xs) auto

lemma policy_sat_mono: "S \<subseteq> T \<Longrightarrow> policy_sat p S \<Longrightarrow> policy_sat p T"
proof (induction p)
  case (NOutOf n orgs)
  then show ?case by (auto intro: order_trans [OF _ filter_length_mono])
next
  case (OuBased ou_ids n)
  then show ?case by (auto intro: order_trans [OF _ filter_length_mono])
qed auto

section \<open>What validation establishes\<close>

text \<open>A valid endorsement: its organization is registered, one of the organization's root keys
  verifies it, and the first such key is not on the revocation list.\<close>

definition revoked_in :: "crl_lookup option \<Rightarrow> string \<Rightarrow> string list" where
  "revoked_in crl_store mid =
     (case crl_store of None \<Rightarrow> [] | Some store \<Rightarrow> (case store mid of Inr l \<Rightarrow> l | Inl _ \<Rightarrow> []))"

definition endorsed ::
    "crypto_ops \<Rightarrow> org_lookup \<Rightarrow> crl_lookup option \<Rightarrow> endorsement \<Rightarrow> bool" where
  "endorsed env registry crl e \<longleftrightarrow> (\<exists>org pk. registry (en_org_id e) = Inr org \<and>
     pk \<in> set (og_root_public_keys org) \<and> verify_endorsement env e pk = Inr () \<and>
     hex_encode env pk \<notin> set (revoked_in crl (og_msp_id org)))"

lemma find_SomeD: "List.find P xs = Some x \<Longrightarrow> x \<in> set xs \<and> P x"
  by (auto simp: find_Some_iff)

lemma endorse_one_sound:
  assumes "endorse_one env registry crl valid e = Inr valid'"
  shows "set valid \<subseteq> set valid' \<and>
    (\<forall>x \<in> set valid'. x \<in> set valid \<or> x = en_org_id e \<and> endorsed env registry crl e)"
proof -
  obtain org where org: "registry (en_org_id e) = Inr org"
    using assms by (auto simp: endorse_one_def split: sum.splits)
  show ?thesis
  proof (cases "List.find (\<lambda>pk. verify_endorsement env e pk = Inr ()) (og_root_public_keys org)")
    case None
    then show ?thesis using assms org by (simp add: endorse_one_def)
  next
    case (Some pk)
    have "pk \<in> set (og_root_public_keys org)" "verify_endorsement env e pk = Inr ()"
      using find_SomeD [OF Some] by simp_all
    moreover have "hex_encode env pk \<notin> set (revoked_in crl (og_msp_id org))"
      using assms org Some by (auto simp: endorse_one_def revoked_in_def Let_def split: if_splits)
    ultimately have "endorsed env registry crl e" using org by (auto simp: endorsed_def)
    then show ?thesis
      using assms org Some by (auto simp: endorse_one_def Let_def split: if_splits)
  qed
qed

definition signature_ok :: "crypto_ops \<Rightarrow> endorsement \<Rightarrow> bool" where
  "signature_ok env e \<longleftrightarrow> length (en_signature e) = expected_len (en_signature_algorithm e) \<and>
     (pqc_required env \<longrightarrow> is_post_quantum (en_signature_algorithm e))"

lemma collect_orgs_sound:
  assumes "collect_orgs env registry crl es valid = Inr valid'"
  shows "(\<forall>e \<in> set es. signature_ok env e) \<and> (\<forall>x \<in> set valid'. x \<in> set valid \<or>
    (\<exists>e \<in> set es. x = en_org_id e \<and> endorsed env registry crl e))"
  using assms
proof (induction es arbitrary: valid)
  case (Cons e es)
  obtain v where v: "endorse_one env registry crl valid e = Inr v" "collect_orgs env registry crl es v = Inr valid'"
    and sig: "signature_ok env e"
    using Cons.prems
    by (auto simp: signature_ok_def validate_signature_consistency_def enforce_pqc_def
        split: sum.splits if_splits)
  then show ?case using Cons.IH [OF v(2)] endorse_one_sound [OF v(1)] by fastforce
qed simp

lemma collect_for_writes_sound:
  assumes "collect_orgs_for_writes env registry crl es valid = Inr valid'"
  shows "\<forall>x \<in> set valid'. x \<in> set valid \<or> (\<exists>e \<in> set es. x = en_org_id e \<and> endorsed env registry crl e)"
  using assms
proof (induction es arbitrary: valid)
  case (Cons e es)
  then obtain v where v: "endorse_one env registry crl valid e = Inr v"
      "collect_orgs_for_writes env registry crl es v = Inr valid'"
    by (auto split: sum.splits)
  then show ?case using Cons.IH [OF v(2)] endorse_one_sound [OF v(1)] by fastforce
qed simp

definition endorsing_orgs ::
    "crypto_ops \<Rightarrow> org_lookup \<Rightarrow> crl_lookup option \<Rightarrow> endorsement list \<Rightarrow> string set" where
  "endorsing_orgs env registry crl es = {en_org_id e |e. e \<in> set es \<and> endorsed env registry crl e}"

text \<open>
  C11: when validation accepts, the organizations that really endorsed - registered, with a root key
  that verifies the signature and is not revoked - satisfy the policy, and every endorsement has
  the signature length of its algorithm and meets the post-quantum policy.
\<close>

theorem validate_endorsements_sound:
  assumes "validate_endorsements env es policy registry crl = Inr ()"
  shows "policy_sat policy (endorsing_orgs env registry crl es) \<and> (\<forall>e \<in> set es. signature_ok env e)"
proof -
  obtain valid where c: "collect_orgs env registry crl es [] = Inr valid" and p: "policy_sat policy (set valid)"
    using assms by (auto simp: validate_endorsements_def evaluate_sat split: sum.splits if_splits)
  have "set valid \<subseteq> endorsing_orgs env registry crl es"
    using collect_orgs_sound [OF c] by (auto simp: endorsing_orgs_def)
  then show ?thesis using policy_sat_mono [OF _ p] collect_orgs_sound [OF c] by blast
qed

lemma check_write_keys_ok:
  "check_write_keys cp store orgs ev keys = Inr () \<longleftrightarrow>
     (\<forall>k \<in> set keys. case effective_policy store k of
        Some kp \<Rightarrow> evaluate kp orgs | None \<Rightarrow> ev \<or> evaluate cp orgs)"
proof (induction keys arbitrary: ev)
  case (Cons k keys)
  show ?case
    by (cases "effective_policy store k") (auto simp: Cons.IH split: option.splits)
qed simp

text \<open>
  When validation of a write set accepts, the endorsing organizations satisfy, for every written
  key, the key's own policy if it has one and the chaincode policy otherwise; with no written key
  they satisfy the chaincode policy.
\<close>

theorem validate_for_writes_sound:
  assumes "validate_endorsements_for_writes env es cp registry crl keys store = Inr ()"
  shows "(keys = [] \<longrightarrow> policy_sat cp (endorsing_orgs env registry crl es)) \<and>
    (\<forall>k \<in> set keys. policy_sat (case effective_policy store k of Some kp \<Rightarrow> kp | None \<Rightarrow> cp)
      (endorsing_orgs env registry crl es))"
proof -
  obtain valid where c: "collect_orgs_for_writes env registry crl es [] = Inr valid"
    and k: "check_write_keys cp store valid False keys = Inr ()"
    and e: "keys = [] \<Longrightarrow> evaluate cp valid"
    using assms by (auto simp: validate_endorsements_for_writes_def split: sum.splits if_splits)
  have sub: "set valid \<subseteq> endorsing_orgs env registry crl es"
    using collect_for_writes_sound [OF c] by (auto simp: endorsing_orgs_def)
  have "policy_sat (case effective_policy store x of Some kp \<Rightarrow> kp | None \<Rightarrow> cp) (set valid)"
    if "x \<in> set keys" for x
    using that k by (auto simp: check_write_keys_ok evaluate_sat split: option.splits)
  then show ?thesis using e policy_sat_mono [OF sub] by (auto simp: evaluate_sat)
qed

text \<open>
  With post-quantum signatures required, validation accepts no endorsement at all: the declared
  algorithm must then be ML-DSA-65 with its 3309 bytes, while verification parses 64-byte Ed25519
  signatures only.  A policy is then satisfied only if it needs no organization.
\<close>

theorem pqc_required_blocks_endorsement:
  assumes "pqc_required env" and "\<And>sig. ed_sig_ok env sig \<Longrightarrow> length sig = 64"
    and "validate_endorsements env es policy registry crl = Inr ()"
  shows "policy_sat policy {}"
proof -
  obtain valid where c: "collect_orgs env registry crl es [] = Inr valid" and p: "policy_sat policy (set valid)"
    using assms(3) by (auto simp: validate_endorsements_def evaluate_sat split: sum.splits if_splits)
  have "\<not> endorsed env registry crl e" if "e \<in> set es" for e
  proof -
    have "signature_ok env e" using collect_orgs_sound [OF c] that by blast
    then have "length (en_signature e) = 3309"
      using assms(1) by (cases "en_signature_algorithm e") (auto simp: signature_ok_def is_post_quantum_def)
    then have "\<not> ed_sig_ok env (en_signature e)" using assms(2) by fastforce
    then show ?thesis by (auto simp: endorsed_def verify_endorsement_def split: if_splits)
  qed
  then have "valid = []" using collect_orgs_sound [OF c] by (cases valid) auto
  then show ?thesis using p by simp
qed

definition demo_env :: crypto_ops where
  "demo_env = \<lparr>ed_key_ok = (\<lambda>_. True), ed_sig_ok = (\<lambda>s. length s = 64),
     ed_verify = (\<lambda>_ _ _. True), hex_encode = (\<lambda>_. ''k''), pqc_required = False\<rparr>"

definition demo_endorsement :: "string \<Rightarrow> endorsement" where
  "demo_endorsement org = \<lparr>en_signer_did = ''peer'', en_org_id = org, en_signature = replicate 64 1,
     en_signature_algorithm = Ed25519, en_payload_hash = 7, en_timestamp = 0\<rparr>"

definition demo_registry :: org_registry where
  "demo_registry = [(''o1'', \<lparr>og_org_id = ''o1'', og_msp_id = ''m1'', og_admin_dids = [''a''],
     og_member_dids = [], og_root_public_keys = [5]\<rparr>)]"

lemmas demo_endorse = demo_env_def demo_endorsement_def demo_registry_def get_org_def
  validate_signature_consistency_def enforce_pqc_def endorse_one_def verify_endorsement_def

theorem validate_endorsements_sound_witness:
  "validate_endorsements demo_env [demo_endorsement ''o1''] (AnyOf [''o1'', ''o2'']) (get_org demo_registry) None = Inr () \<and>
   policy_sat (AnyOf [''o1'', ''o2'']) (endorsing_orgs demo_env (get_org demo_registry) None [demo_endorsement ''o1''])"
proof -
  have "validate_endorsements demo_env [demo_endorsement ''o1''] (AnyOf [''o1'', ''o2'']) (get_org demo_registry) None = Inr ()"
    by (simp add: validate_endorsements_def demo_endorse)
  then show ?thesis using validate_endorsements_sound by blast
qed

theorem validate_for_writes_sound_witness:
  "validate_endorsements_for_writes demo_env [demo_endorsement ''o1''] (AllOf [''o2'']) (get_org demo_registry) None
     [''k''] (Some (get_key_policy [(''k'', AnyOf [''o1''])])) = Inr () \<and>
   policy_sat (AnyOf [''o1'']) (endorsing_orgs demo_env (get_org demo_registry) None [demo_endorsement ''o1''])"
proof -
  have v: "validate_endorsements_for_writes demo_env [demo_endorsement ''o1''] (AllOf [''o2'']) (get_org demo_registry) None
     [''k''] (Some (get_key_policy [(''k'', AnyOf [''o1''])])) = Inr ()"
    by (simp add: validate_endorsements_for_writes_def demo_endorse effective_policy_def get_key_policy_def)
  show ?thesis
    using validate_for_writes_sound [OF v] v by (simp add: effective_policy_def get_key_policy_def)
qed

theorem pqc_required_blocks_endorsement_witness:
  "validate_endorsements (demo_env\<lparr>pqc_required := True\<rparr>) [] (AllOf []) (get_org demo_registry) None = Inr () \<and>
   policy_sat (AllOf []) {}"
proof -
  let ?env = "demo_env\<lparr>pqc_required := True\<rparr>"
  have v: "validate_endorsements ?env [] (AllOf []) (get_org demo_registry) None = Inr ()"
    by (simp add: validate_endorsements_def)
  have "policy_sat (AllOf []) {}"
    by (rule pqc_required_blocks_endorsement [OF _ _ v]) (simp_all add: demo_env_def)
  then show ?thesis using v by simp
qed

end
