(* ===== verification/Acl.thy ===== *)
theory Acl
  imports Endorsement
begin

text \<open>
  Access control lists (\<open>src/src/acl/\<close>): entries that bind a resource to a named endorsement
  policy, the in-memory provider, and the access check, which denies by default.
\<close>

section \<open>Definitions\<close>

record acl_entry =
  ae_resource :: string
  ae_policy_ref :: string

datatype acl_resource =
    ChaincodeInvoke | ChaincodeQuery | BlockEvents | ChannelConfig | PeerDiscovery
  | PrivateDataRead | PrivateDataWrite | CustomResource string

fun resource_name :: "acl_resource \<Rightarrow> string" where
  "resource_name ChaincodeInvoke = ''peer/ChaincodeToChaincode''"
| "resource_name ChaincodeQuery = ''peer/ChaincodeQuery''"
| "resource_name BlockEvents = ''peer/BlockEvents''"
| "resource_name ChannelConfig = ''peer/ChannelConfig''"
| "resource_name PeerDiscovery = ''peer/Discovery''"
| "resource_name PrivateDataRead = ''peer/PrivateData.Read''"
| "resource_name PrivateDataWrite = ''peer/PrivateData.Write''"
| "resource_name (CustomResource name) = name"

type_synonym acl_provider = "(string, acl_entry) hash_map"

definition acl_entry_new :: "string \<Rightarrow> string \<Rightarrow> acl_entry" where
  "acl_entry_new resource policy_ref = \<lparr>ae_resource = resource, ae_policy_ref = policy_ref\<rparr>"

definition set_acl :: "acl_provider \<Rightarrow> string \<Rightarrow> string \<Rightarrow> acl_provider \<times> (storage_error + unit)" where
  "set_acl s resource policy_ref = (hm_insert resource (acl_entry_new resource policy_ref) s, Inr ())"

definition get_acl :: "acl_provider \<Rightarrow> string \<Rightarrow> storage_error + acl_entry option" where
  "get_acl s resource = Inr (map_of s resource)"

definition list_acls :: "acl_provider \<Rightarrow> storage_error + acl_entry list" where
  "list_acls s = Inr (map snd s)"

definition remove_acl :: "acl_provider \<Rightarrow> string \<Rightarrow> acl_provider \<times> (storage_error + unit)" where
  "remove_acl s resource = (hm_remove resource s, Inr ())"

datatype acl_error = NotDefined string | PolicyNotFound string | Denied string

definition check_access ::
    "(string \<Rightarrow> storage_error + acl_entry option) \<Rightarrow> (string \<Rightarrow> storage_error + endorsement_policy)
      \<Rightarrow> string \<Rightarrow> string list \<Rightarrow> acl_error + unit" where
  "check_access acl_provider policy_store resource caller_orgs =
     (case acl_provider resource of
        Inl _ \<Rightarrow> Inl (NotDefined resource)
      | Inr None \<Rightarrow> Inl (NotDefined resource)
      | Inr (Some entry) \<Rightarrow>
          (case policy_store (ae_policy_ref entry) of
             Inl _ \<Rightarrow> Inl (PolicyNotFound (ae_policy_ref entry))
           | Inr policy \<Rightarrow>
               if evaluate policy caller_orgs then Inr () else Inl (Denied (ae_policy_ref entry))))"

section \<open>Correctness\<close>

interpretation acls: keyed_store
  "\<lambda>s k. case get_acl s k of Inr r \<Rightarrow> map_option ae_policy_ref r | Inl _ \<Rightarrow> None"
  "\<lambda>s k v. fst (set_acl s k v)" "\<lambda>s k. fst (remove_acl s k)"
  by unfold_locales (simp_all add: get_acl_def set_acl_def remove_acl_def acl_entry_new_def)

text \<open>
  Access to a resource is granted exactly when an entry for it exists, the policy it names
  exists, and the caller's organizations satisfy that policy; a missing entry, a missing policy
  and an unsatisfied policy are reported as such.
\<close>

theorem check_access_correct:
  "check_access (get_acl acl) (get_policy ps) resource orgs =
     (case map_of acl resource of
        None \<Rightarrow> Inl (NotDefined resource)
      | Some entry \<Rightarrow>
          (case map_of ps (ae_policy_ref entry) of
             None \<Rightarrow> Inl (PolicyNotFound (ae_policy_ref entry))
           | Some policy \<Rightarrow>
               if policy_sat policy (set orgs) then Inr () else Inl (Denied (ae_policy_ref entry))))"
  by (simp add: check_access_def get_acl_def get_policy_def evaluate_sat split: option.split)

text \<open>Granting more organizations to a caller never takes access away.\<close>

lemma check_access_mono:
  "check_access a p resource orgs = Inr () \<Longrightarrow> set orgs \<subseteq> set orgs' \<Longrightarrow> check_access a p resource orgs' = Inr ()"
  by (auto simp: check_access_def evaluate_sat dest: policy_sat_mono split: sum.splits option.splits if_splits)

lemma fresh_acl_access:
  "policy_sat p (set orgs) \<Longrightarrow>
   check_access (get_acl (fst (set_acl acl r i))) (get_policy (fst (set_policy ps i p))) r orgs = Inr ()"
  by (simp add: check_access_def get_acl_def set_acl_def acl_entry_new_def get_policy_def set_policy_def
      evaluate_sat)

lemma removed_acl_denies:
  "check_access (get_acl (fst (remove_acl acl r))) ps r orgs = Inl (NotDefined r)"
  by (simp add: check_access_def get_acl_def remove_acl_def)

section \<open>Enforcement at the interface\<close>

text \<open>
  \<open>enforce_acl\<close> (\<open>src/api/errors.rs\<close>), which every protected handler calls first: the role of the caller, then the
  access check for its organization. The TLS identity comes from the middleware; the headers are what the client
  sends; parsing a role is JSON and a parameter; \<open>permissive\<close> is the environment variable \<open>ACL_MODE\<close>.
\<close>

datatype msp_role = MspAdmin | MspMember | MspClient | MspPeer | MspOrderer

record tls_identity =
  ti_org_id :: string
  ti_role :: "msp_role option"

record api_request =
  ar_tls_identity :: "tls_identity option"
  ar_msp_role_header :: "string option"
  ar_org_id_header :: "string option"

datatype forbidden =
    RoleInsufficient msp_role string msp_role
  | InvalidRoleHeader string
  | TlsIdentityRequired string
  | AclNotConfigured string
  | MissingCaller string
  | NoAclEntry string
  | AclPolicyMissing string string
  | AclDenied string string string

definition required_role_for_resource :: "string \<Rightarrow> msp_role option" where
  "required_role_for_resource resource =
     (if resource \<in> set [''peer/Admin'', ''peer/MSP.Admin'', ''peer/Discovery.Admin'', ''qscc/Snapshot.Admin'', ''peer/ChannelConfig'']
      then Some MspAdmin
      else if resource \<in> set [''peer/Propose'', ''peer/Identity'', ''peer/ChaincodeToChaincode'', ''peer/PrivateData.Write'']
      then Some MspClient
      else None)"

definition role_satisfies :: "msp_role \<Rightarrow> msp_role \<Rightarrow> bool" where
  "role_satisfies caller_role required =
     (case required of
        MspAdmin \<Rightarrow> caller_role = MspAdmin
      | MspClient \<Rightarrow> caller_role \<in> {MspAdmin, MspClient, MspPeer}
      | MspPeer \<Rightarrow> caller_role \<in> {MspAdmin, MspClient, MspPeer}
      | _ \<Rightarrow> True)"

definition check_role :: "(string \<Rightarrow> msp_role option) \<Rightarrow> bool \<Rightarrow> string \<Rightarrow> api_request \<Rightarrow> forbidden + unit" where
  "check_role parse_role permissive resource req =
     (case required_role_for_resource resource of
        None \<Rightarrow> Inr ()
      | Some required \<Rightarrow>
          (case Option.bind (ar_tls_identity req) ti_role of
             Some tls_r \<Rightarrow> require (role_satisfies tls_r required) (RoleInsufficient tls_r resource required)
           | None \<Rightarrow>
               if permissive then
                 (let s = (case ar_msp_role_header req of Some h \<Rightarrow> h | None \<Rightarrow> []) in
                  if s = [] then Inr ()
                  else (case parse_role s of
                          Some caller_role \<Rightarrow> require (role_satisfies caller_role required) (RoleInsufficient caller_role resource required)
                        | None \<Rightarrow> Inl (InvalidRoleHeader s)))
               else Inl (TlsIdentityRequired resource)))"

definition enforce_acl ::
    "(string \<Rightarrow> msp_role option) \<Rightarrow> bool \<Rightarrow> (string \<Rightarrow> storage_error + acl_entry option) option
      \<Rightarrow> (string \<Rightarrow> storage_error + endorsement_policy) option \<Rightarrow> string \<Rightarrow> api_request \<Rightarrow> forbidden + unit" where
  "enforce_acl parse_role permissive acl_provider policy_store resource req =
     (case check_role parse_role permissive resource req of
        Inl e \<Rightarrow> Inl e
      | Inr _ \<Rightarrow>
     (case (acl_provider, policy_store) of
        (Some acl, Some ps) \<Rightarrow>
          (case (case ar_tls_identity req of
                   Some i \<Rightarrow> Some (ti_org_id i)
                 | None \<Rightarrow> if permissive then Some (case ar_org_id_header req of Some h \<Rightarrow> h | None \<Rightarrow> []) else None) of
             None \<Rightarrow> Inl (TlsIdentityRequired resource)
           | Some caller_org \<Rightarrow>
               if caller_org = [] \<and> \<not> permissive then Inl (MissingCaller resource)
               else
                 (case check_access acl ps resource (if caller_org = [] then [] else [caller_org]) of
                    Inr _ \<Rightarrow> Inr ()
                  | Inl (NotDefined r) \<Rightarrow> if permissive then Inr () else Inl (NoAclEntry r)
                  | Inl (PolicyNotFound p) \<Rightarrow> if permissive then Inr () else Inl (AclPolicyMissing p resource)
                  | Inl (Denied policy) \<Rightarrow> Inl (AclDenied resource policy caller_org)))
      | _ \<Rightarrow> if permissive then Inr () else Inl (AclNotConfigured resource)))"

lemma enforce_acl_strict:
  "enforce_acl parse_role False acl ps resource req = Inr () \<longleftrightarrow>
     (\<exists>i a p. ar_tls_identity req = Some i \<and> acl = Some a \<and> ps = Some p \<and> ti_org_id i \<noteq> [] \<and>
        (\<forall>required. required_role_for_resource resource = Some required \<longrightarrow>
           (\<exists>role. ti_role i = Some role \<and> role_satisfies role required)) \<and>
        check_access a p resource [ti_org_id i] = Inr ())"
  by (auto simp: enforce_acl_def check_role_def split: option.splits sum.splits acl_error.splits)

text \<open>
  C39: in strict mode a request is let through exactly when the middleware attached a TLS identity with an organization,
  its role satisfies what the resource asks for, and an entry for the resource names a policy that this organization satisfies
  alone; the headers a client can set have no say.
\<close>

theorem strict_acl_authenticated:
  "enforce_acl parse_role False (Some (get_acl acl)) (Some (get_policy ps)) resource req = Inr () \<longleftrightarrow>
     (\<exists>i entry policy. ar_tls_identity req = Some i \<and> ti_org_id i \<noteq> [] \<and>
        map_of acl resource = Some entry \<and> map_of ps (ae_policy_ref entry) = Some policy \<and> policy_sat policy {ti_org_id i} \<and>
        (case required_role_for_resource resource of
           None \<Rightarrow> True
         | Some MspAdmin \<Rightarrow> ti_role i = Some MspAdmin
         | Some _ \<Rightarrow> ti_role i \<in> {Some MspAdmin, Some MspClient, Some MspPeer}))"
proof -
  have access: "check_access (get_acl acl) (get_policy ps) resource orgs = Inr () \<longleftrightarrow>
      (\<exists>entry policy. map_of acl resource = Some entry \<and> map_of ps (ae_policy_ref entry) = Some policy \<and> policy_sat policy (set orgs))" for orgs
    by (auto simp: check_access_def get_acl_def get_policy_def evaluate_sat split: option.split)
  have "required_role_for_resource resource \<in> {None, Some MspAdmin, Some MspClient}"
    by (simp add: required_role_for_resource_def)
  then consider "required_role_for_resource resource = None" | "required_role_for_resource resource = Some MspAdmin"
    | "required_role_for_resource resource = Some MspClient" by auto
  then show ?thesis
    by cases (auto simp: enforce_acl_strict access role_satisfies_def)
qed

text \<open>
  Permissive mode does not always grant access, as its documentation says: a request whose organization does not satisfy the
  policy of the resource is refused in both modes.
\<close>

theorem permissive_mode_still_denies:
  assumes "ar_tls_identity req = Some \<lparr>ti_org_id = org, ti_role = Some MspAdmin\<rparr>" and "org \<noteq> []"
    and "map_of acl resource = Some entry" and "map_of ps (ae_policy_ref entry) = Some policy" and "\<not> policy_sat policy {org}"
  shows "enforce_acl parse_role True (Some (get_acl acl)) (Some (get_policy ps)) resource req =
    Inl (AclDenied resource (ae_policy_ref entry) org)"
proof -
  have "check_role parse_role True resource req = Inr ()"
    using assms(1) by (auto simp: check_role_def role_satisfies_def split: option.split msp_role.split)
  then show ?thesis
    using assms by (simp add: enforce_acl_def check_access_def get_acl_def get_policy_def evaluate_sat)
qed

end
