(* ===== verification/Accountability.thy ===== *)
theory Accountability
  imports Transactions
begin

text \<open>
  Validator accountability: penalties with deterministic expiry
  (\<open>src/src/consensus/slashing.rs\<close>) and detection of equivocating proposers
  (\<open>src/src/consensus/equivocation.rs\<close>).

  A \<open>HashSet\<close> is the list of its elements; \<open>i64\<close> scores are 64-bit words that wrap; the JSON
  encoder and decoder used for persistence are parameters.
\<close>

section \<open>Penalties\<close>

datatype penalty_reason = Equivocation | InvalidPqcSignatureFlood | ProtocolViolation

datatype penalty_status = PenaltyActive | PenaltyExpired | PenaltyPermanent

record penalty_record =
  pr_validator_id :: string
  pr_reason :: penalty_reason
  pr_proof_hash :: "hash32 option"
  pr_start_height :: u64
  pr_until_height :: "u64 option"
  pr_reputation_delta :: "64 word"
  pr_status :: penalty_status

definition status_at :: "penalty_record \<Rightarrow> u64 \<Rightarrow> penalty_status" where
  "status_at r current_height =
     (case pr_until_height r of
        None \<Rightarrow> PenaltyPermanent
      | Some until \<Rightarrow> if current_height \<ge> until then PenaltyExpired else PenaltyActive)"

record penalty_policy =
  pp_duration_blocks :: u64
  pp_is_permanent :: bool
  pp_slash_percent_bps :: "16 word"
  pp_min_slash_amount :: "128 word"
  pp_reputation_penalty :: "64 word"
  pp_escalate_on_repeat :: bool

definition default_penalty_policy :: penalty_policy where
  "default_penalty_policy =
     \<lparr>pp_duration_blocks = 10000, pp_is_permanent = False, pp_slash_percent_bps = 500,
      pp_min_slash_amount = 1, pp_reputation_penalty = - 100, pp_escalate_on_repeat = True\<rparr>"

record penalty_manager =
  pm_records :: "(string, penalty_record list) hash_map"
  pm_reputation :: "(string, 64 word) hash_map"
  pm_processed_proofs :: "hash32 list"

definition penalty_manager_new :: penalty_manager where
  "penalty_manager_new = \<lparr>pm_records = [], pm_reputation = [], pm_processed_proofs = []\<rparr>"

definition get_records :: "penalty_manager \<Rightarrow> string \<Rightarrow> penalty_record list" where
  "get_records m v = (case map_of (pm_records m) v of Some rs \<Rightarrow> rs | None \<Rightarrow> [])"

definition reputation :: "penalty_manager \<Rightarrow> string \<Rightarrow> 64 word" where
  "reputation m v = (case map_of (pm_reputation m) v of Some r \<Rightarrow> r | None \<Rightarrow> 0)"

definition in_force :: "penalty_record \<Rightarrow> u64 \<Rightarrow> bool" where
  "in_force r h = (status_at r h = PenaltyActive \<or> status_at r h = PenaltyPermanent)"

definition penalize_equivocation ::
    "penalty_manager \<Rightarrow> string \<Rightarrow> hash32 \<Rightarrow> u64 \<Rightarrow> penalty_policy
      \<Rightarrow> penalty_manager \<times> penalty_record option" where
  "penalize_equivocation m validator_id proof_hash detection_height policy =
     (if List.member (pm_processed_proofs m) proof_hash then (m, None)
      else
        (let existing_records = get_records m validator_id;
             has_active = list_ex (\<lambda>r. in_force r detection_height) existing_records;
             (until_height, status) =
               (if pp_is_permanent policy \<or> (pp_escalate_on_repeat policy \<and> has_active)
                then (None, PenaltyPermanent)
                else (Some (detection_height + pp_duration_blocks policy), PenaltyActive));
             record_new =
               \<lparr>pr_validator_id = validator_id, pr_reason = Equivocation,
                pr_proof_hash = Some proof_hash, pr_start_height = detection_height,
                pr_until_height = until_height, pr_reputation_delta = pp_reputation_penalty policy,
                pr_status = status\<rparr>
         in (m\<lparr>pm_processed_proofs := pm_processed_proofs m @ [proof_hash],
               pm_records := hm_insert validator_id (existing_records @ [record_new]) (pm_records m),
               pm_reputation := hm_insert validator_id
                 (reputation m validator_id + pp_reputation_penalty policy) (pm_reputation m)\<rparr>,
             Some record_new)))"

definition is_active_penalty :: "penalty_manager \<Rightarrow> string \<Rightarrow> u64 \<Rightarrow> bool" where
  "is_active_penalty m validator_id current_height =
     (case map_of (pm_records m) validator_id of
        Some records \<Rightarrow> list_ex (\<lambda>r. in_force r current_height) records
      | None \<Rightarrow> False)"

definition is_proof_processed :: "penalty_manager \<Rightarrow> hash32 \<Rightarrow> bool" where
  "is_proof_processed m proof_hash = List.member (pm_processed_proofs m) proof_hash"

definition total_records :: "penalty_manager \<Rightarrow> nat" where
  "total_records m = hm_total length (pm_records m)"

section \<open>Equivocation\<close>

record consensus_position =
  cp_height :: u64
  cp_slot :: u64
  cp_proposer :: string

record equivocation_proof =
  ep_position :: consensus_position
  ep_block_hash_a :: hash32
  ep_block_hash_b :: hash32
  ep_signature_a :: bytes
  ep_signature_b :: bytes
  ep_algorithm :: signing_algorithm

definition proof_is_valid :: "equivocation_proof \<Rightarrow> bool" where
  "proof_is_valid p \<longleftrightarrow> ep_block_hash_a p \<noteq> ep_block_hash_b p \<and>
     ep_signature_a p \<noteq> [] \<and> ep_signature_b p \<noteq> []"

record equivocation_detector =
  ed_seen :: "(consensus_position, hash32 \<times> bytes) hash_map"
  ed_proofs :: "equivocation_proof list"
  ed_proof_hashes :: "(hash32 \<times> hash32) list"
  ed_penalized :: "string list"

definition equivocation_detector_new :: equivocation_detector where
  "equivocation_detector_new = \<lparr>ed_seen = [], ed_proofs = [], ed_proof_hashes = [], ed_penalized = []\<rparr>"

definition proof_key :: "equivocation_proof \<Rightarrow> hash32 \<times> hash32" where
  "proof_key p =
     (if ep_block_hash_a p < ep_block_hash_b p then (ep_block_hash_a p, ep_block_hash_b p)
      else (ep_block_hash_b p, ep_block_hash_a p))"

text \<open>The deduplicating insertion shared by \<open>check_proposal\<close> and \<open>receive_proof\<close>; the flag
  tells whether the proof was new.\<close>

definition record_proof ::
    "equivocation_detector \<Rightarrow> equivocation_proof \<Rightarrow> equivocation_detector \<times> bool" where
  "record_proof d proof =
     (if List.member (ed_proof_hashes d) (proof_key proof) then (d, False)
      else (d\<lparr>ed_proof_hashes := proof_key proof # ed_proof_hashes d,
              ed_proofs := ed_proofs d @ [proof],
              ed_penalized := List.insert (cp_proposer (ep_position proof)) (ed_penalized d)\<rparr>, True))"

definition check_proposal ::
    "equivocation_detector \<Rightarrow> u64 \<Rightarrow> u64 \<Rightarrow> string \<Rightarrow> hash32 \<Rightarrow> bytes \<Rightarrow> signing_algorithm
      \<Rightarrow> equivocation_detector \<times> equivocation_proof option" where
  "check_proposal d height slot proposer block_hash signature algorithm =
     (let position = \<lparr>cp_height = height, cp_slot = slot, cp_proposer = proposer\<rparr> in
      case map_of (ed_seen d) position of
        Some (existing_hash, existing_sig) \<Rightarrow>
          if existing_hash = block_hash then (d, None)
          else
            (let proof = \<lparr>ep_position = position, ep_block_hash_a = existing_hash,
                          ep_block_hash_b = block_hash, ep_signature_a = existing_sig,
                          ep_signature_b = signature, ep_algorithm = algorithm\<rparr>
             in (fst (record_proof d proof), Some proof))
      | None \<Rightarrow> (d\<lparr>ed_seen := hm_insert position (block_hash, signature) (ed_seen d)\<rparr>, None))"

definition is_penalized :: "equivocation_detector \<Rightarrow> string \<Rightarrow> bool" where
  "is_penalized d proposer = List.member (ed_penalized d) proposer"

definition proof_count_for :: "equivocation_detector \<Rightarrow> string \<Rightarrow> nat" where
  "proof_count_for d proposer =
     length (filter (\<lambda>p. cp_proposer (ep_position p) = proposer) (ed_proofs d))"

definition receive_proof ::
    "equivocation_detector \<Rightarrow> equivocation_proof \<Rightarrow> equivocation_detector \<times> bool" where
  "receive_proof d proof = (if \<not> proof_is_valid proof then (d, False) else record_proof d proof)"

definition penalized_count :: "equivocation_detector \<Rightarrow> nat" where
  "penalized_count d = length (ed_penalized d)"

record persist_state =
  ps_proofs :: "equivocation_proof list"
  ps_penalized :: "string list"

definition detector_to_bytes :: "(persist_state \<Rightarrow> bytes) \<Rightarrow> equivocation_detector \<Rightarrow> bytes" where
  "detector_to_bytes enc d = enc \<lparr>ps_proofs = ed_proofs d, ps_penalized = ed_penalized d\<rparr>"

definition detector_from_bytes ::
    "(bytes \<Rightarrow> persist_state option) \<Rightarrow> bytes \<Rightarrow> equivocation_detector option" where
  "detector_from_bytes dec data =
     (case dec data of
        None \<Rightarrow> None
      | Some state \<Rightarrow>
          let d = foldl (\<lambda>d p. fst (receive_proof d p)) equivocation_detector_new (ps_proofs state)
          in Some (d\<lparr>ed_penalized := foldl (\<lambda>xs p. List.insert p xs) (ed_penalized d) (ps_penalized state)\<rparr>))"

section \<open>Penalties: correctness\<close>

lemma penalize_processed:
  "is_proof_processed m h \<Longrightarrow> penalize_equivocation m v h d p = (m, None)"
  by (simp add: penalize_equivocation_def is_proof_processed_def)

lemma is_active_get_records: "is_active_penalty m v h \<longleftrightarrow> (\<exists>r \<in> set (get_records m v). in_force r h)"
  by (auto simp: is_active_penalty_def get_records_def list_ex_iff split: option.split)

lemma in_force_iff: "in_force r h \<longleftrightarrow> (case pr_until_height r of None \<Rightarrow> True | Some u \<Rightarrow> h < u)"
  by (auto simp: in_force_def status_at_def not_le split: option.split)

definition permanent_for :: "penalty_manager \<Rightarrow> string \<Rightarrow> u64 \<Rightarrow> penalty_policy \<Rightarrow> bool" where
  "permanent_for m v d p \<longleftrightarrow>
     pp_is_permanent p \<or> pp_escalate_on_repeat p \<and> is_active_penalty m v d"

lemma penalize_new:
  assumes "\<not> is_proof_processed m proof"
  obtains r where "penalize_equivocation m v proof d p =
      (m\<lparr>pm_processed_proofs := pm_processed_proofs m @ [proof],
         pm_records := hm_insert v (get_records m v @ [r]) (pm_records m),
         pm_reputation := hm_insert v (reputation m v + pp_reputation_penalty p) (pm_reputation m)\<rparr>, Some r)"
    and "pr_until_height r = (if permanent_for m v d p then None else Some (d + pp_duration_blocks p))"
    and "pr_reputation_delta r = pp_reputation_penalty p" and "pr_validator_id r = v"
    and "pr_proof_hash r = Some proof"
proof -
  have perm: "permanent_for m v d p = (pp_is_permanent p \<or>
      (pp_escalate_on_repeat p \<and> list_ex (\<lambda>r. in_force r d) (get_records m v)))"
    by (simp add: permanent_for_def is_active_get_records list_ex_iff)
  define r where "r = \<lparr>pr_validator_id = v, pr_reason = Equivocation, pr_proof_hash = Some proof,
    pr_start_height = d,
    pr_until_height = (if permanent_for m v d p then None else Some (d + pp_duration_blocks p)),
    pr_reputation_delta = pp_reputation_penalty p,
    pr_status = (if permanent_for m v d p then PenaltyPermanent else PenaltyActive)\<rparr>"
  have "penalize_equivocation m v proof d p =
      (m\<lparr>pm_processed_proofs := pm_processed_proofs m @ [proof],
         pm_records := hm_insert v (get_records m v @ [r]) (pm_records m),
         pm_reputation := hm_insert v (reputation m v + pp_reputation_penalty p) (pm_reputation m)\<rparr>, Some r)"
    using assms
    by (simp add: penalize_equivocation_def is_proof_processed_def r_def Let_def flip: perm)
  then show ?thesis by (rule that) (simp_all add: r_def)
qed

text \<open>
  Penalizing an unprocessed proof leaves every other validator as it was; the penalized one is
  barred at a height exactly if it was barred before, or the new penalty is permanent, or the
  height is below the detection height plus the policy's duration.  The penalty is permanent
  exactly when the policy says so or escalates a validator that is already barred.
\<close>

theorem penalize_effect:
  assumes "\<not> is_proof_processed m proof"
  shows "let m' = fst (penalize_equivocation m v proof d p)
    in is_proof_processed m' proof \<and>
       (\<forall>h. is_active_penalty m' v h \<longleftrightarrow>
          is_active_penalty m v h \<or> permanent_for m v d p \<or> h < d + pp_duration_blocks p) \<and>
       (\<forall>w h. w \<noteq> v \<longrightarrow> is_active_penalty m' w h = is_active_penalty m w h \<and>
          reputation m' w = reputation m w) \<and>
       reputation m' v = reputation m v + pp_reputation_penalty p"
proof -
  obtain r where e: "penalize_equivocation m v proof d p =
      (m\<lparr>pm_processed_proofs := pm_processed_proofs m @ [proof],
         pm_records := hm_insert v (get_records m v @ [r]) (pm_records m),
         pm_reputation := hm_insert v (reputation m v + pp_reputation_penalty p) (pm_reputation m)\<rparr>, Some r)"
    and u: "pr_until_height r = (if permanent_for m v d p then None else Some (d + pp_duration_blocks p))"
    using penalize_new [OF assms] .
  let ?m = "fst (penalize_equivocation m v proof d p)"
  have "get_records ?m w = (if w = v then get_records m v @ [r] else get_records m w)"
    "reputation ?m w = (if w = v then reputation m v + pp_reputation_penalty p else reputation m w)" for w
    by (simp_all add: e get_records_def reputation_def)
  moreover have "is_proof_processed ?m proof" by (simp add: e is_proof_processed_def)
  ultimately show ?thesis
    using u by (auto simp: is_active_get_records in_force_iff [of r] Let_def)
qed

theorem penalize_effect_witness:
  "is_active_penalty (fst (penalize_equivocation penalty_manager_new ''v'' 7 100 default_penalty_policy)) ''v'' 10099 \<and>
   \<not> is_active_penalty (fst (penalize_equivocation penalty_manager_new ''v'' 7 100 default_penalty_policy)) ''v'' 10100"
  using penalize_effect [of penalty_manager_new 7 "''v''" 100 default_penalty_policy]
  by (simp add: is_proof_processed_def penalty_manager_new_def is_active_penalty_def permanent_for_def
      default_penalty_policy_def Let_def)

text \<open>The accounting of the manager: one record per processed proof, and each score the sum of the
  deltas of the validator's records.\<close>

definition manager_sound :: "penalty_manager \<Rightarrow> bool" where
  "manager_sound m \<longleftrightarrow> hm_ok (pm_records m) \<and> distinct (pm_processed_proofs m) \<and>
     total_records m = length (pm_processed_proofs m) \<and>
     (\<forall>v. reputation m v = sum_list (map pr_reputation_delta (get_records m v))) \<and>
     (\<forall>v. \<forall>r \<in> set (get_records m v). pr_validator_id r = v)"

lemma manager_sound_penalize:
  assumes "manager_sound m"
  shows "manager_sound (fst (penalize_equivocation m v proof d p))"
proof (cases "is_proof_processed m proof")
  case False
  obtain r where e: "penalize_equivocation m v proof d p =
      (m\<lparr>pm_processed_proofs := pm_processed_proofs m @ [proof],
         pm_records := hm_insert v (get_records m v @ [r]) (pm_records m),
         pm_reputation := hm_insert v (reputation m v + pp_reputation_penalty p) (pm_reputation m)\<rparr>, Some r)"
    and r: "pr_reputation_delta r = pp_reputation_penalty p" "pr_validator_id r = v"
    using penalize_new [OF False] .
  let ?m = "fst (penalize_equivocation m v proof d p)"
  have g: "get_records ?m w = (if w = v then get_records m v @ [r] else get_records m w)"
    "reputation ?m w = (if w = v then reputation m v + pp_reputation_penalty p else reputation m w)" for w
    by (simp_all add: e get_records_def reputation_def)
  have "hm_old length (pm_records m) v = length (get_records m v)"
    by (simp add: hm_old_def get_records_def split: option.split)
  then have "total_records ?m = Suc (total_records m)"
    using assms hm_total_insert [of "pm_records m" length v "get_records m v @ [r]"]
    by (simp add: e total_records_def manager_sound_def)
  moreover have "pm_processed_proofs ?m = pm_processed_proofs m @ [proof]" "hm_ok (pm_records ?m)"
    using assms by (simp_all add: e manager_sound_def)
  ultimately show ?thesis
    using assms False r unfolding manager_sound_def g by (auto simp: is_proof_processed_def)
qed (use assms in \<open>simp add: penalize_processed\<close>)

text \<open>
  After any sequence of equivocation reports there is exactly one penalty record per distinct
  proof, and each validator's reputation is the sum of the deltas of its own records, so no proof
  is charged twice.
\<close>

theorem no_double_slashing:
  "let m = foldl (\<lambda>m (v, h, d, p). fst (penalize_equivocation m v h d p)) penalty_manager_new reports in
     total_records m = card ((\<lambda>(v, h, d, p). h) ` set reports) \<and>
     reputation m v = sum_list (map pr_reputation_delta (get_records m v))"
proof -
  let ?m = "\<lambda>rs. foldl (\<lambda>m (v, h, d, p). fst (penalize_equivocation m v h d p)) penalty_manager_new rs"
  have "manager_sound (?m rs) \<and> set (pm_processed_proofs (?m rs)) = (\<lambda>(v, h, d, p). h) ` set rs" for rs
  proof (induction rs rule: rev_induct)
    case Nil
    then show ?case
      by (simp add: manager_sound_def penalty_manager_new_def total_records_def reputation_def get_records_def)
  next
    case (snoc x rs)
    obtain v h d p where x: "x = (v, h, d, p)" by (cases x)
    have "set (pm_processed_proofs (fst (penalize_equivocation m v h d p))) = insert h (set (pm_processed_proofs m))" for m
      by (auto simp: penalize_equivocation_def Let_def split: prod.split)
    then show ?case using snoc manager_sound_penalize by (simp add: x)
  qed
  from this [of reports] show ?thesis
    by (auto simp: manager_sound_def Let_def simp flip: distinct_card)
qed

section \<open>Equivocation: correctness\<close>

record proposal_event =
  pv_position :: consensus_position
  pv_hash :: hash32
  pv_signature :: bytes
  pv_algorithm :: signing_algorithm

definition observe :: "equivocation_detector \<Rightarrow> proposal_event \<Rightarrow> equivocation_detector" where
  "observe d e = fst (check_proposal d (cp_height (pv_position e)) (cp_slot (pv_position e))
     (cp_proposer (pv_position e)) (pv_hash e) (pv_signature e) (pv_algorithm e))"

lemma position_collapse [simp]:
  "\<lparr>cp_height = cp_height p, cp_slot = cp_slot p, cp_proposer = cp_proposer p\<rparr> = p"
  by (cases p) simp

lemma observe_cases:
  obtains (same) sig where "map_of (ed_seen d) (pv_position e) = Some (pv_hash e, sig)" and "observe d e = d"
  | (conflict) h sig where "map_of (ed_seen d) (pv_position e) = Some (h, sig)" and "h \<noteq> pv_hash e"
      and "observe d e = fst (record_proof d \<lparr>ep_position = pv_position e, ep_block_hash_a = h,
        ep_block_hash_b = pv_hash e, ep_signature_a = sig, ep_signature_b = pv_signature e,
        ep_algorithm = pv_algorithm e\<rparr>)"
  | (first) "map_of (ed_seen d) (pv_position e) = None"
      and "observe d e = d\<lparr>ed_seen := hm_insert (pv_position e) (pv_hash e, pv_signature e) (ed_seen d)\<rparr>"
proof (cases "map_of (ed_seen d) (pv_position e)")
  case None
  then show ?thesis using first by (simp add: observe_def check_proposal_def Let_def)
next
  case (Some x)
  then show ?thesis
    using same conflict by (cases x) (auto simp: observe_def check_proposal_def Let_def)
qed





definition demo_proposal :: "string \<Rightarrow> hash32 \<Rightarrow> proposal_event" where
  "demo_proposal v h = \<lparr>pv_position = \<lparr>cp_height = 1, cp_slot = 2, cp_proposer = v\<rparr>, pv_hash = h,
     pv_signature = [1], pv_algorithm = Ed25519\<rparr>"


text \<open>
  Proofs are deduplicated by their pair of block hashes alone.  Once any proof with that pair is
  recorded, a different proposer that equivocates with the same two blocks is reported to the
  caller but neither recorded nor penalized.
\<close>

theorem equivocation_masked_by_hash_pair:
  "\<exists>d. is_penalized d ''a'' \<and> map_of (ed_seen d) \<lparr>cp_height = 1, cp_slot = 2, cp_proposer = ''b''\<rparr> = Some (7, [1]) \<and>
     snd (check_proposal d 1 2 ''b'' 8 [1] Ed25519) \<noteq> None \<and>
     \<not> is_penalized (fst (check_proposal d 1 2 ''b'' 8 [1] Ed25519)) ''b''"
  by (rule exI [of _ "foldl observe equivocation_detector_new
        [demo_proposal ''a'' 7, demo_proposal ''a'' 8, demo_proposal ''b'' 7]"])
    (simp add: demo_proposal_def observe_def check_proposal_def equivocation_detector_new_def
      record_proof_def is_penalized_def hm_insert_def proof_key_def Let_def)

section \<open>Persistence of the detector\<close>

definition detector_ok :: "equivocation_detector \<Rightarrow> bool" where
  "detector_ok d \<longleftrightarrow> set (ed_proof_hashes d) = proof_key ` set (ed_proofs d) \<and>
     distinct (map proof_key (ed_proofs d)) \<and> (\<forall>p \<in> set (ed_proofs d). proof_is_valid p) \<and>
     (\<forall>p \<in> set (ed_proofs d). cp_proposer (ep_position p) \<in> set (ed_penalized d)) \<and>
     (\<forall>pos h sig. map_of (ed_seen d) pos = Some (h, sig) \<longrightarrow> sig \<noteq> [])"

lemma detector_ok_record: "detector_ok d \<Longrightarrow> proof_is_valid p \<Longrightarrow> detector_ok (fst (record_proof d p))"
  by (auto simp: detector_ok_def record_proof_def)

lemma detector_ok_observe:
  assumes "detector_ok d" and "pv_signature e \<noteq> []"
  shows "detector_ok (observe d e)"
proof (rule observe_cases [of d e])
  fix h sig
  assume seen: "map_of (ed_seen d) (pv_position e) = Some (h, sig)" and ne: "h \<noteq> pv_hash e"
    and o: "observe d e = fst (record_proof d \<lparr>ep_position = pv_position e, ep_block_hash_a = h,
      ep_block_hash_b = pv_hash e, ep_signature_a = sig, ep_signature_b = pv_signature e,
      ep_algorithm = pv_algorithm e\<rparr>)"
  have "sig \<noteq> []" using assms(1) seen by (auto simp: detector_ok_def)
  then show ?thesis
    unfolding o using assms ne by (intro detector_ok_record) (auto simp: proof_is_valid_def)
qed (use assms in \<open>auto simp: detector_ok_def\<close>)

lemma receive_all:
  assumes "distinct (map proof_key ps)" and "\<forall>p \<in> set ps. proof_is_valid p"
  shows "let d = foldl (\<lambda>d p. fst (receive_proof d p)) equivocation_detector_new ps in
    ed_proofs d = ps \<and> set (ed_proof_hashes d) = proof_key ` set ps \<and>
    set (ed_penalized d) = (\<lambda>p. cp_proposer (ep_position p)) ` set ps"
  using assms
proof (induction ps rule: rev_induct)
  case Nil
  then show ?case by (simp add: equivocation_detector_new_def)
next
  case (snoc p ps)
  then show ?case by (auto simp: Let_def receive_proof_def record_proof_def)
qed

lemma set_fold_insert: "set (foldl (\<lambda>xs p. List.insert p xs) xs ys) = set xs \<union> set ys"
  by (induction ys arbitrary: xs) auto

text \<open>
  Saving a detector and loading it back restores the list of proofs and the set of penalized
  proposers, for every detector reached by proposals with non-empty signatures, when the JSON
  decoder reads back what the encoder wrote.
\<close>

theorem detector_persistence_roundtrip:
  assumes "\<And>s. dec (enc s) = Some s" and "\<forall>e \<in> set es. pv_signature e \<noteq> []"
  defines "d \<equiv> foldl observe equivocation_detector_new es"
  shows "\<exists>d'. detector_from_bytes dec (detector_to_bytes enc d) = Some d' \<and>
    ed_proofs d' = ed_proofs d \<and> (\<forall>v. is_penalized d' v = is_penalized d v)"
proof -
  have ok: "detector_ok d"
    unfolding d_def using assms(2)
  proof (induction es rule: rev_induct)
    case Nil
    then show ?case by (simp add: detector_ok_def equivocation_detector_new_def)
  next
    case (snoc e es)
    then show ?case using detector_ok_observe by simp
  qed
  then have "distinct (map proof_key (ed_proofs d))" "\<forall>p \<in> set (ed_proofs d). proof_is_valid p"
      "(\<lambda>p. cp_proposer (ep_position p)) ` set (ed_proofs d) \<subseteq> set (ed_penalized d)"
    by (auto simp: detector_ok_def)
  with receive_all [of "ed_proofs d"] show ?thesis
    by (auto simp: detector_from_bytes_def detector_to_bytes_def assms(1) Let_def is_penalized_def set_fold_insert)
qed

end
