(* ===== verification/Dag.thy ===== *)
theory Dag
  imports Transactions Bft_Quorum
begin

text \<open>
  The block DAG of \<open>src/consensus/dag.rs\<close> and the fork-choice rules of
  \<open>src/consensus/fork_choice.rs\<close>.  The recursions and loops over the DAG end because every
  block is inserted after its parent; as a value of type \<open>dag\<close> need not have been built that
  way, they carry a fuel of the number of vertices plus one and return \<open>None\<close> when it runs out.
  The invariant \<open>dag_ok\<close> holds of every DAG built by \<open>add_block\<close>, in whatever order the hash map
  keeps its entries, and on such DAGs the fuel always suffices.
\<close>

section \<open>Blocks and vertices\<close>

record dag_block =
  db_hash :: hash32
  db_parent_hash :: hash32
  db_height :: u64
  db_slot :: u64
  db_timestamp :: u64
  db_proposer :: string
  db_signature :: bytes
  db_signature_algorithm :: signing_algorithm
  db_secondary_signature :: "bytes option"
  db_secondary_signature_algorithm :: "signing_algorithm option"
  db_transactions :: "hash32 list"
  db_commit_qc :: "quorum_certificate option"

definition dag_block_new ::
    "hash32 \<Rightarrow> hash32 \<Rightarrow> u64 \<Rightarrow> u64 \<Rightarrow> u64 \<Rightarrow> string \<Rightarrow> bytes \<Rightarrow> dag_block" where
  "dag_block_new hash parent_hash height slot timestamp proposer signature =
     \<lparr>db_hash = hash, db_parent_hash = parent_hash, db_height = height, db_slot = slot,
      db_timestamp = timestamp, db_proposer = proposer, db_signature = signature,
      db_signature_algorithm = Ed25519, db_secondary_signature = None,
      db_secondary_signature_algorithm = None, db_transactions = [], db_commit_qc = None\<rparr>"

definition add_transaction :: "dag_block \<Rightarrow> hash32 \<Rightarrow> dag_block" where
  "add_transaction b tx_hash = b\<lparr>db_transactions := db_transactions b @ [tx_hash]\<rparr>"

definition is_genesis :: "dag_block \<Rightarrow> bool" where
  "is_genesis b \<longleftrightarrow> db_parent_hash b = 0"

record dag_vertex =
  dv_block :: dag_block
  dv_children :: "hash32 list"

definition dag_vertex_new :: "dag_block \<Rightarrow> dag_vertex" where
  "dag_vertex_new b = \<lparr>dv_block = b, dv_children = []\<rparr>"

definition add_child :: "dag_vertex \<Rightarrow> hash32 \<Rightarrow> dag_vertex" where
  "add_child v child_hash =
     (if List.member (dv_children v) child_hash then v
      else v\<lparr>dv_children := dv_children v @ [child_hash]\<rparr>)"

record dag =
  dag_vertices :: "(hash32, dag_vertex) hash_map"
  dag_head :: "hash32 option"
  dag_block_count :: u64

definition dag_new :: dag where
  "dag_new = \<lparr>dag_vertices = [], dag_head = None, dag_block_count = 0\<rparr>"

datatype dag_error = BlockExists | ParentNotFound

definition add_block :: "dag \<Rightarrow> dag_block \<Rightarrow> dag_error + dag" where
  "add_block d b =
     (if hm_contains (db_hash b) (dag_vertices d) then Inl BlockExists
      else if \<not> is_genesis b \<and> \<not> hm_contains (db_parent_hash b) (dag_vertices d) then Inl ParentNotFound
      else
        let vs = hm_insert (db_hash b) (dag_vertex_new b) (dag_vertices d);
            vs' = (if is_genesis b then vs
                   else case map_of vs (db_parent_hash b) of
                          Some pv \<Rightarrow> hm_insert (db_parent_hash b) (add_child pv (db_hash b)) vs
                        | None \<Rightarrow> vs) in
        Inr \<lparr>dag_vertices = vs', dag_head = Some (db_hash b), dag_block_count = dag_block_count d + 1\<rparr>)"

definition get_block :: "dag \<Rightarrow> hash32 \<Rightarrow> dag_block option" where
  "get_block d h = map_option dv_block (map_of (dag_vertices d) h)"

section \<open>Traversal and weights\<close>

definition dag_fuel :: "dag \<Rightarrow> nat" where
  "dag_fuel d = Suc (length (dag_vertices d))"

fun traverse_go :: "nat \<Rightarrow> dag \<Rightarrow> hash32 \<Rightarrow> dag_block list option" where
  "traverse_go 0 d current = None"
| "traverse_go (Suc n) d current =
     (case get_block d current of
        None \<Rightarrow> Some []
      | Some b \<Rightarrow> if is_genesis b then Some [b]
                 else map_option (Cons b) (traverse_go n d (db_parent_hash b)))"

definition traverse_parents :: "dag \<Rightarrow> hash32 \<Rightarrow> dag_block list option" where
  "traverse_parents d start = traverse_go (dag_fuel d) d start"

definition get_children :: "dag \<Rightarrow> hash32 \<Rightarrow> dag_block list" where
  "get_children d h =
     (case map_of (dag_vertices d) h of
        None \<Rightarrow> []
      | Some v \<Rightarrow> List.map_filter (get_block d) (dv_children v))"

definition is_linear :: "dag \<Rightarrow> bool" where
  "is_linear d \<longleftrightarrow> list_all (\<lambda>(_, v). \<not> length (dv_children v) > 1) (dag_vertices d)"

definition chain_height :: "dag \<Rightarrow> u64 option" where
  "chain_height d =
     (case dag_head d of
        Some h \<Rightarrow> map_option (\<lambda>path. of_nat (length path)) (traverse_parents d h)
      | None \<Rightarrow> Some 0)"

fun weight_go :: "nat \<Rightarrow> dag \<Rightarrow> hash32 \<Rightarrow> u64 option" where
  "weight_go 0 d h = None"
| "weight_go (Suc n) d h =
     (case map_of (dag_vertices d) h of
        None \<Rightarrow> Some 0
      | Some v \<Rightarrow>
          map_option (\<lambda>ws. foldl (+) (of_nat (length (dv_children v))) ws)
            (those (map (weight_go n d) (dv_children v))))"

definition subtree_weight :: "dag \<Rightarrow> hash32 \<Rightarrow> u64 option" where
  "subtree_weight d h = weight_go (dag_fuel d) d h"

text \<open>
  The key of \<open>max_by_key\<close> is the pair of a number and the reversed hash; \<open>max_by_key\<close> keeps the
  later of two equal elements.
\<close>

definition key_greater :: "u64 \<times> hash32 \<Rightarrow> u64 \<times> hash32 \<Rightarrow> bool" where
  "key_greater a b \<longleftrightarrow> fst a > fst b \<or> (fst a = fst b \<and> snd a < snd b)"

fun best_of :: "u64 \<times> hash32 \<Rightarrow> (u64 \<times> hash32) list \<Rightarrow> u64 \<times> hash32" where
  "best_of a [] = a"
| "best_of a (b # bs) = best_of (if key_greater a b then a else b) bs"

fun walk_go :: "nat \<Rightarrow> (hash32 \<Rightarrow> u64 option) \<Rightarrow> dag \<Rightarrow> hash32 \<Rightarrow> hash32 list option" where
  "walk_go 0 key d current = None"
| "walk_go (Suc n) key d current =
     (case map_of (dag_vertices d) current of
        None \<Rightarrow> Some []
      | Some v \<Rightarrow>
          (case dv_children v of
             [] \<Rightarrow> Some []
           | c # cs \<Rightarrow>
               (case those (map key (c # cs)) of
                  None \<Rightarrow> None
                | Some ks \<Rightarrow>
                    let best = snd (best_of (hd ks, c) (zip (tl ks) cs)) in
                    map_option (Cons best) (walk_go n key d best))))"

definition find_genesis :: "dag \<Rightarrow> hash32 option" where
  "find_genesis d =
     map_option (\<lambda>(_, v). db_hash (dv_block v)) (find (\<lambda>(_, v). is_genesis (dv_block v)) (dag_vertices d))"

definition canonical_chain :: "dag \<Rightarrow> hash32 list option" where
  "canonical_chain d =
     (case find_genesis d of
        None \<Rightarrow> Some []
      | Some g \<Rightarrow> map_option (Cons g) (walk_go (dag_fuel d) (subtree_weight d) d g))"

fun deepest :: "hash32 \<times> nat \<Rightarrow> (hash32 \<times> nat) list \<Rightarrow> hash32" where
  "deepest a [] = fst a"
| "deepest a (b # bs) = deepest (if snd a > snd b then a else b) bs"

definition positions :: "hash32 list \<Rightarrow> (hash32, nat) hash_map" where
  "positions chain = foldl (\<lambda>m (i, h). hm_insert h i m) [] (enumerate 0 chain)"

definition resolve_on :: "hash32 list \<Rightarrow> hash32 list \<Rightarrow> hash32 option" where
  "resolve_on chain candidates =
     (case List.map_filter (\<lambda>h. map_option (Pair h) (map_of (positions chain) h)) candidates of
        [] \<Rightarrow> None
      | a # as \<Rightarrow> Some (deepest a as))"

definition resolve_fork :: "dag \<Rightarrow> hash32 list \<Rightarrow> hash32 option option" where
  "resolve_fork d candidates =
     (if candidates = [] then Some None
      else map_option (\<lambda>chain. resolve_on chain candidates) (canonical_chain d))"

section \<open>Fork choice\<close>

datatype fork_choice_rule = HeaviestSubtree | LongestChain

record fork_choice =
  fc_rule :: fork_choice_rule

definition fork_choice_new :: "fork_choice_rule \<Rightarrow> fork_choice" where
  "fork_choice_new rule = \<lparr>fc_rule = rule\<rparr>"

fun max_list :: "u64 \<Rightarrow> u64 list \<Rightarrow> u64" where
  "max_list own [] = own"
| "max_list own (x # xs) = foldl (\<lambda>a b. if a > b then a else b) x xs"

fun height_go :: "nat \<Rightarrow> dag \<Rightarrow> hash32 \<Rightarrow> u64 option" where
  "height_go 0 d h = None"
| "height_go (Suc n) d h =
     (case map_of (dag_vertices d) h of
        None \<Rightarrow> Some 0
      | Some v \<Rightarrow>
          if dv_children v = [] then Some (db_height (dv_block v))
          else map_option (max_list (db_height (dv_block v))) (those (map (height_go n d) (dv_children v))))"

definition max_height_in_subtree :: "dag \<Rightarrow> hash32 \<Rightarrow> u64 option" where
  "max_height_in_subtree d h = height_go (dag_fuel d) d h"

definition longest_chain :: "dag \<Rightarrow> hash32 list option" where
  "longest_chain d =
     (case find_genesis d of
        None \<Rightarrow> Some []
      | Some g \<Rightarrow> map_option (Cons g) (walk_go (dag_fuel d) (max_height_in_subtree d) d g))"

definition fc_canonical_chain :: "fork_choice \<Rightarrow> dag \<Rightarrow> hash32 list option" where
  "fc_canonical_chain fc d =
     (case fc_rule fc of HeaviestSubtree \<Rightarrow> canonical_chain d | LongestChain \<Rightarrow> longest_chain d)"

definition fc_resolve :: "fork_choice \<Rightarrow> dag \<Rightarrow> hash32 list \<Rightarrow> hash32 option option" where
  "fc_resolve fc d candidates =
     (if candidates = [] then Some None
      else map_option (\<lambda>chain. resolve_on chain candidates) (fc_canonical_chain fc d))"

section \<open>The invariant of a DAG\<close>

definition dag_links :: "dag \<Rightarrow> bool" where
  "dag_links d \<longleftrightarrow>
     (\<forall>h v. map_of (dag_vertices d) h = Some v \<longrightarrow>
        db_hash (dv_block v) = h \<and> distinct (dv_children v) \<and>
        (\<forall>c. c \<in> set (dv_children v) \<longleftrightarrow>
           (\<exists>b. get_block d c = Some b \<and> \<not> is_genesis b \<and> db_parent_hash b = h)))"

definition dag_ranked :: "dag \<Rightarrow> (hash32 \<Rightarrow> nat) \<Rightarrow> bool" where
  "dag_ranked d r \<longleftrightarrow>
     (\<forall>h b. get_block d h = Some b \<longrightarrow> r h < length (dag_vertices d) \<and>
        (\<not> is_genesis b \<longrightarrow> get_block d (db_parent_hash b) \<noteq> None \<and> r (db_parent_hash b) < r h))"

definition dag_ok :: "dag \<Rightarrow> bool" where
  "dag_ok d \<longleftrightarrow> hm_ok (dag_vertices d) \<and> dag_links d \<and> (\<exists>r. dag_ranked d r) \<and>
     dag_block_count d = of_nat (length (dag_vertices d))"

lemma get_block_contains: "hm_contains h (dag_vertices d) \<longleftrightarrow> get_block d h \<noteq> None"
  by (simp add: hm_contains_def get_block_def)

lemma dag_ok_new: "dag_ok dag_new"
  by (simp add: dag_ok_def dag_new_def dag_links_def dag_ranked_def get_block_def)

lemma add_block_get:
  assumes "add_block d b = Inr d'"
  shows "get_block d' = (get_block d)(db_hash b \<mapsto> b)"
proof -
  have "get_block d' h = (if h = db_hash b then Some b else get_block d h)" for h
    using assms
    by (auto simp: add_block_def Let_def get_block_def dag_vertex_new_def add_child_def hm_contains_def
        split: if_splits option.splits)
  then show ?thesis by auto
qed

lemma add_block_cases:
  assumes "add_block d b = Inr d'"
  shows "get_block d (db_hash b) = None" and "\<not> is_genesis b \<Longrightarrow> get_block d (db_parent_hash b) \<noteq> None"
    and "length (dag_vertices d') = Suc (length (dag_vertices d))"
    and "dag_block_count d' = dag_block_count d + 1"
  using assms
  by (auto simp: add_block_def Let_def get_block_def hm_len_insert hm_contains_def
      split: if_splits option.splits)

lemma add_block_vertices:
  assumes "add_block d b = Inr d'" and "map_of (dag_vertices d') h = Some v"
  shows "(h = db_hash b \<and> v = dag_vertex_new b \<and> (\<not> is_genesis b \<longrightarrow> db_parent_hash b \<noteq> db_hash b)) \<or>
    (h \<noteq> db_hash b \<and> (\<exists>w. map_of (dag_vertices d) h = Some w \<and>
       v = (if \<not> is_genesis b \<and> h = db_parent_hash b then add_child w (db_hash b) else w)))"
  using assms
  by (auto simp: add_block_def Let_def hm_contains_def split: if_splits option.splits)

lemma dag_links_add:
  assumes ok: "dag_links d" and ranked: "dag_ranked d r" and add: "add_block d b = Inr d'"
  shows "dag_links d'"
  unfolding dag_links_def
proof (intro allI impI)
  fix h v
  assume v: "map_of (dag_vertices d') h = Some v"
  have orphan: "db_parent_hash c \<noteq> db_hash b" if "get_block d x = Some c" "\<not> is_genesis c" for x c
    using ranked that add_block_cases(1) [OF add] unfolding dag_ranked_def by force
  note get = add_block_get [OF add]
  from add_block_vertices [OF add v]
  show "db_hash (dv_block v) = h \<and> distinct (dv_children v) \<and>
    (\<forall>c. c \<in> set (dv_children v) \<longleftrightarrow> (\<exists>b. get_block d' c = Some b \<and> \<not> is_genesis b \<and> db_parent_hash b = h))"
  proof (elim disjE conjE exE)
    assume h: "h = db_hash b" "v = dag_vertex_new b" and self: "\<not> is_genesis b \<longrightarrow> db_parent_hash b \<noteq> db_hash b"
    then show ?thesis using orphan self by (auto simp: dag_vertex_new_def get split: if_splits)
  next
    fix w
    assume h: "h \<noteq> db_hash b" and w: "map_of (dag_vertices d) h = Some w"
      and vw: "v = (if \<not> is_genesis b \<and> h = db_parent_hash b then add_child w (db_hash b) else w)"
    have old: "db_hash (dv_block w) = h" "distinct (dv_children w)"
        "\<And>c. c \<in> set (dv_children w) \<longleftrightarrow> (\<exists>b. get_block d c = Some b \<and> \<not> is_genesis b \<and> db_parent_hash b = h)"
      using ok w by (auto simp: dag_links_def)
    have "db_hash b \<notin> set (dv_children w)" using old(3) add_block_cases(1) [OF add] by simp
    then show ?thesis
      using old add_block_cases(1) [OF add] by (auto simp: vw add_child_def get)
  qed
qed

lemma dag_ranked_add:
  assumes ranked: "dag_ranked d r" and add: "add_block d b = Inr d'"
  shows "dag_ranked d' (r(db_hash b := length (dag_vertices d)))"
  unfolding dag_ranked_def
proof (intro allI impI conjI)
  fix h c
  assume c: "get_block d' h = Some c"
  note get = add_block_get [OF add] and new = add_block_cases [OF add]
  have old: "r x < length (dag_vertices d)" if "get_block d x \<noteq> None" for x
    using ranked that by (auto simp: dag_ranked_def)
  show "(r(db_hash b := length (dag_vertices d))) h < length (dag_vertices d')"
    using c old [of h] new(3) by (auto simp: get split: if_splits)
  assume ng: "\<not> is_genesis c"
  have par: "get_block d (db_parent_hash c) \<noteq> None"
    using c ng ranked new(2) by (auto simp: get dag_ranked_def split: if_splits)
  then show "get_block d' (db_parent_hash c) \<noteq> None" by (simp add: get)
  show "(r(db_hash b := length (dag_vertices d))) (db_parent_hash c) < (r(db_hash b := length (dag_vertices d))) h"
    using c ng par ranked new(1) old by (auto simp: get dag_ranked_def split: if_splits)
qed

lemma dag_ok_add:
  assumes "dag_ok d" and add: "add_block d b = Inr d'"
  shows "dag_ok d'"
proof -
  obtain r where "dag_ranked d r" using assms(1) by (auto simp: dag_ok_def)
  then have "dag_links d'" "\<exists>r. dag_ranked d' r"
    using dag_links_add [OF _ _ add] dag_ranked_add [OF _ add] assms(1) by (auto simp: dag_ok_def)
  moreover have "hm_ok (dag_vertices d')"
    using add assms(1) by (auto simp: add_block_def Let_def dag_ok_def split: if_splits option.splits)
  ultimately show ?thesis
    using add_block_cases(3,4) [OF add] assms(1) by (simp add: dag_ok_def)
qed

section \<open>Descendants\<close>

type_synonym block_map = "hash32 \<Rightarrow> dag_block option"

definition kids :: "block_map \<Rightarrow> (hash32 \<times> hash32) set" where
  "kids B = {(p, c). \<exists>b. B c = Some b \<and> \<not> is_genesis b \<and> db_parent_hash b = p}"

definition descendants :: "block_map \<Rightarrow> hash32 \<Rightarrow> hash32 set" where
  "descendants B h = {c. (h, c) \<in> (kids B)\<^sup>+}"

lemma kids_parent_unique: "(p, c) \<in> kids B \<Longrightarrow> (q, c) \<in> kids B \<Longrightarrow> p = q"
  by (auto simp: kids_def)

lemma kids_children:
  assumes "dag_ok d" and "map_of (dag_vertices d) h = Some v"
  shows "set (dv_children v) = {c. (h, c) \<in> kids (get_block d)}" and "distinct (dv_children v)"
  using assms by (auto simp: dag_ok_def dag_links_def kids_def)

lemma kids_rank:
  assumes "dag_ranked d r" and "(p, c) \<in> kids (get_block d)"
  shows "r p < r c" and "r c < length (dag_vertices d)" and "get_block d p \<noteq> None" and "get_block d c \<noteq> None"
  using assms unfolding dag_ranked_def kids_def by auto

lemma kids_trancl_rank:
  "dag_ranked d r \<Longrightarrow> (p, c) \<in> (kids (get_block d))\<^sup>+ \<Longrightarrow> r p < r c"
  by (erule trancl_induct) (auto dest: kids_rank(1))

lemma ancestors_comparable:
  assumes "(c, x) \<in> (kids B)\<^sup>*" and "(c', x) \<in> (kids B)\<^sup>*"
  shows "(c, c') \<in> (kids B)\<^sup>* \<or> (c', c) \<in> (kids B)\<^sup>*"
  using assms
proof (induction rule: rtrancl_induct)
  case (step y z)
  from step.prems show ?case
  proof (cases rule: rtranclE)
    case base
    then show ?thesis using step.hyps by auto
  next
    case (step w)
    then have "w = y" using \<open>(y, z) \<in> kids B\<close> kids_parent_unique by blast
    then show ?thesis using step.IH \<open>(c', w) \<in> (kids B)\<^sup>*\<close> by simp
  qed
qed auto

lemma descendants_unfold:
  "descendants B h = (\<Union>c \<in> {c. (h, c) \<in> kids B}. insert c (descendants B c))"
  by (auto simp: descendants_def intro: trancl_into_trancl2 dest: tranclD elim: converse_tranclE)

lemma descendants_disjoint:
  assumes r: "dag_ranked d r" and c: "(h, c) \<in> kids (get_block d)" and c': "(h, c') \<in> kids (get_block d)"
    and ne: "c \<noteq> c'"
  shows "insert c (descendants (get_block d) c) \<inter> insert c' (descendants (get_block d) c') = {}"
proof -
  have one: False if k: "(h, a) \<in> kids (get_block d)" "(h, b) \<in> kids (get_block d)" "a \<noteq> b"
      and path: "(a, b) \<in> (kids (get_block d))\<^sup>*" for a b
  proof -
    obtain z where "(a, z) \<in> (kids (get_block d))\<^sup>*" "(z, b) \<in> kids (get_block d)"
      using path k(3) by (auto elim: rtranclE)
    then have "(a, h) \<in> (kids (get_block d))\<^sup>*" using k(2) kids_parent_unique by blast
    then have "r a \<le> r h" using kids_trancl_rank [OF r] by (auto simp: rtrancl_eq_or_trancl less_imp_le)
    then show False using kids_rank(1) [OF r k(1)] by simp
  qed
  have "False" if "x \<in> insert c (descendants (get_block d) c)" "x \<in> insert c' (descendants (get_block d) c')" for x
  proof -
    have "(c, x) \<in> (kids (get_block d))\<^sup>*" "(c', x) \<in> (kids (get_block d))\<^sup>*"
      using that by (auto simp: descendants_def)
    from ancestors_comparable [OF this] show False
      using one [OF c c' ne] one [OF c' c ne [symmetric]] by blast
  qed
  then show ?thesis by blast
qed

lemma descendants_known:
  assumes "dag_ranked d r"
  shows "descendants (get_block d) h \<subseteq> fst ` set (dag_vertices d)" and "finite (descendants (get_block d) h)"
proof -
  show "descendants (get_block d) h \<subseteq> fst ` set (dag_vertices d)"
  proof
    fix c assume "c \<in> descendants (get_block d) h"
    then obtain p where "(p, c) \<in> kids (get_block d)" by (auto simp: descendants_def elim: tranclE)
    then show "c \<in> fst ` set (dag_vertices d)"
      using kids_rank(4) [OF assms] get_block_contains [of c d] by (simp add: hm_contains_iff)
  qed
  then show "finite (descendants (get_block d) h)" by (rule finite_subset) simp
qed

lemma card_descendants:
  assumes r: "dag_ranked d r" and cs: "set cs = {c. (h, c) \<in> kids (get_block d)}" "distinct cs"
  shows "card (descendants (get_block d) h) = length cs + (\<Sum>c \<leftarrow> cs. card (descendants (get_block d) c))"
proof -
  let ?B = "get_block d"
  have self: "c \<notin> descendants ?B c" for c
    using kids_trancl_rank [OF r, of c c] by (auto simp: descendants_def)
  have "card (descendants ?B h) = card (\<Union>c \<in> set cs. insert c (descendants ?B c))"
    using descendants_unfold [of ?B h] cs(1) by simp
  also have "\<dots> = (\<Sum>c \<in> set cs. card (insert c (descendants ?B c)))"
    using descendants_disjoint [OF r] descendants_known(2) [OF r] cs(1)
    by (intro card_UN_disjoint) auto
  also have "\<dots> = (\<Sum>c \<in> set cs. Suc (card (descendants ?B c)))"
    using self descendants_known(2) [OF r] by simp
  also have "\<dots> = (\<Sum>c \<leftarrow> cs. Suc (card (descendants ?B c)))"
    by (rule sum_list_distinct_conv_sum_set [OF cs(2), symmetric])
  finally show ?thesis by (simp add: sum_list_Suc)
qed

lemma get_block_vertex: "get_block d h \<noteq> None \<Longrightarrow> \<exists>v. map_of (dag_vertices d) h = Some v"
  by (auto simp: get_block_def)

text \<open>
  The measure that the recursions decrease: every child has a larger rank than its parent.
\<close>

lemma child_fuel:
  assumes "dag_ranked d r" and "(h, c) \<in> kids (get_block d)" and "length (dag_vertices d) - r h \<le> Suc n"
  shows "length (dag_vertices d) - r c \<le> n"
  using kids_rank [OF assms(1,2)] assms(3) by linarith

lemma weight_go_counts:
  assumes "dag_ok d" and r: "dag_ranked d r" and "get_block d h \<noteq> None"
    and "length (dag_vertices d) - r h \<le> n" and "r h < length (dag_vertices d)"
  shows "weight_go n d h = Some (of_nat (card (descendants (get_block d) h)))"
  using assms(3-)
proof (induction n arbitrary: h)
  case (Suc n)
  obtain v where v: "map_of (dag_vertices d) h = Some v" using get_block_vertex Suc.prems(1) by blast
  note cs = kids_children [OF assms(1) v]
  have "weight_go n d c = Some (of_nat (card (descendants (get_block d) c)))" if "c \<in> set (dv_children v)" for c
    using that cs(1) kids_rank [OF r] child_fuel [OF r _ Suc.prems(2)] by (intro Suc.IH) auto
  then show ?case
    using v by (simp add: those_map foldl_add sum_list_of_nat card_descendants [OF r cs])
qed simp

lemma subtree_weight_card:
  assumes "dag_ok d" and "get_block d h \<noteq> None"
  shows "subtree_weight d h = Some (of_nat (card (descendants (get_block d) h)))"
proof -
  obtain r where r: "dag_ranked d r" using assms(1) by (auto simp: dag_ok_def)
  then have "r h < length (dag_vertices d)" using assms(2) by (auto simp: dag_ranked_def)
  then show ?thesis
    unfolding subtree_weight_def dag_fuel_def by (intro weight_go_counts [OF assms(1) r assms(2)]) auto
qed

text \<open>The heights at the tips below a block.\<close>

definition tip_heights :: "block_map \<Rightarrow> hash32 \<Rightarrow> u64 set" where
  "tip_heights B h = {db_height b | x b. x \<in> insert h (descendants B h) \<and> B x = Some b \<and> (\<forall>c. (x, c) \<notin> kids B)}"

lemma tip_heights_tip: "(\<forall>c. (h, c) \<notin> kids B) \<Longrightarrow> B h = Some b \<Longrightarrow> tip_heights B h = {db_height b}"
  using descendants_unfold [of B h] by (auto simp: tip_heights_def)

lemma tip_heights_inner: "(h, c) \<in> kids B \<Longrightarrow> tip_heights B h = (\<Union>c \<in> {c. (h, c) \<in> kids B}. tip_heights B c)"
  unfolding tip_heights_def by (subst descendants_unfold) blast

lemma max_list_Max: "xs \<noteq> [] \<Longrightarrow> max_list own xs = Max (set xs)"
  by (cases xs) (simp_all add: foldl_max del: List.set_simps)

lemma tip_heights_finite: "dag_ranked d r \<Longrightarrow> finite (tip_heights (get_block d) h)"
proof -
  assume r: "dag_ranked d r"
  have "tip_heights (get_block d) h \<subseteq>
      (\<lambda>x. db_height (the (get_block d x))) ` insert h (descendants (get_block d) h)"
    by (force simp: tip_heights_def)
  then show ?thesis using descendants_known(2) [OF r, of h] finite_subset by blast
qed

lemma height_go_max:
  assumes "dag_ok d" and r: "dag_ranked d r" and "get_block d h \<noteq> None"
    and "length (dag_vertices d) - r h \<le> n" and "r h < length (dag_vertices d)"
  shows "height_go n d h = Some (Max (tip_heights (get_block d) h)) \<and> tip_heights (get_block d) h \<noteq> {}"
  using assms(3-)
proof (induction n arbitrary: h)
  case (Suc n)
  let ?T = "tip_heights (get_block d)"
  obtain v where v: "map_of (dag_vertices d) h = Some v" using get_block_vertex Suc.prems(1) by blast
  note cs = kids_children [OF assms(1) v]
  have ih: "height_go n d c = Some (Max (?T c)) \<and> ?T c \<noteq> {}" if "c \<in> set (dv_children v)" for c
    using that cs(1) kids_rank [OF r] child_fuel [OF r _ Suc.prems(2)] by (intro Suc.IH) auto
  show ?case
  proof (cases "dv_children v")
    case Nil
    have "get_block d h = Some (dv_block v)" using v by (simp add: get_block_def)
    then show ?thesis
      using v cs Nil tip_heights_tip [of h "get_block d" "dv_block v"] by simp
  next
    case (Cons c0 cs0)
    then have T: "?T h = \<Union> (?T ` set (dv_children v))"
      using cs tip_heights_inner [of h c0 "get_block d"] by auto
    have "max_list own (map (\<lambda>c. Max (?T c)) (dv_children v)) = Max (?T h)" for own
    proof (subst max_list_Max)
      show "Max (set (map (\<lambda>c. Max (?T c)) (dv_children v))) = Max (?T h)"
        unfolding T set_map using ih tip_heights_finite [OF r] Cons
        by (intro Max_of_Max [symmetric]) auto
    qed (simp add: Cons)
    moreover have "those (map (height_go n d) (dv_children v)) = Some (map (\<lambda>c. Max (?T c)) (dv_children v))"
      using ih by (intro those_map) simp
    moreover have "?T h \<noteq> {}" unfolding T using ih [of c0] Cons by auto
    ultimately show ?thesis using v Cons by simp
  qed
qed simp

lemma max_height_tips:
  assumes "dag_ok d" and "get_block d h \<noteq> None"
  shows "max_height_in_subtree d h = Some (Max (tip_heights (get_block d) h))"
proof -
  obtain r where r: "dag_ranked d r" using assms(1) by (auto simp: dag_ok_def)
  then have "r h < length (dag_vertices d)" using assms(2) by (auto simp: dag_ranked_def)
  then have "height_go (dag_fuel d) d h = Some (Max (tip_heights (get_block d) h))"
    unfolding dag_fuel_def by (intro height_go_max [OF assms(1) r assms(2), THEN conjunct1]) auto
  then show ?thesis by (simp add: max_height_in_subtree_def)
qed

section \<open>The canonical chain\<close>

inductive best_path :: "block_map \<Rightarrow> (hash32 \<Rightarrow> u64) \<Rightarrow> hash32 \<Rightarrow> hash32 list \<Rightarrow> bool" for B key where
  tip: "(\<forall>c. (h, c) \<notin> kids B) \<Longrightarrow> best_path B key h []"
| step: "(h, c) \<in> kids B \<Longrightarrow>
    (\<forall>c'. (h, c') \<in> kids B \<and> c' \<noteq> c \<longrightarrow> key_greater (key c, c) (key c', c')) \<Longrightarrow>
    best_path B key c p \<Longrightarrow> best_path B key h (c # p)"

inductive_cases best_path_NilE: "best_path B key h []"
inductive_cases best_path_ConsE: "best_path B key h (c # p)"

lemma key_greater_asym: "key_greater a b \<Longrightarrow> \<not> key_greater b a"
  by (auto simp: key_greater_def)

lemma key_greater_trans: "key_greater a b \<Longrightarrow> key_greater b c \<Longrightarrow> key_greater a c"
  by (auto simp: key_greater_def)

lemma key_greater_total: "snd a \<noteq> snd b \<Longrightarrow> \<not> key_greater a b \<Longrightarrow> key_greater b a"
  by (auto simp: key_greater_def)

lemma best_path_unique: "best_path B key h p \<Longrightarrow> best_path B key h q \<Longrightarrow> p = q"
proof (induction arbitrary: q rule: best_path.induct)
  case (tip h)
  then show ?case by (cases q) (auto elim: best_path_ConsE)
next
  case (step h c p)
  from step.prems show ?case
  proof cases
    case tip
    then show ?thesis using step.hyps(1) by simp
  next
    case (step c' p')
    then have "c' = c" using step.hyps key_greater_asym by blast
    then show ?thesis using step step.IH by simp
  qed
qed

lemma best_of_greatest:
  assumes "distinct (map snd (a # bs))"
  shows "best_of a bs \<in> set (a # bs) \<and>
    (\<forall>b \<in> set (a # bs). b \<noteq> best_of a bs \<longrightarrow> key_greater (best_of a bs) b)"
  using assms
proof (induction bs arbitrary: a)
  case (Cons b bs)
  have step: "best_of m bs \<in> set (m # bs) \<and>
      (\<forall>x \<in> set (m # bs) \<union> {l}. x \<noteq> best_of m bs \<longrightarrow> key_greater (best_of m bs) x)"
    if "distinct (map snd (m # bs))" and ml: "key_greater m l" for m l
  proof -
    have ih: "best_of m bs \<in> set (m # bs)"
        "\<forall>x \<in> set (m # bs). x \<noteq> best_of m bs \<longrightarrow> key_greater (best_of m bs) x"
      using Cons.IH [OF that(1)] by blast+
    have "key_greater (best_of m bs) l"
    proof (cases "m = best_of m bs")
      case True
      then show ?thesis using ml by simp
    next
      case False
      then have "key_greater (best_of m bs) m" using ih(2) by simp
      then show ?thesis using ml by (rule key_greater_trans)
    qed
    then show ?thesis using ih by blast
  qed
  show ?case
  proof (cases "key_greater a b")
    case True
    then show ?thesis using step [of a b] Cons.prems by (simp, blast)
  next
    case False
    then have "key_greater b a" using key_greater_total [of a b] Cons.prems by simp
    then show ?thesis using step [of b a] Cons.prems False by simp
  qed
qed simp

lemma walk_go_path:
  assumes ok: "dag_ok d" and r: "dag_ranked d r" and key: "\<And>c. get_block d c \<noteq> None \<Longrightarrow> key c = Some (k c)"
    and "get_block d h \<noteq> None" and "length (dag_vertices d) - r h \<le> n" and "r h < length (dag_vertices d)"
  shows "\<exists>p. walk_go n key d h = Some p \<and> best_path (get_block d) k h p"
  using assms(4-)
proof (induction n arbitrary: h)
  case (Suc n)
  obtain v where v: "map_of (dag_vertices d) h = Some v" using get_block_vertex Suc.prems(1) by blast
  note kids = kids_children [OF ok v]
  show ?case
  proof (cases "dv_children v")
    case Nil
    then show ?thesis using v kids(1) by (auto intro: best_path.tip)
  next
    case (Cons c cs)
    let ?ks = "zip (map k cs) cs" and ?b = "snd (best_of (k c, c) (zip (map k cs) cs))"
    have keys: "those (map key (c # cs)) = Some (map k (c # cs))"
      using kids(1) kids_rank(4) [OF r] Cons by (intro those_map key) auto
    have "set ((k c, c) # ?ks) = (\<lambda>x. (k x, x)) ` set (c # cs)"
      by (auto simp: zip_map1 zip_same_conv_map)
    moreover have "distinct (map snd ((k c, c) # ?ks))" using kids(2) Cons by simp
    ultimately have best: "?b \<in> set (c # cs)" "best_of (k c, c) ?ks = (k ?b, ?b)"
        "\<forall>x \<in> set (c # cs). x \<noteq> ?b \<longrightarrow> key_greater (k ?b, ?b) (k x, x)"
      using best_of_greatest [of "(k c, c)" ?ks] by (force simp del: List.set_simps)+
    have hb: "(h, ?b) \<in> kids (get_block d)" using best(1) kids(1) Cons by auto
    obtain p where p: "walk_go n key d ?b = Some p" "best_path (get_block d) k ?b p"
      using Suc.IH [of ?b] kids_rank [OF r hb] child_fuel [OF r hb Suc.prems(2)] by blast
    have "best_path (get_block d) k h (?b # p)"
      using hb best(3) p(2) kids(1) Cons by (intro best_path.step) auto
    then show ?thesis using v Cons keys p(1) by simp
  qed
qed simp

lemma walk_total:
  assumes "dag_ok d" and "\<And>c. get_block d c \<noteq> None \<Longrightarrow> key c = Some (k c)" and "get_block d h \<noteq> None"
  shows "\<exists>p. walk_go (dag_fuel d) key d h = Some p \<and> best_path (get_block d) k h p"
proof -
  obtain r where r: "dag_ranked d r" using assms(1) by (auto simp: dag_ok_def)
  then have "r h < length (dag_vertices d)" using assms(3) by (auto simp: dag_ranked_def)
  then show ?thesis
    unfolding dag_fuel_def by (intro walk_go_path [OF assms(1) r assms(2,3)]) auto
qed

definition genesis_blocks :: "block_map \<Rightarrow> hash32 set" where
  "genesis_blocks B = {h. \<exists>b. B h = Some b \<and> is_genesis b}"

lemma find_genesis_cases:
  assumes "dag_ok d"
  shows "case find_genesis d of None \<Rightarrow> genesis_blocks (get_block d) = {}
    | Some g \<Rightarrow> g \<in> genesis_blocks (get_block d)"
proof (cases "find (\<lambda>(_, v). is_genesis (dv_block v)) (dag_vertices d)")
  case None
  then have "\<not> is_genesis (dv_block v)" if "(h, v) \<in> set (dag_vertices d)" for h v
    using that by (auto simp: find_None_iff)
  then show ?thesis
    using None by (auto simp: find_genesis_def genesis_blocks_def get_block_def dest: map_of_SomeD)
next
  case (Some e)
  obtain h v where e: "e = (h, v)" by fastforce
  with Some have "(h, v) \<in> set (dag_vertices d)" "is_genesis (dv_block v)"
    by (auto simp: find_Some_iff in_set_conv_nth)
  moreover from this have "map_of (dag_vertices d) h = Some v"
    using assms hm_entry_iff [of "dag_vertices d" h v] by (auto simp: dag_ok_def)
  moreover from this have "db_hash (dv_block v) = h" using assms by (auto simp: dag_ok_def dag_links_def)
  ultimately show ?thesis
    using Some e by (simp add: find_genesis_def genesis_blocks_def get_block_def)
qed

definition rule_key :: "fork_choice_rule \<Rightarrow> block_map \<Rightarrow> hash32 \<Rightarrow> u64" where
  "rule_key rule B h =
     (case rule of HeaviestSubtree \<Rightarrow> of_nat (card (descendants B h)) | LongestChain \<Rightarrow> Max (tip_heights B h))"

lemma fc_chain_path:
  assumes "dag_ok d"
  shows "case find_genesis d of None \<Rightarrow> fc_canonical_chain fc d = Some []
    | Some g \<Rightarrow> \<exists>p. fc_canonical_chain fc d = Some (g # p) \<and>
        best_path (get_block d) (rule_key (fc_rule fc) (get_block d)) g p"
proof (cases "find_genesis d")
  case None
  then show ?thesis
    by (simp add: fc_canonical_chain_def canonical_chain_def longest_chain_def split: fork_choice_rule.split)
next
  case (Some g)
  then have g: "get_block d g \<noteq> None"
    using find_genesis_cases [OF assms] by (auto simp: genesis_blocks_def)
  have heavy: "\<exists>p. walk_go (dag_fuel d) (subtree_weight d) d g = Some p \<and>
      best_path (get_block d) (rule_key HeaviestSubtree (get_block d)) g p"
    by (rule walk_total [OF assms _ g]) (simp add: rule_key_def subtree_weight_card [OF assms])
  have long: "\<exists>p. walk_go (dag_fuel d) (max_height_in_subtree d) d g = Some p \<and>
      best_path (get_block d) (rule_key LongestChain (get_block d)) g p"
    by (rule walk_total [OF assms _ g]) (simp add: rule_key_def max_height_tips [OF assms])
  show ?thesis
  proof (cases "fc_rule fc")
    case HeaviestSubtree
    then show ?thesis
      using Some heavy by (auto simp: fc_canonical_chain_def canonical_chain_def)
  next
    case LongestChain
    then show ?thesis
      using Some long by (auto simp: fc_canonical_chain_def longest_chain_def)
  qed
qed

section \<open>Correctness of the DAG and of fork choice\<close>

fun add_blocks :: "dag \<Rightarrow> dag_block list \<Rightarrow> dag_error + dag" where
  "add_blocks d [] = Inr d"
| "add_blocks d (b # bs) = (case add_block d b of Inl e \<Rightarrow> Inl e | Inr d' \<Rightarrow> add_blocks d' bs)"

lemma add_blocks_ok: "dag_ok d \<Longrightarrow> add_blocks d bs = Inr d' \<Longrightarrow> dag_ok d'"
  by (induction bs arbitrary: d) (auto split: sum.splits dest: dag_ok_add)

lemma add_blocks_get:
  "add_blocks d bs = Inr d' \<Longrightarrow>
     get_block d' h = Some b \<longleftrightarrow> get_block d h = Some b \<or> (b \<in> set bs \<and> db_hash b = h)"
proof (induction bs arbitrary: d)
  case (Cons x bs)
  then obtain e where e: "add_block d x = Inr e" "add_blocks e bs = Inr d'" by (auto split: sum.splits)
  from Cons.IH [OF e(2)] show ?case
    using add_block_get [OF e(1)] add_block_cases(1) [OF e(1)] by (auto split: if_splits)
qed simp

lemma add_blocks_maps:
  assumes "add_blocks dag_new bs = Inr d" and "add_blocks dag_new bs' = Inr d'" and "set bs = set bs'"
  shows "get_block d = get_block d'"
proof
  fix h
  have "get_block d h = Some b \<longleftrightarrow> get_block d' h = Some b" for b
    using add_blocks_get [OF assms(1), of h b] add_blocks_get [OF assms(2), of h b] assms(3)
    by (simp add: dag_new_def get_block_def)
  then show "get_block d h = get_block d' h"
    by (metis not_Some_eq)
qed

text \<open>
  C8: nodes that have received the same blocks agree on the canonical chain, in whatever order the
  blocks arrived, under either fork-choice rule; the selection always ends.  The blocks must contain
  at most one genesis block.
\<close>

theorem canonical_chain_order_independent:
  assumes "add_blocks dag_new bs = Inr d" and "add_blocks dag_new bs' = Inr d'" and "set bs = set bs'"
    and "\<And>a b. a \<in> set bs \<Longrightarrow> b \<in> set bs \<Longrightarrow> is_genesis a \<Longrightarrow> is_genesis b \<Longrightarrow> a = b"
  shows "fc_canonical_chain fc d = fc_canonical_chain fc d' \<and> fc_canonical_chain fc d \<noteq> None"
proof -
  note ok = add_blocks_ok [OF dag_ok_new assms(1)] add_blocks_ok [OF dag_ok_new assms(2)]
  note same = add_blocks_maps [OF assms(1-3)]
  have unique: "g = g'" if "g \<in> genesis_blocks (get_block d)" "g' \<in> genesis_blocks (get_block d)" for g g'
    using that assms(4) add_blocks_get [OF assms(1)] by (auto simp: genesis_blocks_def dag_new_def get_block_def)
  have gen: "find_genesis d = find_genesis d'"
    using find_genesis_cases [OF ok(1)] find_genesis_cases [OF ok(2)] unique
    by (auto simp: same split: option.splits)
  show ?thesis
  proof (cases "find_genesis d")
    case None
    then show ?thesis using fc_chain_path [OF ok(1), of fc] fc_chain_path [OF ok(2), of fc] gen by simp
  next
    case (Some g)
    then show ?thesis
      using fc_chain_path [OF ok(1), of fc] fc_chain_path [OF ok(2), of fc] gen best_path_unique
      by (fastforce simp: same)
  qed
qed

definition demo_block :: "hash32 \<Rightarrow> hash32 \<Rightarrow> dag_block" where
  "demo_block h p = dag_block_new h p 0 0 0 ''p'' []"

definition demo_dag :: dag where
  "demo_dag = projr (add_blocks dag_new [demo_block 1 0, demo_block 2 1, demo_block 3 1, demo_block 4 3])"

definition demo_dag' :: dag where
  "demo_dag' = projr (add_blocks dag_new [demo_block 1 0, demo_block 3 1, demo_block 4 3, demo_block 2 1])"

lemmas demo_dag_simps = demo_dag_def demo_dag'_def demo_block_def dag_block_new_def dag_new_def add_block_def
  hm_contains_def hm_insert_def is_genesis_def dag_vertex_new_def add_child_def Let_def

lemma demo_dag_built:
  "add_blocks dag_new [demo_block 1 0, demo_block 2 1, demo_block 3 1, demo_block 4 3] = Inr demo_dag"
  "add_blocks dag_new [demo_block 1 0, demo_block 3 1, demo_block 4 3, demo_block 2 1] = Inr demo_dag'"
  by (simp_all add: demo_dag_simps)

theorem canonical_chain_order_independent_witness:
  "canonical_chain demo_dag = Some [1, 3, 4] \<and> canonical_chain demo_dag' = Some [1, 3, 4]"
proof -
  have "fc_canonical_chain (fork_choice_new HeaviestSubtree) demo_dag =
      fc_canonical_chain (fork_choice_new HeaviestSubtree) demo_dag' \<and>
      fc_canonical_chain (fork_choice_new HeaviestSubtree) demo_dag \<noteq> None"
    by (rule canonical_chain_order_independent [OF demo_dag_built])
      (auto simp: demo_block_def dag_block_new_def is_genesis_def)
  moreover have "canonical_chain demo_dag = Some [1, 3, 4]" by code_simp
  ultimately show ?thesis by (simp add: fc_canonical_chain_def fork_choice_new_def)
qed

text \<open>
  The recursive weight of a block in a DAG built by \<open>add_block\<close> is computed with the given fuel
  and is the number of its strict descendants.
\<close>

theorem subtree_weight_counts_descendants:
  assumes "add_blocks dag_new bs = Inr d" and "get_block d h \<noteq> None"
  shows "subtree_weight d h = Some (of_nat (card (descendants (get_block d) h)))"
  using subtree_weight_card [OF add_blocks_ok [OF dag_ok_new assms(1)] assms(2)] .

theorem subtree_weight_counts_descendants_witness:
  "subtree_weight demo_dag 1 = Some 3 \<and> of_nat (card (descendants (get_block demo_dag) 1)) = (3 :: u64)"
proof -
  have "get_block demo_dag 1 \<noteq> None" by (simp add: demo_dag_simps get_block_def)
  from subtree_weight_counts_descendants [OF demo_dag_built(1) this]
  have "subtree_weight demo_dag 1 = Some (of_nat (card (descendants (get_block demo_dag) 1)))" .
  moreover have "subtree_weight demo_dag 1 = Some 3" by code_simp
  ultimately show ?thesis by simp
qed

lemma positions_snoc: "positions (xs @ [x]) = hm_insert x (length xs) (positions xs)"
  by (simp add: positions_def enumerate_append_eq)

lemma positions_get:
  "distinct chain \<Longrightarrow> map_of (positions chain) h = Some i \<longleftrightarrow> i < length chain \<and> chain ! i = h"
proof (induction chain arbitrary: i rule: rev_induct)
  case (snoc x xs)
  then have ih: "map_of (positions xs) h = Some i \<longleftrightarrow> i < length xs \<and> xs ! i = h" by simp
  show ?case
  proof (cases "h = x")
    case True
    then have "xs ! i \<noteq> h" if "i < length xs" using snoc.prems that nth_mem by fastforce
    then show ?thesis using True by (auto simp: positions_snoc nth_append less_Suc_eq)
  next
    case False
    then show ?thesis using ih by (auto simp: positions_snoc nth_append less_Suc_eq)
  qed
qed (simp add: positions_def)

lemma deepest_greatest:
  "\<exists>n. (deepest a as, n) \<in> set (a # as) \<and> (\<forall>b \<in> set (a # as). snd b \<le> n)"
proof (induction as arbitrary: a)
  case (Cons b as)
  obtain n where n: "(deepest (if snd a > snd b then a else b) as, n) \<in> set ((if snd a > snd b then a else b) # as)"
      "\<forall>x \<in> set ((if snd a > snd b then a else b) # as). snd x \<le> n"
    using Cons.IH by blast
  then show ?case by (intro exI [of _ n]) (auto split: if_splits)
qed auto

lemma resolve_on_spec:
  assumes "distinct chain"
  shows "case resolve_on chain cs of
      None \<Rightarrow> set cs \<inter> set chain = {}
    | Some h \<Rightarrow> h \<in> set cs \<and> (\<exists>i < length chain. chain ! i = h \<and>
        (\<forall>j < length chain. chain ! j \<in> set cs \<longrightarrow> j \<le> i))"
proof -
  let ?xs = "List.map_filter (\<lambda>h. map_option (Pair h) (map_of (positions chain) h)) cs"
  have mem: "(h, i) \<in> set ?xs \<longleftrightarrow> h \<in> set cs \<and> i < length chain \<and> chain ! i = h" for h i
    using positions_get [OF assms, of h i] by (auto simp: in_map_filter)
  show ?thesis
  proof (cases ?xs)
    case Nil
    have "x \<notin> set chain" if "x \<in> set cs" for x
    proof
      assume "x \<in> set chain"
      then obtain i where "i < length chain" "chain ! i = x" by (auto simp: in_set_conv_nth)
      then show False using mem [of x i] that Nil by simp
    qed
    then have "set cs \<inter> set chain = {}" by blast
    then show ?thesis using Nil by (simp add: resolve_on_def)
  next
    case (Cons a as)
    obtain n where n: "(deepest a as, n) \<in> set ?xs" "\<forall>b \<in> set ?xs. snd b \<le> n"
      using deepest_greatest [of a as] Cons by auto
    have "j \<le> n" if "j < length chain" "chain ! j \<in> set cs" for j
      using n(2) mem [of "chain ! j" j] that by force
    then have "deepest a as \<in> set cs \<and> (\<exists>i < length chain. chain ! i = deepest a as \<and>
        (\<forall>j < length chain. chain ! j \<in> set cs \<longrightarrow> j \<le> i))"
      using n(1) mem by blast
    then show ?thesis using Cons by (simp add: resolve_on_def)
  qed
qed

lemma best_path_distinct:
  assumes r: "dag_ranked d r"
  shows "best_path (get_block d) k h p \<Longrightarrow> sorted_wrt (\<lambda>a b. r a < r b) (h # p)"
proof (induction rule: best_path.induct)
  case (step h c p)
  then show ?case using kids_rank(1) [OF r step.hyps(1)] by auto
qed simp

lemma fc_chain_distinct:
  assumes "dag_ok d" and "fc_canonical_chain fc d = Some chain"
  shows "distinct chain"
proof -
  obtain r where r: "dag_ranked d r" using assms(1) by (auto simp: dag_ok_def)
  have distinct: "distinct xs" if "sorted_wrt (\<lambda>a b. r a < r b) xs" for xs
    using that by (induction xs) auto
  have "distinct (h # p)" if "best_path (get_block d) k h p" for k h p
    by (rule distinct [OF best_path_distinct [OF r that]])
  then show ?thesis
    using fc_chain_path [OF assms(1), of fc] assms(2)
    by (cases "find_genesis d") (auto simp del: distinct.simps(2))
qed

text \<open>
  Resolving competing tips returns a candidate on the canonical chain that no other candidate on
  the chain follows, and returns nothing exactly when no candidate is on the chain.
\<close>

theorem resolve_picks_deepest:
  assumes "add_blocks dag_new bs = Inr d" and "fc_canonical_chain fc d = Some chain"
  shows "\<exists>res. fc_resolve fc d cs = Some res \<and>
    (case res of
       None \<Rightarrow> set cs \<inter> set chain = {}
     | Some h \<Rightarrow> h \<in> set cs \<and> (\<exists>i < length chain. chain ! i = h \<and>
         (\<forall>j < length chain. chain ! j \<in> set cs \<longrightarrow> j \<le> i)))"
  using resolve_on_spec [OF fc_chain_distinct [OF add_blocks_ok [OF dag_ok_new assms(1)] assms(2)], of cs] assms(2)
  by (cases "cs = []") (auto simp: fc_resolve_def)

theorem resolve_picks_deepest_witness:
  "\<exists>res. fc_resolve (fork_choice_new HeaviestSubtree) demo_dag [2, 4, 3] = Some res \<and>
    (case res of
       None \<Rightarrow> set [2, 4, 3] \<inter> set [1, 3, 4 :: hash32] = {}
     | Some h \<Rightarrow> h \<in> set [2, 4, 3] \<and> (\<exists>i < length [1, 3, 4 :: hash32]. [1, 3, 4] ! i = h \<and>
         (\<forall>j < length [1, 3, 4 :: hash32]. [1, 3, 4] ! j \<in> set [2, 4, 3 :: hash32] \<longrightarrow> j \<le> i)))"
  by (rule resolve_picks_deepest [OF demo_dag_built(1)]) code_simp

lemma traverse_go_ends:
  assumes r: "dag_ranked d r" and "get_block d h \<noteq> None" and "r h < n"
  shows "\<exists>path. traverse_go n d h = Some path \<and> path \<noteq> [] \<and> get_block d h = Some (hd path) \<and>
    is_genesis (last path) \<and>
    (\<forall>i. Suc i < length path \<longrightarrow> get_block d (db_parent_hash (path ! i)) = Some (path ! Suc i))"
  using assms(2-)
proof (induction n arbitrary: h)
  case (Suc n)
  obtain b where b: "get_block d h = Some b" using Suc.prems by blast
  show ?case
  proof (cases "is_genesis b")
    case False
    then have "get_block d (db_parent_hash b) \<noteq> None" "r (db_parent_hash b) < n"
      using r b Suc.prems(2) unfolding dag_ranked_def by force+
    then obtain path where p: "traverse_go n d (db_parent_hash b) = Some path" "path \<noteq> []"
        "get_block d (db_parent_hash b) = Some (hd path)" "is_genesis (last path)"
        "\<forall>i. Suc i < length path \<longrightarrow> get_block d (db_parent_hash (path ! i)) = Some (path ! Suc i)"
      using Suc.IH by blast
    then show ?thesis
      using b False by (auto simp: nth_Cons hd_conv_nth split: nat.splits)
  qed (use b in simp)
qed simp

text \<open>
  Following parents from any block of a DAG built by \<open>add_block\<close> ends, at a genesis block, and
  every block on the way is the parent of the one before it.
\<close>

theorem traverse_parents_reaches_genesis:
  assumes "add_blocks dag_new bs = Inr d" and "get_block d h \<noteq> None"
  shows "\<exists>path. traverse_parents d h = Some path \<and> path \<noteq> [] \<and> get_block d h = Some (hd path) \<and>
    is_genesis (last path) \<and>
    (\<forall>i. Suc i < length path \<longrightarrow> get_block d (db_parent_hash (path ! i)) = Some (path ! Suc i))"
proof -
  have "dag_ok d" by (rule add_blocks_ok [OF dag_ok_new assms(1)])
  then obtain r where r: "dag_ranked d r" by (auto simp: dag_ok_def)
  then have "r h < dag_fuel d" using assms(2) unfolding dag_ranked_def dag_fuel_def by force
  then show ?thesis unfolding traverse_parents_def by (rule traverse_go_ends [OF r assms(2)])
qed

theorem traverse_parents_reaches_genesis_witness:
  "\<exists>path. traverse_parents demo_dag 4 = Some path \<and> path \<noteq> [] \<and> get_block demo_dag 4 = Some (hd path) \<and>
    is_genesis (last path) \<and>
    (\<forall>i. Suc i < length path \<longrightarrow> get_block demo_dag (db_parent_hash (path ! i)) = Some (path ! Suc i))"
  by (rule traverse_parents_reaches_genesis [OF demo_dag_built(1)])
    (simp add: demo_dag_simps get_block_def)

end
