(* ===== verification/Engine.thy ===== *)
theory Engine
  imports Endorsement Dag
begin

text \<open>
  The entry point of the DAG consensus layer: the slot scheduler
  (\<open>src/consensus/scheduler.rs\<close>), the block validator (\<open>src/consensus/validator.rs\<close>) and the
  consensus engine (\<open>src/consensus/engine.rs\<close>) that runs a block through format, slot, signature,
  quorum-certificate and endorsement checks before the DAG accepts it.  The block store is a state
  and a write function; the policy store and the organization registry are the look-ups they offer.
\<close>

section \<open>Slots\<close>

record slot =
  sl_number :: u64
  sl_proposer :: string
  sl_start_time :: u64
  sl_end_time :: u64

definition contains_timestamp :: "slot \<Rightarrow> u64 \<Rightarrow> bool" where
  "contains_timestamp s timestamp \<longleftrightarrow> timestamp \<ge> sl_start_time s \<and> timestamp < sl_end_time s"

definition slot_length :: "slot \<Rightarrow> u64" where
  "slot_length s = sl_end_time s - sl_start_time s"

record slot_scheduler =
  ss_slot_duration :: u64
  ss_validators :: "string list"
  ss_slot_cache :: "(u64, slot) hash_map"
  ss_genesis_time :: u64

definition slot_scheduler_new :: "u64 \<Rightarrow> string list \<Rightarrow> u64 \<Rightarrow> slot_scheduler" where
  "slot_scheduler_new slot_duration validators genesis_time =
     \<lparr>ss_slot_duration = slot_duration, ss_validators = validators, ss_slot_cache = [],
      ss_genesis_time = genesis_time\<rparr>"

definition get_proposer :: "slot_scheduler \<Rightarrow> u64 \<Rightarrow> string" where
  "get_proposer s slot_number =
     (if ss_validators s = [] then ''unknown''
      else ss_validators s ! (unat slot_number mod length (ss_validators s)))"

definition get_slot :: "slot_scheduler \<Rightarrow> u64 \<Rightarrow> slot_scheduler \<times> slot" where
  "get_slot s slot_number =
     (case map_of (ss_slot_cache s) slot_number of
        Some sl \<Rightarrow> (s, sl)
      | None \<Rightarrow>
          let start_time = ss_genesis_time s + slot_number * ss_slot_duration s;
              end_time = start_time + ss_slot_duration s;
              sl = \<lparr>sl_number = slot_number, sl_proposer = get_proposer s slot_number,
                    sl_start_time = start_time, sl_end_time = end_time\<rparr> in
          (s\<lparr>ss_slot_cache := hm_insert slot_number sl (ss_slot_cache s)\<rparr>, sl))"

text \<open>A division by a zero slot duration panics: the result is \<open>None\<close>.\<close>

definition get_current_slot :: "slot_scheduler \<Rightarrow> u64 \<Rightarrow> u64 option" where
  "get_current_slot s timestamp =
     (if timestamp < ss_genesis_time s then Some 0
      else if ss_slot_duration s = 0 then None
      else Some ((timestamp - ss_genesis_time s) div ss_slot_duration s))"

definition timestamp_to_slot :: "slot_scheduler \<Rightarrow> u64 \<Rightarrow> u64 option" where
  "timestamp_to_slot s timestamp = get_current_slot s timestamp"

definition slot_to_timestamps :: "slot_scheduler \<Rightarrow> u64 \<Rightarrow> u64 \<times> u64" where
  "slot_to_timestamps s slot_number =
     (let start = ss_genesis_time s + slot_number * ss_slot_duration s in
      (start, start + ss_slot_duration s))"

definition validate_block_slot :: "slot_scheduler \<Rightarrow> u64 \<Rightarrow> u64 \<Rightarrow> bool" where
  "validate_block_slot s slot_number timestamp =
     (let (start, stop) = slot_to_timestamps s slot_number in timestamp \<ge> start \<and> timestamp < stop)"

section \<open>The block validator\<close>

datatype invalid_reason =
    ZeroHash
  | EmptyProposer
  | LongProposer
  | ZeroSignature
  | GenesisParent
  | MissingParent
  | OutsideSlot u64 u64
  | WrongProposer string u64 string
  | HeightNotAbove u64 u64

datatype validity_result = Valid | Invalid invalid_reason

definition validate_format :: "dag_block \<Rightarrow> validity_result" where
  "validate_format b =
     (if db_hash b = 0 then Invalid ZeroHash
      else if db_proposer b = [] then Invalid EmptyProposer
      else if length (db_proposer b) > 256 then Invalid LongProposer
      else Valid)"

definition validate_signature :: "dag_block \<Rightarrow> validity_result" where
  "validate_signature b =
     (if list_all (\<lambda>x. x = 0) (db_signature b) \<and> length (db_signature b) = 64 then Invalid ZeroSignature
      else Valid)"

definition validate_parent :: "dag_block \<Rightarrow> validity_result" where
  "validate_parent b =
     (if is_genesis b then (if db_parent_hash b \<noteq> 0 then Invalid GenesisParent else Valid)
      else if db_parent_hash b = 0 then Invalid MissingParent
      else Valid)"

definition validate_slot :: "dag_block \<Rightarrow> slot_scheduler \<Rightarrow> validity_result" where
  "validate_slot b s =
     (if \<not> validate_block_slot s (db_slot b) (db_timestamp b) then Invalid (OutsideSlot (db_timestamp b) (db_slot b))
      else
        let expected_proposer = get_proposer s (db_slot b) in
        if db_proposer b \<noteq> expected_proposer
        then Invalid (WrongProposer expected_proposer (db_slot b) (db_proposer b))
        else Valid)"

definition validate_height :: "dag_block \<Rightarrow> u64 \<Rightarrow> validity_result" where
  "validate_height b parent_height =
     (if db_height b \<le> parent_height \<and> \<not> is_genesis b then Invalid (HeightNotAbove (db_height b) parent_height)
      else Valid)"

definition validate_block :: "dag_block \<Rightarrow> slot_scheduler \<Rightarrow> validity_result" where
  "validate_block b s =
     (case validate_format b of
        Invalid e \<Rightarrow> Invalid e
      | Valid \<Rightarrow>
     (case validate_signature b of
        Invalid e \<Rightarrow> Invalid e
      | Valid \<Rightarrow>
     (case validate_parent b of
        Invalid e \<Rightarrow> Invalid e
      | Valid \<Rightarrow>
     (case validate_slot b s of
        Invalid e \<Rightarrow> Invalid e
      | Valid \<Rightarrow> Valid))))"

section \<open>The engine\<close>

datatype hash_algorithm = Sha256 | Sha3_256

record storage_block =
  sb_height :: u64
  sb_timestamp :: u64
  sb_parent_hash :: hash32
  sb_merkle_root :: hash32
  sb_transactions :: "string list"
  sb_proposer :: string
  sb_signature :: bytes
  sb_signature_algorithm :: signing_algorithm
  sb_endorsements :: "endorsement list"
  sb_secondary_signature :: "bytes option"
  sb_secondary_signature_algorithm :: "signing_algorithm option"
  sb_hash_algorithm :: hash_algorithm
  sb_orderer_signature :: "bytes option"

datatype bft_reason =
    MissingCommitQc
  | ExpectedCommit bft_phase
  | HashMismatch
  | QcRejected qc_error

datatype block_reason = BadBlock invalid_reason | BadSignature sig_reason

datatype consensus_error =
    InvalidBlock block_reason
  | DagError dag_error
  | StorePersist storage_error
  | EndorsementError endorsement_error
  | BftError bft_reason

text \<open>
  The floating-point field \<open>byzantine_fault_tolerance\<close> of the configuration is written and never
  read; it is left out.
\<close>

record consensus_config =
  cc_slot_duration_ms :: u64
  cc_max_parallel_slots :: "32 word"

definition default_consensus_config :: consensus_config where
  "default_consensus_config = \<lparr>cc_slot_duration_ms = 6000, cc_max_parallel_slots = 4\<rparr>"

record 's block_store =
  bs_state :: 's
  bs_write :: "'s \<Rightarrow> storage_block \<Rightarrow> 's \<times> (storage_error + unit)"

record 's consensus_engine =
  ce_dag :: dag
  ce_fork_choice :: fork_choice
  ce_scheduler :: slot_scheduler
  ce_store :: "'s block_store option"
  ce_policy_store :: "(string \<Rightarrow> storage_error + endorsement_policy) option"
  ce_org_registry :: "org_lookup option"
  ce_bft_quorum_validator :: "quorum_validator option"

definition consensus_engine_new ::
    "consensus_config \<Rightarrow> fork_choice_rule \<Rightarrow> string list \<Rightarrow> u64 \<Rightarrow> 's consensus_engine" where
  "consensus_engine_new config rule validators genesis_time =
     \<lparr>ce_dag = dag_new, ce_fork_choice = fork_choice_new rule,
      ce_scheduler = slot_scheduler_new (cc_slot_duration_ms config div 1000) validators genesis_time,
      ce_store = None, ce_policy_store = None, ce_org_registry = None, ce_bft_quorum_validator = None\<rparr>"

definition with_store :: "'s consensus_engine \<Rightarrow> 's block_store \<Rightarrow> 's consensus_engine" where
  "with_store e store = e\<lparr>ce_store := Some store\<rparr>"

definition with_policy_store ::
    "'s consensus_engine \<Rightarrow> (string \<Rightarrow> storage_error + endorsement_policy) \<Rightarrow> org_lookup \<Rightarrow> 's consensus_engine" where
  "with_policy_store e policy_store org_registry =
     e\<lparr>ce_policy_store := Some policy_store, ce_org_registry := Some org_registry\<rparr>"

definition with_bft :: "'s consensus_engine \<Rightarrow> string list \<Rightarrow> verifier \<Rightarrow> 's consensus_engine" where
  "with_bft e validators ver = e\<lparr>ce_bft_quorum_validator := Some (quorum_validator_new validators ver)\<rparr>"

definition check_bft :: "'s consensus_engine \<Rightarrow> dag_block \<Rightarrow> bft_reason + unit" where
  "check_bft e b =
     (case ce_bft_quorum_validator e of
        None \<Rightarrow> Inr ()
      | Some bft_qv \<Rightarrow>
          if is_genesis b then Inr ()
          else (case db_commit_qc b of
                  None \<Rightarrow> Inl MissingCommitQc
                | Some qc \<Rightarrow>
                    if qc_phase qc \<noteq> Commit then Inl (ExpectedCommit (qc_phase qc))
                    else if qc_block_hash qc \<noteq> db_hash b then Inl HashMismatch
                    else (case validate_qc bft_qv qc of Inl err \<Rightarrow> Inl (QcRejected err) | Inr _ \<Rightarrow> Inr ())))"

definition check_block_policy :: "crypto_ops \<Rightarrow> 's consensus_engine \<Rightarrow> endorsement_error + unit" where
  "check_block_policy env e =
     (case (ce_policy_store e, ce_org_registry e) of
        (Some ps, Some reg) \<Rightarrow>
          (case ps ''block'' of
             Inr policy \<Rightarrow> validate_endorsements env [] policy reg None
           | Inl _ \<Rightarrow> Inr ())
      | _ \<Rightarrow> Inr ())"

definition to_storage_block :: "crypto_ops \<Rightarrow> dag_block \<Rightarrow> storage_block" where
  "to_storage_block env b =
     \<lparr>sb_height = db_height b, sb_timestamp = db_timestamp b, sb_parent_hash = db_parent_hash b,
      sb_merkle_root = db_hash b, sb_transactions = map (hex_encode env) (db_transactions b),
      sb_proposer = db_proposer b, sb_signature = db_signature b,
      sb_signature_algorithm = db_signature_algorithm b, sb_endorsements = [],
      sb_secondary_signature = db_secondary_signature b,
      sb_secondary_signature_algorithm = db_secondary_signature_algorithm b,
      sb_hash_algorithm = Sha256, sb_orderer_signature = None\<rparr>"

definition accept_block ::
    "crypto_ops \<Rightarrow> 's consensus_engine \<Rightarrow> dag_block \<Rightarrow> 's consensus_engine \<times> (consensus_error + hash32)" where
  "accept_block env e b =
     (case validate_block b (ce_scheduler e) of
        Invalid reason \<Rightarrow> (e, Inl (InvalidBlock (BadBlock reason)))
      | Valid \<Rightarrow>
     (case validate_signature_consistency (db_signature_algorithm b) (db_signature b) of
        Inl reason \<Rightarrow> (e, Inl (InvalidBlock (BadSignature reason)))
      | Inr _ \<Rightarrow>
     (case enforce_pqc env (db_signature_algorithm b) of
        Inl reason \<Rightarrow> (e, Inl (InvalidBlock (BadSignature reason)))
      | Inr _ \<Rightarrow>
     (case check_bft e b of
        Inl reason \<Rightarrow> (e, Inl (BftError reason))
      | Inr _ \<Rightarrow>
     (case check_block_policy env e of
        Inl err \<Rightarrow> (e, Inl (EndorsementError err))
      | Inr _ \<Rightarrow>
     (case add_block (ce_dag e) b of
        Inl err \<Rightarrow> (e, Inl (DagError err))
      | Inr dag' \<Rightarrow>
          let e' = e\<lparr>ce_dag := dag'\<rparr> in
          (case ce_store e' of
             None \<Rightarrow> (e', Inr (db_hash b))
           | Some store \<Rightarrow>
               (case bs_write store (bs_state store) (to_storage_block env b) of
                  (st, r) \<Rightarrow>
                    (e'\<lparr>ce_store := Some (store\<lparr>bs_state := st\<rparr>)\<rparr>,
                     case r of Inl err \<Rightarrow> Inl (StorePersist err) | Inr _ \<Rightarrow> Inr (db_hash b))))))))))"

definition engine_canonical_chain :: "'s consensus_engine \<Rightarrow> hash32 list option" where
  "engine_canonical_chain e = fc_canonical_chain (ce_fork_choice e) (ce_dag e)"

definition canonical_tip :: "'s consensus_engine \<Rightarrow> hash32 option option" where
  "canonical_tip e =
     map_option (\<lambda>chain. if chain = [] then None else Some (last chain))
       (fc_canonical_chain (ce_fork_choice e) (ce_dag e))"

definition engine_block_count :: "'s consensus_engine \<Rightarrow> u64" where
  "engine_block_count e = dag_block_count (ce_dag e)"

section \<open>Correctness of the slots\<close>

lemma slot_bounds:
  assumes "unat (ss_genesis_time s) + (unat n + 1) * unat (ss_slot_duration s) < 2 ^ 64"
  shows "unat (fst (slot_to_timestamps s n)) = unat (ss_genesis_time s) + unat n * unat (ss_slot_duration s)"
    and "unat (snd (slot_to_timestamps s n)) = unat (ss_genesis_time s) + (unat n + 1) * unat (ss_slot_duration s)"
proof -
  let ?g = "ss_genesis_time s" and ?d = "ss_slot_duration s"
  have m: "unat (n * ?d) = unat n * unat ?d" using assms by (intro unat_mul_no_wrap) simp
  have a: "unat (?g + n * ?d) = unat ?g + unat n * unat ?d"
    using assms by (subst unat_add_no_wrap) (simp_all add: m)
  then show "unat (fst (slot_to_timestamps s n)) = unat ?g + unat n * unat ?d"
    by (simp add: slot_to_timestamps_def Let_def)
  have "unat (?g + n * ?d + ?d) = unat ?g + unat n * unat ?d + unat ?d"
    using assms a by (subst unat_add_no_wrap) simp_all
  then show "unat (snd (slot_to_timestamps s n)) = unat ?g + (unat n + 1) * unat ?d"
    by (simp add: slot_to_timestamps_def Let_def)
qed

text \<open>
  Slots and timestamps convert back and forth: when the end of a slot fits in 64 bits and the slot
  duration is not zero, a timestamp lies in the slot exactly when it is mapped to that slot.
\<close>

theorem timestamp_slot_roundtrip:
  assumes "0 < ss_slot_duration s" and "ss_genesis_time s \<le> t"
    and "unat (ss_genesis_time s) + (unat n + 1) * unat (ss_slot_duration s) < 2 ^ 64"
  shows "validate_block_slot s n t \<longleftrightarrow> timestamp_to_slot s t = Some n"
proof -
  let ?g = "unat (ss_genesis_time s)" and ?d = "unat (ss_slot_duration s)"
  have d: "0 < ?d" using assms(1) by (simp add: unat_gt_0)
  have g: "?g \<le> unat t" using assms(2) by (simp add: word_le_nat_alt)
  have "unat ((t - ss_genesis_time s) div ss_slot_duration s) = (unat t - ?g) div ?d"
    using assms(2) by (simp add: unat_div unat_sub)
  then have "timestamp_to_slot s t = Some n \<longleftrightarrow> (unat t - ?g) div ?d = unat n"
    using assms(1,2) d by (auto simp: timestamp_to_slot_def get_current_slot_def word_unat_eq_iff not_less)
  also have "\<dots> \<longleftrightarrow> unat n \<le> (unat t - ?g) div ?d \<and> (unat t - ?g) div ?d < unat n + 1"
    by linarith
  also have "\<dots> \<longleftrightarrow> unat n * ?d \<le> unat t - ?g \<and> unat t - ?g < (unat n + 1) * ?d"
    unfolding less_eq_div_iff_mult_less_eq [OF d] div_less_iff_less_mult [OF d] ..
  also have "\<dots> \<longleftrightarrow> ?g + unat n * ?d \<le> unat t \<and> unat t < ?g + (unat n + 1) * ?d"
    using g by linarith
  also have "\<dots> \<longleftrightarrow> validate_block_slot s n t"
    using slot_bounds [OF assms(3)]
    by (simp add: validate_block_slot_def word_le_nat_alt word_less_nat_alt case_prod_beta)
  finally show ?thesis ..
qed

theorem timestamp_slot_roundtrip_witness:
  "validate_block_slot (slot_scheduler_new 6 [''a''] 100) 2 113 \<longleftrightarrow>
     timestamp_to_slot (slot_scheduler_new 6 [''a''] 100) 113 = Some 2"
  by (rule timestamp_slot_roundtrip) (simp_all add: slot_scheduler_new_def)

section \<open>Correctness of the engine\<close>


lemma accept_block_checks:
  assumes "accept_block env e b = (e', Inr h)"
  shows "h = db_hash b" and "validate_block b (ce_scheduler e) = Valid"
    and "length (db_signature b) = expected_len (db_signature_algorithm b)"
    and "pqc_required env \<Longrightarrow> is_post_quantum (db_signature_algorithm b)"
    and "check_bft e b = Inr ()" and "check_block_policy env e = Inr ()"
    and "add_block (ce_dag e) b = Inr (ce_dag e')"
  using assms
  by (auto simp: accept_block_def Let_def validate_signature_consistency_def enforce_pqc_def
      split: validity_result.splits sum.splits if_splits option.splits prod.splits)



definition demo_engine :: "unit consensus_engine" where
  "demo_engine = consensus_engine_new default_consensus_config HeaviestSubtree [''v0''] 0"

definition demo_crypto :: crypto_ops where
  "demo_crypto = \<lparr>ed_key_ok = \<lambda>_. True, ed_sig_ok = \<lambda>_. True, ed_verify = \<lambda>_ _ _. True,
     hex_encode = \<lambda>_. [], pqc_required = False\<rparr>"

definition demo_genesis :: dag_block where
  "demo_genesis = dag_block_new 5 0 0 0 3 ''v0'' (replicate 64 1)"

lemmas demo_engine_simps = demo_engine_def demo_crypto_def demo_genesis_def dag_block_new_def
  consensus_engine_new_def default_consensus_config_def accept_block_def validate_block_def validate_format_def
  validate_signature_def validate_parent_def validate_slot_def validate_block_slot_def slot_to_timestamps_def
  get_proposer_def slot_scheduler_new_def is_genesis_def validate_signature_consistency_def enforce_pqc_def
  check_bft_def check_block_policy_def add_block_def dag_new_def hm_contains_def Let_def list_all_iff




definition demo_child :: "hash32 \<Rightarrow> string list \<Rightarrow> dag_block" where
  "demo_child h voters = (dag_block_new h 5 1 0 4 ''v0'' (replicate 64 1))
     \<lparr>db_commit_qc := Some \<lparr>qc_block_hash = h, qc_round = 1, qc_phase = Commit,
       qc_votes = map (demo_vote Commit 7 1) voters\<rparr>\<rparr>"

definition demo_bft_engine :: "unit consensus_engine" where
  "demo_bft_engine = with_bft (fst (accept_block demo_crypto demo_engine demo_genesis)) demo_validators demo_verifier"

lemma demo_child_accepted:
  assumes "voters = [''v0'', ''v1'', ''v2''] \<or> voters = [''v1'', ''v2'', ''v3'']" and "h = 7 \<or> h = 8"
  shows "snd (accept_block demo_crypto demo_bft_engine (demo_child h voters)) = Inr h"
  using assms
  by (auto simp: demo_bft_engine_def demo_child_def with_bft_def demo_engine_simps hm_insert_def dag_vertex_new_def
      validate_qc_def validate_vote_def quorum_validator_new_def demo_validators_def demo_verifier_def demo_vote_def
      vote_payload_def quorum_threshold_def max_faulty_def)


text \<open>
  The certificate check does not tie the votes to the certificate: the engine accepts a block
  whose commit certificate names its hash but consists of votes that the validators cast for
  another block.
\<close>

theorem engine_accepts_replayed_votes:
  "\<exists>(e :: unit consensus_engine) b qv qc e'. ce_bft_quorum_validator e = Some qv \<and> \<not> is_genesis b \<and>
     db_commit_qc b = Some qc \<and> accept_block demo_crypto e b = (e', Inr (db_hash b)) \<and>
     (\<forall>v \<in> set (qc_votes qc). vm_block_hash v \<noteq> db_hash b) \<and>
     (\<forall>v sig. \<not> qv_verifier qv v (signing_payload Commit (db_hash b) (qc_round qc)) sig)"
proof -
  let ?b = "demo_child 8 [''v0'', ''v1'', ''v2'']"
  let ?qv = "quorum_validator_new demo_validators demo_verifier"
  have "accept_block demo_crypto demo_bft_engine ?b = (fst (accept_block demo_crypto demo_bft_engine ?b), Inr 8)"
    using demo_child_accepted [of "[''v0'', ''v1'', ''v2'']" 8] by (metis prod.collapse)
  moreover have "signing_payload Commit 8 1 \<noteq> signing_payload Commit 7 1"
    using signing_payload_eqD by fastforce
  ultimately show ?thesis
    by (intro exI [of _ demo_bft_engine] exI [of _ ?b] exI [of _ ?qv]
        exI [of _ "the (db_commit_qc ?b)"] exI [of _ "fst (accept_block demo_crypto demo_bft_engine ?b)"])
      (auto simp: demo_bft_engine_def with_bft_def demo_child_def dag_block_new_def is_genesis_def demo_vote_def
        quorum_validator_new_def demo_verifier_def)
qed

text \<open>
  When persisting an accepted block fails, the caller gets an error but the block stays in the
  DAG, and submitting it again is refused as a duplicate, so it never reaches the store.
\<close>

theorem store_failure_keeps_block:
  assumes "accept_block env e b = (e', Inl (StorePersist err))"
  shows "get_block (ce_dag e') (db_hash b) = Some b \<and>
    snd (accept_block env e' b) = Inl (DagError BlockExists)"
proof -
  have add: "add_block (ce_dag e) b = Inr (ce_dag e')"
    and same: "ce_scheduler e' = ce_scheduler e" "ce_policy_store e' = ce_policy_store e"
      "ce_org_registry e' = ce_org_registry e" "ce_bft_quorum_validator e' = ce_bft_quorum_validator e"
    and passed: "validate_block b (ce_scheduler e) = Valid"
      "validate_signature_consistency (db_signature_algorithm b) (db_signature b) = Inr ()"
      "enforce_pqc env (db_signature_algorithm b) = Inr ()"
      "check_bft e b = Inr ()" "check_block_policy env e = Inr ()"
    using assms
    by (auto simp: accept_block_def Let_def split: validity_result.splits sum.splits option.splits prod.splits)
  have "get_block (ce_dag e') (db_hash b) = Some b" using add_block_get [OF add] by simp
  moreover from this have "add_block (ce_dag e') b = Inl BlockExists"
    by (simp add: add_block_def get_block_contains)
  moreover have "check_bft e' b = Inr ()" "check_block_policy env e' = Inr ()"
    using passed(4,5) by (simp_all add: check_bft_def check_block_policy_def same)
  ultimately show ?thesis using passed by (simp add: accept_block_def same)
qed

definition demo_failing_engine :: "unit consensus_engine" where
  "demo_failing_engine = with_store demo_engine \<lparr>bs_state = (), bs_write = \<lambda>st _. (st, Inl (RocksDbError ''io''))\<rparr>"

theorem store_failure_keeps_block_witness:
  "snd (accept_block demo_crypto (fst (accept_block demo_crypto demo_failing_engine demo_genesis)) demo_genesis) =
     Inl (DagError BlockExists)"
proof -
  have "snd (accept_block demo_crypto demo_failing_engine demo_genesis) = Inl (StorePersist (RocksDbError ''io''))"
    by (simp add: demo_failing_engine_def with_store_def demo_engine_simps)
  then have "accept_block demo_crypto demo_failing_engine demo_genesis =
      (fst (accept_block demo_crypto demo_failing_engine demo_genesis), Inl (StorePersist (RocksDbError ''io'')))"
    by (simp add: prod_eq_iff)
  from store_failure_keeps_block [OF this] show ?thesis by simp
qed

text \<open>
  The endorsement check of the engine runs on an empty list: as soon as a policy that the empty
  set of organizations does not satisfy is stored under \<open>block\<close>, no block is accepted.
\<close>

theorem block_policy_rejects_all:
  assumes "ce_policy_store e = Some ps" and "ce_org_registry e = Some reg" and "ps ''block'' = Inr policy"
    and "\<not> policy_sat policy {}"
  shows "\<exists>err. snd (accept_block env e b) = Inl err"
proof (rule ccontr)
  assume "\<nexists>err. snd (accept_block env e b) = Inl err"
  then obtain h where "accept_block env e b = (fst (accept_block env e b), Inr h)"
    by (metis prod.collapse sum.exhaust)
  from accept_block_checks(6) [OF this] assms show False
    by (simp add: check_block_policy_def validate_endorsements_def evaluate_sat split: if_splits)
qed

theorem block_policy_rejects_all_witness:
  "\<exists>err. snd (accept_block demo_crypto
     (with_policy_store demo_engine (\<lambda>_. Inr (AnyOf [''org1''])) (\<lambda>_. Inl (RocksDbError ''io''))) demo_genesis) = Inl err"
  by (rule block_policy_rejects_all) (auto simp: with_policy_store_def)

text \<open>
  Whatever blocks an engine is offered, its DAG stays well-formed, so the canonical chain is always
  defined and the look-up of its tip always returns.
\<close>

theorem engine_always_has_tip:
  "let e = foldl (\<lambda>e b. fst (accept_block env e b))
     (consensus_engine_new config rule validators t :: 's consensus_engine) bs
   in dag_ok (ce_dag e) \<and> (\<exists>tip. canonical_tip e = Some tip)"
proof -
  define e where "e = foldl (\<lambda>e b. fst (accept_block env e b))
    (consensus_engine_new config rule validators t :: 's consensus_engine) bs"
  have "dag_ok (ce_dag (fst (accept_block env e b)))" if "dag_ok (ce_dag e)" for e :: "'s consensus_engine" and b
    using that dag_ok_add
    by (auto simp: accept_block_def Let_def split: validity_result.splits sum.splits option.splits prod.splits)
  then have "dag_ok (ce_dag (foldl (\<lambda>e b. fst (accept_block env e b)) e bs))"
    if "dag_ok (ce_dag e)" for e :: "'s consensus_engine"
    using that by (induction bs arbitrary: e) auto
  then have ok: "dag_ok (ce_dag e)" by (simp add: e_def consensus_engine_new_def dag_ok_new)
  then have "\<exists>tip. canonical_tip e = Some tip"
    using fc_chain_path [OF ok, of "ce_fork_choice e"] by (auto simp: canonical_tip_def split: option.splits)
  then show ?thesis using ok unfolding e_def [symmetric] Let_def by blast
qed

end
