(* ===== verification/Weighted_Choice.thy ===== *)
theory Weighted_Choice
  imports Cerulean_Prelude
begin

text \<open>
  Choosing from a list by weight: the consensus committee and the staking manager both map a position below
  the total stake to the owner of the interval the position falls in, walking the list with a running
  sum. The locale states that walk; its lemmas count how many positions every entry owns.
\<close>

locale weighted_choice =
  fixes stake :: "'m \<Rightarrow> u64"
    and name :: "'m \<Rightarrow> string"
    and pick :: "u64 \<Rightarrow> u64 \<Rightarrow> 'm list \<Rightarrow> string option"
  assumes pick_Nil: "pick position cumulative [] = None"
    and pick_Cons: "pick position cumulative (m # ms) =
      (if position < cumulative + stake m then Some (name m) else pick position (cumulative + stake m) ms)"
begin

abbreviation stake_sum :: "'m list \<Rightarrow> nat" where
  "stake_sum ms \<equiv> \<Sum>m \<leftarrow> ms. unat (stake m)"

lemma pick_step:
  assumes "cum + stake_sum (m # ms) < 2 ^ 64" and "p < cum + stake_sum (m # ms)"
  shows "pick (of_nat p) (of_nat cum) (m # ms) =
    (if p < cum + unat (stake m) then Some (name m) else pick (of_nat p) (of_nat (cum + unat (stake m))) ms)"
proof -
  have "(of_nat cum :: u64) + stake m = of_nat (cum + unat (stake m))" by simp
  moreover have "(of_nat p :: u64) < of_nat (cum + unat (stake m)) \<longleftrightarrow> p < cum + unat (stake m)"
    using assms by (simp add: word_less_nat_alt unat_of_nat_lt del: of_nat_add)
  ultimately show ?thesis unfolding pick_Cons by presburger
qed

lemma pick_count:
  "cum + stake_sum ms < 2 ^ 64 \<Longrightarrow>
   card {p \<in> {cum..<cum + stake_sum ms}. pick (of_nat p) (of_nat cum) ms = Some a} =
     (\<Sum>m \<leftarrow> filter (\<lambda>m. name m = a) ms. unat (stake m))"
proof (induction ms arbitrary: cum)
  case (Cons m ms)
  let ?s = "unat (stake m)"
  have "{p. cum \<le> p \<and> p < cum + ?s} = {cum..<cum + ?s}" by auto
  then have interval: "card {p. cum \<le> p \<and> p < cum + ?s} = ?s" by simp
  have "{p \<in> {cum..<cum + stake_sum (m # ms)}. pick (of_nat p) (of_nat cum) (m # ms) = Some a} =
      {p \<in> {cum..<cum + ?s}. name m = a} \<union>
      {p \<in> {cum + ?s..<cum + ?s + stake_sum ms}. pick (of_nat p) (of_nat (cum + ?s)) ms = Some a}"
    using pick_step [OF Cons.prems] by (auto simp del: of_nat_add split: if_splits)
  also have "card \<dots> = (if name m = a then ?s else 0) + (\<Sum>m \<leftarrow> filter (\<lambda>m. name m = a) ms. unat (stake m))"
    using Cons.IH [of "cum + ?s"] Cons.prems interval
    by (subst card_Un_disjoint) (auto simp del: card_atLeastLessThan)
  finally show ?case by simp
qed simp

lemma pick_found:
  "cum + stake_sum ms < 2 ^ 64 \<Longrightarrow> cum \<le> p \<Longrightarrow> p < cum + stake_sum ms \<Longrightarrow>
     \<exists>m \<in> set ms. pick (of_nat p) (of_nat cum) ms = Some (name m)"
proof (induction ms arbitrary: cum)
  case (Cons m ms)
  show ?case
  proof (cases "p < cum + unat (stake m)")
    case True
    then show ?thesis using pick_step [OF Cons.prems(1,3)] by auto
  next
    case False
    then show ?thesis
      using pick_step [OF Cons.prems(1,3)] Cons.IH [of "cum + unat (stake m)"] Cons.prems by auto
  qed
qed simp

lemma unique_name:
  "distinct (map name ms) \<Longrightarrow> m \<in> set ms \<Longrightarrow> filter (\<lambda>x. name x = name m) ms = [m]"
  by (induction ms) (auto simp: filter_empty_conv, metis image_eqI)

text \<open>Every entry with a name of its own owns exactly as many positions as it has stake.\<close>

lemma pick_share:
  assumes "stake_sum ms < 2 ^ 64" and "distinct (map name ms)" and "m \<in> set ms"
  shows "card {p \<in> {0..<stake_sum ms}. pick (of_nat p) 0 ms = Some (name m)} = unat (stake m)"
  using pick_count [of 0 ms "name m"] unique_name [OF assms(2,3)] assms(1) by simp

lemma stake_le_sum: "m \<in> set ms \<Longrightarrow> unat (stake m) \<le> stake_sum ms"
  by (auto intro: member_le_sum_list)

lemma total_stake:
  assumes "stake_sum ms < 2 ^ 64"
  shows "unat (sum_list (map stake ms)) = stake_sum ms"
  using unat_sum_list [of "map stake ms"] assms by (simp add: comp_def)

end

end
