(* ===== verification/Dpos.thy ===== *)
theory Dpos
  imports Weighted_Choice
begin

text \<open>
  Delegated proof of stake, \<open>src/consensus/dpos.rs\<close>: the choice of a committee among the
  candidates and the stake-weighted rotation of its leaders.
\<close>

section \<open>Committees\<close>

record validator_stake =
  vs_address :: string
  vs_stake :: u64
  vs_active :: bool

record dpos_config =
  dc_max_validators :: nat
  dc_min_stake :: u64

definition default_dpos_config :: dpos_config where
  "default_dpos_config = \<lparr>dc_max_validators = 150, dc_min_stake = 1000\<rparr>"

record validator_committee =
  co_members :: "validator_stake list"
  co_total_stake :: u64
  co_epoch :: u64

fun owner_of_position :: "u64 \<Rightarrow> u64 \<Rightarrow> validator_stake list \<Rightarrow> string option" where
  "owner_of_position position cumulative [] = None"
| "owner_of_position position cumulative (m # ms) =
     (let cumulative' = cumulative + vs_stake m in
      if position < cumulative' then Some (vs_address m) else owner_of_position position cumulative' ms)"

definition dpos_leader_for_round :: "validator_committee \<Rightarrow> u64 \<Rightarrow> string option" where
  "dpos_leader_for_round c round =
     (if co_members c = [] \<or> co_total_stake c = 0 then None
      else
        let position = round mod co_total_stake c in
        (case owner_of_position position 0 (co_members c) of
           Some a \<Rightarrow> Some a
         | None \<Rightarrow> Some (vs_address (last (co_members c)))))"

definition voting_power :: "validator_committee \<Rightarrow> string \<Rightarrow> u64" where
  "voting_power c address =
     (case find (\<lambda>m. vs_address m = address) (co_members c) of Some m \<Rightarrow> vs_stake m | None \<Rightarrow> 0)"

definition is_member :: "validator_committee \<Rightarrow> string \<Rightarrow> bool" where
  "is_member c address \<longleftrightarrow> list_ex (\<lambda>m. vs_address m = address) (co_members c)"

definition committee_size :: "validator_committee \<Rightarrow> nat" where
  "committee_size c = length (co_members c)"

definition stake_order :: "validator_stake \<Rightarrow> validator_stake \<Rightarrow> bool" where
  "stake_order a b \<longleftrightarrow> vs_stake a > vs_stake b \<or> (vs_stake a = vs_stake b \<and> vs_address a \<le> vs_address b)"

definition select_committee :: "validator_stake list \<Rightarrow> dpos_config \<Rightarrow> u64 \<Rightarrow> validator_committee" where
  "select_committee candidates config epoch =
     (let eligible = filter (\<lambda>c. vs_active c \<and> vs_stake c \<ge> dc_min_stake config) candidates;
          members = take (dc_max_validators config) (sort_by stake_order eligible) in
      \<lparr>co_members = members, co_total_stake = sum_list (map vs_stake members), co_epoch = epoch\<rparr>)"

definition count_leader :: "validator_committee \<Rightarrow> (string, u64) hash_map \<Rightarrow> nat \<Rightarrow> (string, u64) hash_map" where
  "count_leader c counts round =
     (case dpos_leader_for_round c (of_nat round) of
        None \<Rightarrow> counts
      | Some leader \<Rightarrow>
          hm_insert leader ((case map_of counts leader of None \<Rightarrow> 0 | Some n \<Rightarrow> n) + 1) counts)"

definition expected_leader_distribution :: "validator_committee \<Rightarrow> u64 \<Rightarrow> (string, u64) hash_map" where
  "expected_leader_distribution c rounds = foldl (count_leader c) [] [0..<unat rounds]"

section \<open>Correctness of the selection\<close>

lemma stake_order_total: "stake_order a b \<or> stake_order b a"
  by (auto simp: stake_order_def)

lemma stake_order_trans: "stake_order a b \<Longrightarrow> stake_order b c \<Longrightarrow> stake_order a c"
  by (auto simp: stake_order_def)

text \<open>
  The committee consists of eligible candidates, in order of stake, as many as there are up to the
  limit, and no eligible candidate left out comes before a member.
\<close>

theorem select_committee_top_stakes:
  "let c = select_committee candidates config epoch;
       eligible = {v \<in> set candidates. vs_active v \<and> dc_min_stake config \<le> vs_stake v} in
   set (co_members c) \<subseteq> eligible \<and> sorted_wrt stake_order (co_members c) \<and>
   committee_size c \<le> dc_max_validators config \<and>
   (\<forall>v \<in> eligible - set (co_members c). committee_size c = dc_max_validators config \<and>
      (\<forall>m \<in> set (co_members c). stake_order m v))"
proof -
  let ?s = "sort_by stake_order (filter (\<lambda>c. vs_active c \<and> vs_stake c \<ge> dc_min_stake config) candidates)"
  let ?n = "dc_max_validators config"
  have sorted: "sorted_wrt stake_order ?s"
    by (rule sorted_sort_by) (use stake_order_total stake_order_trans in blast)+
  have "sorted_wrt stake_order (take ?n ?s @ drop ?n ?s)" using sorted by simp
  then have split: "sorted_wrt stake_order (take ?n ?s)"
      "\<forall>m \<in> set (take ?n ?s). \<forall>v \<in> set (drop ?n ?s). stake_order m v"
    unfolding sorted_wrt_append by auto
  have elig: "set ?s = {v \<in> set candidates. vs_active v \<and> dc_min_stake config \<le> vs_stake v}" by auto
  have left: "v \<in> set (drop ?n ?s) \<and> length (take ?n ?s) = ?n" if "v \<in> set ?s - set (take ?n ?s)" for v
  proof -
    have "set ?s = set (take ?n ?s) \<union> set (drop ?n ?s)"
      using set_append [of "take ?n ?s" "drop ?n ?s"] unfolding append_take_drop_id .
    then have "v \<in> set (drop ?n ?s)" using that by blast
    then have "length (drop ?n ?s) > 0" by (cases "drop ?n ?s") auto
    then show ?thesis using \<open>v \<in> set (drop ?n ?s)\<close> by simp
  qed
  have "set (take ?n ?s) \<subseteq> set ?s" by (rule set_take_subset)
  then show ?thesis
    unfolding select_committee_def committee_size_def Let_def elig [symmetric]
    using split left by auto
qed

definition demo_candidates :: "validator_stake list" where
  "demo_candidates = [\<lparr>vs_address = ''a'', vs_stake = 2, vs_active = True\<rparr>,
     \<lparr>vs_address = ''b'', vs_stake = 3, vs_active = True\<rparr>, \<lparr>vs_address = ''c'', vs_stake = 1, vs_active = True\<rparr>]"

definition demo_dpos_config :: dpos_config where
  "demo_dpos_config = \<lparr>dc_max_validators = 2, dc_min_stake = 1\<rparr>"

theorem select_committee_top_stakes_witness:
  "map vs_address (co_members (select_committee demo_candidates demo_dpos_config 0)) = [''b'', ''a''] \<and>
   (\<forall>m \<in> set (co_members (select_committee demo_candidates demo_dpos_config 0)). stake_order m (demo_candidates ! 2))"
proof -
  have m: "co_members (select_committee demo_candidates demo_dpos_config 0) = [demo_candidates ! 1, demo_candidates ! 0]"
    by (simp add: select_committee_def demo_candidates_def demo_dpos_config_def sort_by_def stake_order_def Let_def)
  have "demo_candidates ! 2 \<in> {v \<in> set demo_candidates. vs_active v \<and> dc_min_stake demo_dpos_config \<le> vs_stake v} -
      set (co_members (select_committee demo_candidates demo_dpos_config 0))"
    unfolding m by (simp add: demo_candidates_def demo_dpos_config_def)
  then have "\<forall>m \<in> set (co_members (select_committee demo_candidates demo_dpos_config 0)).
      stake_order m (demo_candidates ! 2)"
    using select_committee_top_stakes [of demo_candidates demo_dpos_config 0] unfolding Let_def by blast
  moreover have "map vs_address (co_members (select_committee demo_candidates demo_dpos_config 0)) = [''b'', ''a'']"
    unfolding m by (simp add: demo_candidates_def)
  ultimately show ?thesis by blast
qed

section \<open>Shares of the leadership\<close>

interpretation committee: weighted_choice vs_stake vs_address owner_of_position
  by unfold_locales (simp_all add: Let_def)

lemma count_leader_get:
  "map_of (count_leader c counts r) a =
     (if dpos_leader_for_round c (of_nat r) = Some a
      then Some ((case map_of counts a of None \<Rightarrow> 0 | Some n \<Rightarrow> n) + 1) else map_of counts a)"
  by (auto simp: count_leader_def split: option.splits)

lemma count_leader_counts:
  "n < 2 ^ 64 \<Longrightarrow> map_of (foldl (count_leader c) [] [0..<n]) a =
     (let k = card {r \<in> {0..<n}. dpos_leader_for_round c (of_nat r) = Some a} in
      if k = 0 then None else Some (of_nat k))"
proof (induction n)
  case (Suc n)
  let ?R = "\<lambda>n. {r \<in> {0..<n}. dpos_leader_for_round c (of_nat r) = Some a}"
  have "?R (Suc n) = (if dpos_leader_for_round c (of_nat n) = Some a then insert n (?R n) else ?R n)"
    by (auto simp: less_Suc_eq)
  then have "card (?R (Suc n)) =
      (if dpos_leader_for_round c (of_nat n) = Some a then Suc (card (?R n)) else card (?R n))"
    by simp
  then show ?case
    using Suc by (simp add: count_leader_get Let_def add.commute del: card_0_eq)
qed simp

text \<open>
  C36: leadership is proportional to stake: over one cycle of as many rounds as there is stake, every
  member with stake leads exactly as many rounds as it has stake, provided addresses are distinct
  and the total stake fits in 64 bits.
\<close>

theorem leadership_proportional_to_stake:
  fixes candidates config epoch
  defines "c \<equiv> select_committee candidates config epoch"
  assumes "distinct (map vs_address candidates)" and "(\<Sum>m \<leftarrow> co_members c. unat (vs_stake m)) < 2 ^ 64"
    and "m \<in> set (co_members c)" and "0 < vs_stake m"
  shows "map_of (expected_leader_distribution c (co_total_stake c)) (vs_address m) = Some (vs_stake m)"
proof -
  let ?ms = "co_members c" and ?T = "committee.stake_sum (co_members c)"
  have T: "?T < 2 ^ 64" using assms(3) .
  have uT: "unat (co_total_stake c) = ?T"
    using committee.total_stake [OF T] by (simp add: c_def select_committee_def Let_def)
  have pos: "0 < ?T" using committee.stake_le_sum [OF assms(4)] assms(5) by (simp add: word_less_nat_alt)
  have lead: "dpos_leader_for_round c (of_nat r) = owner_of_position (of_nat r) 0 ?ms" if "r < ?T" for r
  proof -
    have "(of_nat r :: u64) mod co_total_stake c = of_nat r"
      using that T by (simp add: word_unat_eq_iff unat_mod unat_of_nat_lt uT)
    moreover have "unat (co_total_stake c) \<noteq> 0" using pos uT by linarith
    then have "co_total_stake c \<noteq> 0" "?ms \<noteq> []" using assms(4) by auto
    ultimately show ?thesis
      using committee.pick_found [of 0 ?ms r] T that
      by (auto simp: dpos_leader_for_round_def Let_def simp del: owner_of_position.simps)
  qed
  have dist: "distinct (map vs_address ?ms)"
    using assms(2) by (simp add: c_def select_committee_def Let_def distinct_map_filter take_map [symmetric] distinct_take)
  have "card {r \<in> {0..<?T}. dpos_leader_for_round c (of_nat r) = Some (vs_address m)} = unat (vs_stake m)"
    using committee.pick_share [OF T dist assms(4)] lead by (simp cong: conj_cong)
  then show ?thesis
    using count_leader_counts [OF T, of c "vs_address m"] assms(5)
    by (simp add: expected_leader_distribution_def uT unat_eq_0 Let_def)
qed

theorem leadership_proportional_to_stake_witness:
  "map_of (expected_leader_distribution (select_committee demo_candidates demo_dpos_config 0)
     (co_total_stake (select_committee demo_candidates demo_dpos_config 0))) ''b'' = Some 3"
proof -
  have m: "co_members (select_committee demo_candidates demo_dpos_config 0) = [demo_candidates ! 1, demo_candidates ! 0]"
    by (simp add: select_committee_def demo_candidates_def demo_dpos_config_def sort_by_def stake_order_def Let_def)
  have "map_of (expected_leader_distribution (select_committee demo_candidates demo_dpos_config 0)
      (co_total_stake (select_committee demo_candidates demo_dpos_config 0))) (vs_address (demo_candidates ! 1)) =
      Some (vs_stake (demo_candidates ! 1))"
    by (rule leadership_proportional_to_stake) (simp_all add: m, simp_all add: demo_candidates_def)
  then show ?thesis by (simp add: demo_candidates_def)
qed

end
