(* ===== verification/Governance.thy ===== *)
theory Governance
  imports Cerulean_Prelude
begin

text \<open>
  On-chain governance: the parameter registry (\<open>src/governance/params.rs\<close>), the life cycle of
  proposals with their deposits (\<open>src/governance/proposals.rs\<close>) and stake-weighted voting with
  delegation (\<open>src/governance/voting.rs\<close>).  The maps behind mutexes are fields of one record per
  store; operations return the updated store and their result.
\<close>

section \<open>Parameters\<close>

datatype param_value = PU64 u64 | PBool bool | PString string

type_synonym param_registry = "(string, param_value) hash_map"

definition params_with_defaults :: param_registry where
  "params_with_defaults = foldl (\<lambda>m (k, v). hm_insert k (PU64 v) m) []
     [(''max_block_size'', 500), (''min_tx_fee'', 1), (''base_fee_adjustment_factor'', 8),
      (''slash_percent'', 5), (''min_stake'', 1000), (''proposal_deposit'', 10000),
      (''voting_period_blocks'', 17280), (''timelock_blocks'', 5760), (''quorum_percent'', 33),
      (''pass_threshold_percent'', 67)]"

definition param_get :: "param_registry \<Rightarrow> string \<Rightarrow> param_value option" where
  "param_get r key = map_of r key"

definition get_u64 :: "param_registry \<Rightarrow> string \<Rightarrow> u64 \<Rightarrow> u64" where
  "get_u64 r key dflt = (case param_get r key of Some (PU64 v) \<Rightarrow> v | _ \<Rightarrow> dflt)"

definition param_set :: "param_registry \<Rightarrow> string \<Rightarrow> param_value \<Rightarrow> param_registry" where
  "param_set r key v = hm_insert key v r"

definition param_list :: "param_registry \<Rightarrow> (string \<times> param_value) list" where
  "param_list r = r"

section \<open>Proposals\<close>

type_synonym proposal_id = u64

datatype proposal_status = Voting | Passed | Rejected | Executed | Cancelled | Expired

datatype proposal_action =
    ParamChange "(string \<times> param_value) list"
  | TextProposal string string

record proposal =
  pr_id :: proposal_id
  pr_proposer :: string
  pr_action :: proposal_action
  pr_status :: proposal_status
  pr_deposit :: u64
  pr_submitted_at :: u64
  pr_voting_ends_at :: u64
  pr_timelock_ends_at :: "u64 option"
  pr_finalized_at :: "u64 option"
  pr_description :: string

datatype proposal_error =
    NotFound proposal_id
  | InsufficientDeposit u64 u64
  | InvalidState string proposal_status
  | VotingNotEnded u64
  | TimelockNotExpired u64
  | EmptyChanges
  | NotProposer
  | NotAuthorized
  | RateLimited u64

record submit_params =
  sp_proposer :: string
  sp_action :: proposal_action
  sp_description :: string
  sp_deposit :: u64
  sp_required_deposit :: u64
  sp_current_height :: u64
  sp_voting_period :: u64

record proposal_store =
  ps_proposals :: "(proposal_id, proposal) hash_map"
  ps_next_id :: proposal_id
  ps_locked_deposits :: "(string, u64) hash_map"
  ps_last_submission :: "(string, u64) hash_map"

definition PROPOSAL_RATE_LIMIT_BLOCKS :: u64 where
  "PROPOSAL_RATE_LIMIT_BLOCKS = 100"

definition proposal_store_new :: proposal_store where
  "proposal_store_new = \<lparr>ps_proposals = [], ps_next_id = 1, ps_locked_deposits = [], ps_last_submission = []\<rparr>"

definition get_or_zero :: "(string, u64) hash_map \<Rightarrow> string \<Rightarrow> u64" where
  "get_or_zero m k = (case map_of m k of Some v \<Rightarrow> v | None \<Rightarrow> 0)"

definition new_proposal :: "proposal_id \<Rightarrow> submit_params \<Rightarrow> proposal" where
  "new_proposal i p =
     \<lparr>pr_id = i, pr_proposer = sp_proposer p, pr_action = sp_action p, pr_status = Voting,
      pr_deposit = sp_deposit p, pr_submitted_at = sp_current_height p,
      pr_voting_ends_at = sat_add (sp_current_height p) (sp_voting_period p),
      pr_timelock_ends_at = None, pr_finalized_at = None, pr_description = sp_description p\<rparr>"

definition rate_limited :: "proposal_store \<Rightarrow> submit_params \<Rightarrow> u64 option" where
  "rate_limited s p =
     (case map_of (ps_last_submission s) (sp_proposer p) of
        Some last_height \<Rightarrow>
          if sp_current_height p < last_height + PROPOSAL_RATE_LIMIT_BLOCKS
          then Some (last_height + PROPOSAL_RATE_LIMIT_BLOCKS) else None
      | None \<Rightarrow> None)"

definition submit :: "proposal_store \<Rightarrow> submit_params \<Rightarrow> proposal_store \<times> (proposal_error + proposal_id)" where
  "submit s p =
     (if sp_deposit p < sp_required_deposit p
      then (s, Inl (InsufficientDeposit (sp_required_deposit p) (sp_deposit p)))
      else if sp_action p = ParamChange [] then (s, Inl EmptyChanges)
      else (case rate_limited s p of
          Some wait_until \<Rightarrow> (s, Inl (RateLimited wait_until))
        | None \<Rightarrow>
            let i = ps_next_id s in
            (\<lparr>ps_proposals = hm_insert i (new_proposal i p) (ps_proposals s),
              ps_next_id = i + 1,
              ps_locked_deposits =
                hm_insert (sp_proposer p) (get_or_zero (ps_locked_deposits s) (sp_proposer p) + sp_deposit p)
                  (ps_locked_deposits s),
              ps_last_submission =
                hm_insert (sp_proposer p) (sp_current_height p) (ps_last_submission s)\<rparr>,
             Inr i)))"

definition locked_deposit_for :: "proposal_store \<Rightarrow> string \<Rightarrow> u64" where
  "locked_deposit_for s proposer = get_or_zero (ps_locked_deposits s) proposer"

definition refund_deposit :: "proposal_store \<Rightarrow> string \<Rightarrow> u64 \<Rightarrow> proposal_store" where
  "refund_deposit s proposer amount =
     (case map_of (ps_locked_deposits s) proposer of
        None \<Rightarrow> s
      | Some locked \<Rightarrow>
          let total' = sat_sub locked amount in
          s\<lparr>ps_locked_deposits :=
             (if total' = 0 then hm_remove proposer (ps_locked_deposits s)
              else hm_insert proposer total' (ps_locked_deposits s))\<rparr>)"

definition get_proposal :: "proposal_store \<Rightarrow> proposal_id \<Rightarrow> proposal option" where
  "get_proposal s i = map_of (ps_proposals s) i"

definition put_proposal :: "proposal_store \<Rightarrow> proposal_id \<Rightarrow> proposal \<Rightarrow> proposal_store" where
  "put_proposal s i p = s\<lparr>ps_proposals := hm_insert i p (ps_proposals s)\<rparr>"

definition mark_passed ::
    "proposal_store \<Rightarrow> proposal_id \<Rightarrow> u64 \<Rightarrow> u64 \<Rightarrow> proposal_store \<times> (proposal_error + unit)" where
  "mark_passed s i current_height timelock_blocks =
     (case get_proposal s i of
        None \<Rightarrow> (s, Inl (NotFound i))
      | Some p \<Rightarrow>
          if pr_status p \<noteq> Voting then (s, Inl (InvalidState ''Voting'' (pr_status p)))
          else if current_height < pr_voting_ends_at p then (s, Inl (VotingNotEnded (pr_voting_ends_at p)))
          else (put_proposal s i
                  (p\<lparr>pr_status := Passed, pr_timelock_ends_at := Some (current_height + timelock_blocks)\<rparr>),
                Inr ()))"

definition mark_rejected ::
    "proposal_store \<Rightarrow> proposal_id \<Rightarrow> u64 \<Rightarrow> proposal_store \<times> (proposal_error + unit)" where
  "mark_rejected s i current_height =
     (case get_proposal s i of
        None \<Rightarrow> (s, Inl (NotFound i))
      | Some p \<Rightarrow>
          if pr_status p \<noteq> Voting then (s, Inl (InvalidState ''Voting'' (pr_status p)))
          else (refund_deposit
                  (put_proposal s i (p\<lparr>pr_status := Rejected, pr_finalized_at := Some current_height\<rparr>))
                  (pr_proposer p) (pr_deposit p),
                Inr ()))"

definition timelock_pending :: "proposal \<Rightarrow> u64 \<Rightarrow> u64 option" where
  "timelock_pending p current_height =
     (case pr_timelock_ends_at p of Some lock \<Rightarrow> if current_height < lock then Some lock else None | None \<Rightarrow> None)"

definition mark_executed ::
    "proposal_store \<Rightarrow> proposal_id \<Rightarrow> u64 \<Rightarrow> proposal_store \<times> (proposal_error + proposal)" where
  "mark_executed s i current_height =
     (case get_proposal s i of
        None \<Rightarrow> (s, Inl (NotFound i))
      | Some p \<Rightarrow>
          if pr_status p \<noteq> Passed then (s, Inl (InvalidState ''Passed'' (pr_status p)))
          else (case timelock_pending p current_height of
                  Some lock \<Rightarrow> (s, Inl (TimelockNotExpired lock))
                | None \<Rightarrow>
                    let p' = p\<lparr>pr_status := Executed, pr_finalized_at := Some current_height\<rparr> in
                    (refund_deposit (put_proposal s i p') (pr_proposer p') (pr_deposit p'), Inr p')))"

definition cancel ::
    "proposal_store \<Rightarrow> proposal_id \<Rightarrow> string \<Rightarrow> u64 \<Rightarrow> proposal_store \<times> (proposal_error + proposal)" where
  "cancel s i caller current_height =
     (case get_proposal s i of
        None \<Rightarrow> (s, Inl (NotFound i))
      | Some p \<Rightarrow>
          if pr_proposer p \<noteq> caller then (s, Inl NotProposer)
          else if pr_status p \<noteq> Voting then (s, Inl (InvalidState ''Voting'' (pr_status p)))
          else
            let p' = p\<lparr>pr_status := Cancelled, pr_finalized_at := Some current_height\<rparr> in
            (refund_deposit (put_proposal s i p') (pr_proposer p') (pr_deposit p'), Inr p'))"

definition list_by_status :: "proposal_store \<Rightarrow> proposal_status \<Rightarrow> proposal list" where
  "list_by_status s status = filter (\<lambda>p. pr_status p = status) (map snd (ps_proposals s))"

definition list_all_proposals :: "proposal_store \<Rightarrow> proposal list" where
  "list_all_proposals s = sort_by (\<lambda>a b. pr_id a \<le> pr_id b) (map snd (ps_proposals s))"

definition load_proposal :: "proposal_store \<Rightarrow> proposal \<Rightarrow> proposal_store" where
  "load_proposal s p =
     s\<lparr>ps_next_id := (if pr_id p \<ge> ps_next_id s then pr_id p + 1 else ps_next_id s),
       ps_proposals := hm_insert (pr_id p) p (ps_proposals s)\<rparr>"

definition proposal_count :: "proposal_store \<Rightarrow> nat" where
  "proposal_count s = length (ps_proposals s)"

definition emergency_veto ::
    "proposal_store \<Rightarrow> proposal_id \<Rightarrow> string \<Rightarrow> string list \<Rightarrow> u64
      \<Rightarrow> proposal_store \<times> (proposal_error + proposal)" where
  "emergency_veto s i caller authorized_vetoers current_height =
     (if \<not> list_ex (\<lambda>a. a = caller) authorized_vetoers then (s, Inl NotAuthorized)
      else (case get_proposal s i of
              None \<Rightarrow> (s, Inl (NotFound i))
            | Some p \<Rightarrow>
                if pr_status p = Executed \<or> pr_status p = Cancelled
                then (s, Inl (InvalidState ''Voting or Passed'' (pr_status p)))
                else
                  let p' = p\<lparr>pr_status := Cancelled, pr_finalized_at := Some current_height\<rparr> in
                  (refund_deposit (put_proposal s i p') (pr_proposer p') (pr_deposit p'), Inr p')))"

section \<open>Votes\<close>

datatype vote_option = Yes | No | Abstain

record vote =
  vt_voter :: string
  vt_proposal_id :: proposal_id
  vt_option :: vote_option
  vt_power :: u64
  vt_voted_at :: u64

record tally_result =
  ta_proposal_id :: proposal_id
  ta_yes_power :: u64
  ta_no_power :: u64
  ta_abstain_power :: u64
  ta_total_voted_power :: u64
  ta_total_staked_power :: u64
  ta_quorum_reached :: bool
  ta_passed :: bool

datatype voting_error =
    AlreadyVoted proposal_id
  | ZeroPower
  | VotingEnded proposal_id
  | SelfDelegation
  | CircularDelegation
  | HasDelegated

record vote_store =
  vs_votes :: "(proposal_id, (string, vote) hash_map) hash_map"
  vs_delegations :: "(string, string) hash_map"

definition vote_store_new :: vote_store where
  "vote_store_new = \<lparr>vs_votes = [], vs_delegations = []\<rparr>"

definition delegate :: "vote_store \<Rightarrow> string \<Rightarrow> string \<Rightarrow> vote_store \<times> (voting_error + unit)" where
  "delegate s delegator delegatee =
     (if delegator = delegatee then (s, Inl SelfDelegation)
      else if map_of (vs_delegations s) delegatee = Some delegator then (s, Inl CircularDelegation)
      else (s\<lparr>vs_delegations := hm_insert delegator delegatee (vs_delegations s)\<rparr>, Inr ()))"

definition undelegate :: "vote_store \<Rightarrow> string \<Rightarrow> vote_store" where
  "undelegate s delegator = s\<lparr>vs_delegations := hm_remove delegator (vs_delegations s)\<rparr>"

definition get_delegate :: "vote_store \<Rightarrow> string \<Rightarrow> string option" where
  "get_delegate s delegator = map_of (vs_delegations s) delegator"

definition get_delegators :: "vote_store \<Rightarrow> string \<Rightarrow> string list" where
  "get_delegators s delegatee = map fst (filter (\<lambda>(_, d). d = delegatee) (vs_delegations s))"

definition votes_of :: "vote_store \<Rightarrow> proposal_id \<Rightarrow> (string, vote) hash_map" where
  "votes_of s i = (case map_of (vs_votes s) i of Some m \<Rightarrow> m | None \<Rightarrow> [])"

definition cast_vote ::
    "vote_store \<Rightarrow> proposal_id \<Rightarrow> string \<Rightarrow> vote_option \<Rightarrow> u64 \<Rightarrow> u64 \<Rightarrow> u64
      \<Rightarrow> vote_store \<times> (voting_error + unit)" where
  "cast_vote s i voter opt pow current_height voting_ends_at =
     (if pow = 0 then (s, Inl ZeroPower)
      else if current_height \<ge> voting_ends_at then (s, Inl (VotingEnded i))
      else if hm_contains voter (vs_delegations s) then (s, Inl HasDelegated)
      else
        let proposal_votes = votes_of s i in
        if hm_contains voter proposal_votes
        then (s\<lparr>vs_votes := hm_insert i proposal_votes (vs_votes s)\<rparr>, Inl (AlreadyVoted i))
        else (s\<lparr>vs_votes := hm_insert i
                 (hm_insert voter \<lparr>vt_voter = voter, vt_proposal_id = i, vt_option = opt, vt_power = pow,
                    vt_voted_at = current_height\<rparr> proposal_votes) (vs_votes s)\<rparr>,
              Inr ()))"

fun count_votes :: "u64 \<times> u64 \<times> u64 \<Rightarrow> vote list \<Rightarrow> u64 \<times> u64 \<times> u64" where
  "count_votes (yes, no, abstain) [] = (yes, no, abstain)"
| "count_votes (yes, no, abstain) (v # vs) =
     count_votes
       (case vt_option v of
          Yes \<Rightarrow> (sat_add yes (vt_power v), no, abstain)
        | No \<Rightarrow> (yes, sat_add no (vt_power v), abstain)
        | Abstain \<Rightarrow> (yes, no, sat_add abstain (vt_power v))) vs"

definition tally :: "vote_store \<Rightarrow> proposal_id \<Rightarrow> u64 \<Rightarrow> u64 \<Rightarrow> u64 \<Rightarrow> tally_result" where
  "tally s i total_staked_power quorum_percent pass_threshold_percent =
     (let (yes, no, abstain) = count_votes (0, 0, 0) (map snd (votes_of s i));
          total_voted = sat_add (sat_add yes no) abstain;
          quorum_reached = (total_staked_power > 0 \<and>
            sat_mul total_voted 100 div total_staked_power \<ge> quorum_percent);
          yes_no_total = sat_add yes no;
          passed = (quorum_reached \<and> yes_no_total > 0 \<and>
            sat_mul yes 100 div yes_no_total \<ge> pass_threshold_percent) in
      \<lparr>ta_proposal_id = i, ta_yes_power = yes, ta_no_power = no, ta_abstain_power = abstain,
       ta_total_voted_power = total_voted, ta_total_staked_power = total_staked_power,
       ta_quorum_reached = quorum_reached, ta_passed = passed\<rparr>)"

definition get_votes :: "vote_store \<Rightarrow> proposal_id \<Rightarrow> vote list" where
  "get_votes s i = map snd (votes_of s i)"

definition load_vote :: "vote_store \<Rightarrow> vote \<Rightarrow> vote_store" where
  "load_vote s v =
     s\<lparr>vs_votes := hm_insert (vt_proposal_id v) (hm_insert (vt_voter v) v (votes_of s (vt_proposal_id v)))
        (vs_votes s)\<rparr>"

definition get_vote :: "vote_store \<Rightarrow> proposal_id \<Rightarrow> string \<Rightarrow> vote option" where
  "get_vote s i voter = Option.bind (map_of (vs_votes s) i) (\<lambda>m. map_of m voter)"

definition votes_by_voter :: "vote_store \<Rightarrow> string \<Rightarrow> vote list" where
  "votes_by_voter s voter = List.map_filter (\<lambda>(_, m). map_of m voter) (vs_votes s)"

section \<open>Deposits and life cycle: correctness\<close>

datatype gov_op =
    Submit submit_params
  | MarkPassed proposal_id u64 u64
  | MarkRejected proposal_id u64
  | MarkExecuted proposal_id u64
  | Cancel proposal_id string u64
  | Veto proposal_id string "string list" u64

fun apply_op :: "proposal_store \<Rightarrow> gov_op \<Rightarrow> proposal_store" where
  "apply_op s (Submit p) = fst (submit s p)"
| "apply_op s (MarkPassed i h t) = fst (mark_passed s i h t)"
| "apply_op s (MarkRejected i h) = fst (mark_rejected s i h)"
| "apply_op s (MarkExecuted i h) = fst (mark_executed s i h)"
| "apply_op s (Cancel i c h) = fst (cancel s i c h)"
| "apply_op s (Veto i c vs h) = fst (emergency_veto s i c vs h)"

definition active :: "proposal \<Rightarrow> bool" where
  "active p \<longleftrightarrow> pr_status p = Voting \<or> pr_status p = Passed"



definition deposit_of :: "string \<Rightarrow> proposal \<Rightarrow> nat" where
  "deposit_of a p = (if pr_proposer p = a \<and> active p then unat (pr_deposit p) else 0)"

definition active_total :: "proposal_store \<Rightarrow> string \<Rightarrow> nat" where
  "active_total s a = hm_total (deposit_of a) (ps_proposals s)"





lemma refund_proposals [simp]:
  "ps_proposals (refund_deposit s p amount) = ps_proposals s" "ps_next_id (refund_deposit s p amount) = ps_next_id s"
  by (auto simp: refund_deposit_def Let_def split: option.splits)

lemma put_proposal_simps [simp]:
  "get_proposal (put_proposal s i p) j = (if j = i then Some p else get_proposal s j)"
  "ps_next_id (put_proposal s i p) = ps_next_id s"
  "locked_deposit_for (put_proposal s i p) a = locked_deposit_for s a"
  by (auto simp: put_proposal_def get_proposal_def locked_deposit_for_def)















definition demo_submit :: submit_params where
  "demo_submit = \<lparr>sp_proposer = ''a'', sp_action = TextProposal ''t'' ''d'', sp_description = ''d'',
     sp_deposit = 10, sp_required_deposit = 10, sp_current_height = 1, sp_voting_period = 5\<rparr>"

lemmas demo_gov_simps = demo_submit_def proposal_store_new_def submit_def rate_limited_def new_proposal_def
  get_or_zero_def hm_insert_def hm_remove_def mark_passed_def mark_executed_def mark_rejected_def emergency_veto_def
  get_proposal_def put_proposal_def refund_deposit_def timelock_pending_def locked_deposit_for_def sat_add_def
  sat_sub_def Let_def PROPOSAL_RATE_LIMIT_BLOCKS_def


text \<open>
  A veto also accepts a proposal that was already rejected and returns its deposit a second time,
  taken from the deposit that another open proposal of the same proposer still locks.
\<close>

theorem veto_refunds_twice:
  "\<exists>ops s. s = foldl apply_op proposal_store_new ops \<and> active_total s ''a'' = 10 \<and> locked_deposit_for s ''a'' = 0"
proof -
  let ?ops = "[Submit demo_submit, Submit (demo_submit\<lparr>sp_current_height := 200\<rparr>), MarkRejected 1 201,
    Veto 1 ''admin'' [''admin''] 202]"
  have "active_total (foldl apply_op proposal_store_new ?ops) ''a'' = 10"
    by (simp add: demo_gov_simps active_total_def hm_total_def deposit_of_def active_def)
  moreover have "locked_deposit_for (foldl apply_op proposal_store_new ?ops) ''a'' = 0"
    by (simp add: demo_gov_simps)
  ultimately show ?thesis by blast
qed

section \<open>Voting: correctness\<close>

definition power_of :: "vote_option \<Rightarrow> vote \<Rightarrow> nat" where
  "power_of opt v = (if vt_option v = opt then unat (vt_power v) else 0)"

definition cast_power :: "vote_store \<Rightarrow> proposal_id \<Rightarrow> vote_option \<Rightarrow> nat" where
  "cast_power s i opt = (\<Sum>v \<leftarrow> get_votes s i. power_of opt v)"

lemma sat_add_min: "unat (sat_add a b) = min (unat a + unat b) (2 ^ 64 - 1)" for a b :: u64
  by (simp add: unat_sat_add)

lemma min_min_add: "min (min a m + b) m = min (a + b) m" for a b m :: nat
  by simp

lemma count_votes_sums:
  assumes "count_votes (y, n, a) vs = (y', n', a')"
  shows "unat y' = min (unat y + (\<Sum>v \<leftarrow> vs. power_of Yes v)) (2 ^ 64 - 1) \<and>
    unat n' = min (unat n + (\<Sum>v \<leftarrow> vs. power_of No v)) (2 ^ 64 - 1) \<and>
    unat a' = min (unat a + (\<Sum>v \<leftarrow> vs. power_of Abstain v)) (2 ^ 64 - 1)"
  using assms
proof (induction vs arbitrary: y n a)
  case Nil
  have "unat x \<le> 2 ^ 64 - 1" for x :: u64 using u64_bound [of x] by (simp add: less_Suc_eq_le [symmetric])
  then show ?case using Nil by (auto simp: min_absorb1)
next
  case (Cons v vs)
  then show ?case
    by (cases "vt_option v") (auto simp: sat_add_min power_of_def min_min_add add.assoc dest!: Cons.IH)
qed

lemma percent_test:
  fixes x t q :: u64
  assumes "unat x * 100 < 2 ^ 64" and "0 < t"
  shows "q \<le> sat_mul x 100 div t \<longleftrightarrow> unat q * unat t \<le> 100 * unat x"
proof -
  have "unat (sat_mul x 100 div t) = unat x * 100 div unat t"
    using assms(1) by (simp add: unat_div unat_sat_mul)
  then show ?thesis
    using assms(2) less_eq_div_iff_mult_less_eq [of "unat t" "unat q" "unat x * 100"]
    by (simp add: word_le_nat_alt word_less_nat_alt mult.commute)
qed

text \<open>
  The outcome of a tally is the exact one: with the powers of the recorded votes summed per option
  in unbounded arithmetic, a proposal passes exactly when the votes cast reach the quorum share of
  the staked power and the yes votes reach the threshold share of the yes and no votes, as long as a
  hundred times the cast power fits in 64 bits.
\<close>

theorem tally_exact:
  fixes s i
  defines "yes \<equiv> cast_power s i Yes" and "no \<equiv> cast_power s i No" and "abstain \<equiv> cast_power s i Abstain"
  assumes "(yes + no + abstain) * 100 < 2 ^ 64"
  shows "ta_passed (tally s i staked quorum threshold) \<longleftrightarrow>
    0 < staked \<and> unat quorum * unat staked \<le> 100 * (yes + no + abstain) \<and>
    0 < yes + no \<and> unat threshold * (yes + no) \<le> 100 * yes"
proof -
  obtain y n a where c: "count_votes (0, 0, 0) (map snd (votes_of s i)) = (y, n, a)"
    by (cases "count_votes (0, 0, 0) (map snd (votes_of s i))")
  have u: "unat y = yes" "unat n = no" "unat a = abstain"
    using count_votes_sums [OF c] assms(4)
    by (auto simp: yes_def no_def abstain_def cast_power_def get_votes_def)
  have yn: "unat (sat_add y n) = yes + no" using assms(4) u by (simp add: sat_add_min)
  have yna: "unat (sat_add (sat_add y n) a) = yes + no + abstain" using assms(4) u yn by (simp add: sat_add_min)
  have "0 < sat_add y n \<longleftrightarrow> 0 < yes + no" using yn by (simp add: word_less_nat_alt)
  moreover have "quorum \<le> sat_mul (sat_add (sat_add y n) a) 100 div staked \<longleftrightarrow>
      unat quorum * unat staked \<le> 100 * (yes + no + abstain)" if "0 < staked"
    using percent_test [OF _ that, of "sat_add (sat_add y n) a" quorum] yna assms(4) by simp
  moreover have "threshold \<le> sat_mul y 100 div sat_add y n \<longleftrightarrow> unat threshold * (yes + no) \<le> 100 * yes"
    if "0 < sat_add y n"
    using percent_test [OF _ that, of y threshold] yn u assms(4) by simp
  ultimately show ?thesis by (auto simp: tally_def c Let_def)
qed

lemma cast_vote_accepts:
  assumes "0 < pow" and "h < end_h" and "get_delegate s w = None" and "get_vote s i w = None"
  obtains s' v where "cast_vote s i w opt pow h end_h = (s', Inr ())" and "get_vote s' i w = Some v"
    and "vt_power v = pow" and "\<And>u. u \<noteq> w \<Longrightarrow> get_vote s' i u = get_vote s i u"
proof -
  have "\<not> hm_contains w (vs_delegations s)" using assms(3) by (simp add: get_delegate_def hm_contains_def)
  moreover have "\<not> hm_contains w (votes_of s i)"
    using assms(4) by (cases "map_of (vs_votes s) i") (simp_all add: get_vote_def hm_contains_def votes_of_def)
  ultimately have "cast_vote s i w opt pow h end_h =
      (s\<lparr>vs_votes := hm_insert i (hm_insert w \<lparr>vt_voter = w, vt_proposal_id = i, vt_option = opt, vt_power = pow,
          vt_voted_at = h\<rparr> (votes_of s i)) (vs_votes s)\<rparr>, Inr ())"
    using assms(1,2) by (simp add: cast_vote_def Let_def word_gt_0 not_le)
  then show ?thesis using that by (simp add: get_vote_def votes_of_def split: option.splits)
qed

definition demo_votes :: vote_store where
  "demo_votes = fst (cast_vote (fst (cast_vote vote_store_new 1 ''a'' Yes 70 5 10)) 1 ''b'' No 30 6 10)"

theorem tally_exact_witness:
  "ta_passed (tally demo_votes 1 200 33 67) \<longleftrightarrow>
    0 < (200 :: u64) \<and> unat (33 :: u64) * unat (200 :: u64) \<le> 100 * (cast_power demo_votes 1 Yes +
      cast_power demo_votes 1 No + cast_power demo_votes 1 Abstain) \<and>
    0 < cast_power demo_votes 1 Yes + cast_power demo_votes 1 No \<and>
    unat (67 :: u64) * (cast_power demo_votes 1 Yes + cast_power demo_votes 1 No) \<le> 100 * cast_power demo_votes 1 Yes"
  by (rule tally_exact)
    (simp add: demo_votes_def cast_vote_def vote_store_new_def votes_of_def hm_contains_def hm_insert_def Let_def
      cast_power_def get_votes_def power_of_def)

text \<open>
  A vote is final: no later vote on any proposal changes or removes a recorded vote, a second vote
  of the same voter is refused, and no vote is recorded after the end of the voting period, without
  power, or for a voter that has delegated.
\<close>

theorem votes_are_final:
  assumes "cast_vote s i voter opt pow h end_h = (s', res)"
  shows "(\<forall>j w v. get_vote s j w = Some v \<longrightarrow> get_vote s' j w = Some v) \<and>
    (res = Inr () \<longleftrightarrow> 0 < pow \<and> h < end_h \<and> get_delegate s voter = None \<and> get_vote s i voter = None) \<and>
    (res = Inr () \<longrightarrow> (\<exists>v. get_vote s' i voter = Some v \<and> vt_option v = opt \<and> vt_power v = pow)) \<and>
    (res \<noteq> Inr () \<longrightarrow> (\<forall>j w. get_vote s' j w = get_vote s j w))"
  using assms
  by (auto simp: cast_vote_def get_vote_def votes_of_def get_delegate_def hm_contains_def Let_def word_gt_0 not_le
      split: if_splits option.splits)

theorem votes_are_final_witness:
  "get_vote demo_votes 1 ''a'' = Some \<lparr>vt_voter = ''a'', vt_proposal_id = 1, vt_option = Yes, vt_power = 70, vt_voted_at = 5\<rparr>"
proof -
  let ?s = "fst (cast_vote vote_store_new 1 ''a'' Yes 70 5 10)"
  have "cast_vote ?s 1 ''b'' No 30 6 10 = (demo_votes, snd (cast_vote ?s 1 ''b'' No 30 6 10))"
    by (simp add: demo_votes_def)
  from votes_are_final [OF this] have "get_vote ?s 1 ''a'' = Some v \<longrightarrow> get_vote demo_votes 1 ''a'' = Some v" for v
    by blast
  moreover have "get_vote ?s 1 ''a'' =
      Some \<lparr>vt_voter = ''a'', vt_proposal_id = 1, vt_option = Yes, vt_power = 70, vt_voted_at = 5\<rparr>"
    by (simp add: cast_vote_def vote_store_new_def votes_of_def get_vote_def hm_contains_def hm_insert_def Let_def)
  ultimately show ?thesis by blast
qed

text \<open>
  The check for circular delegation only looks one step ahead: three voters can delegate to each
  other in a cycle, after which none of them may vote.
\<close>

theorem delegation_cycle_of_three:
  "\<exists>s. (\<exists>s1 s2. delegate vote_store_new ''a'' ''b'' = (s1, Inr ()) \<and> delegate s1 ''b'' ''c'' = (s2, Inr ()) \<and>
       delegate s2 ''c'' ''a'' = (s, Inr ())) \<and>
     map (\<lambda>v. snd (cast_vote s 1 v Yes 5 0 10)) [''a'', ''b'', ''c''] = replicate 3 (Inl HasDelegated)"
  by (simp add: delegate_def vote_store_new_def hm_insert_def cast_vote_def hm_contains_def numeral_3_eq_3)

end
