(* ===== verification/Governance_Api.thy ===== *)
theory Governance_Api
  imports Governance Endorsement
begin

text \<open>
  The HTTP handlers of \<open>src/api/handlers/governance.rs\<close> that change governance state, on top of
  the stores of \<open>Governance\<close>: submission, voting, delegation, veto, closing and execution.  A
  request that is refused returns the reason; HTTP codes and JSON are left out.  The staking
  manager, the chain height, the block store, the organization registry, the environment variable
  for permissive mode and the cryptographic functions are the fields of \<open>gov_env\<close>.
\<close>

section \<open>State and environment\<close>

record 'st gov_state =
  gs_proposal_store :: "proposal_store option"
  gs_vote_store :: "vote_store option"
  gs_param_registry :: "param_registry option"
  gs_store :: 'st

record 'st gov_env =
  ge_chain_height :: u64
  ge_staked_amount :: "string \<Rightarrow> u64 option"
  ge_active_stakes :: "u64 list"
  ge_orgs :: "organization list option"
  ge_lowercase :: "string \<Rightarrow> string"
  ge_permissive :: bool
  ge_write_proposal :: "'st \<Rightarrow> proposal \<Rightarrow> 'st"
  ge_write_vote :: "'st \<Rightarrow> vote \<Rightarrow> 'st"
  ge_hex_decode :: "string \<Rightarrow> bytes option"
  ge_hex_encode :: "bytes \<Rightarrow> string"
  ge_sha256 :: "bytes \<Rightarrow> bytes"
  ge_key_ok :: "bytes \<Rightarrow> bool"
  ge_verify :: "bytes \<Rightarrow> bytes \<Rightarrow> bytes \<Rightarrow> bool"

datatype api_reason =
    FieldEmpty string
  | FieldTooLong string nat
  | FieldNullBytes string
  | TooManyChanges nat
  | ParamOutOfRange string
  | NotConfigured
  | NoSuchProposal proposal_id
  | InsufficientStake u64 u64
  | BadPublicKey
  | BadSignatureHex
  | SignatureFailed
  | DidMismatch
  | NoVotingPower
  | ProposalFailed proposal_error
  | VotingFailed voting_error

definition persist_proposal :: "'st gov_env \<Rightarrow> 'st gov_state \<Rightarrow> proposal \<Rightarrow> 'st gov_state" where
  "persist_proposal env st p = st\<lparr>gs_store := ge_write_proposal env (gs_store st) p\<rparr>"

definition persist_vote :: "'st gov_env \<Rightarrow> 'st gov_state \<Rightarrow> vote \<Rightarrow> 'st gov_state" where
  "persist_vote env st v = st\<lparr>gs_store := ge_write_vote env (gs_store st) v\<rparr>"

section \<open>Requests and their validation\<close>

datatype proposal_action_request =
    ParamChangeRequest "(string \<times> u64) list"
  | TextProposalRequest string string

record submit_proposal_request =
  sr_proposer :: string
  sr_description :: string
  sr_deposit :: u64
  sr_action :: proposal_action_request

record cast_vote_request =
  vr_voter :: string
  vr_option :: vote_option
  vr_signature :: "string option"
  vr_public_key :: "string option"
  vr_nonce :: "string option"

definition validate_param_value :: "string \<Rightarrow> u64 \<Rightarrow> api_reason option" where
  "validate_param_value key v =
     (if (key = ''quorum_percent'' \<or> key = ''pass_threshold_percent'') \<and> (v = 0 \<or> v > 100)
      then Some (ParamOutOfRange key)
      else if key = ''voting_period_blocks'' \<and> v = 0 then Some (ParamOutOfRange key)
      else None)"

definition validate_bounded :: "string \<Rightarrow> string \<Rightarrow> nat \<Rightarrow> api_reason + unit" where
  "validate_bounded field v max_len =
     (if v = [] then Inl (FieldEmpty field)
      else if length v > max_len then Inl (FieldTooLong field max_len)
      else if List.member v (CHR 0x00) then Inl (FieldNullBytes field)
      else Inr ())"

fun validate_changes :: "(string \<times> u64) list \<Rightarrow> api_reason + unit" where
  "validate_changes [] = Inr ()"
| "validate_changes ((key, v) # cs) =
     (case validate_bounded ''key'' key 128 of
        Inl e \<Rightarrow> Inl e
      | Inr _ \<Rightarrow> (case validate_param_value key v of Some e \<Rightarrow> Inl e | None \<Rightarrow> validate_changes cs))"

definition validate_action :: "proposal_action_request \<Rightarrow> api_reason + unit" where
  "validate_action action =
     (case action of
        ParamChangeRequest changes \<Rightarrow>
          if length changes > 50 then Inl (TooManyChanges 50) else validate_changes changes
      | TextProposalRequest title description \<Rightarrow>
          (case validate_bounded ''title'' title 256 of
             Inl e \<Rightarrow> Inl e
           | Inr _ \<Rightarrow> validate_bounded ''description'' description 4096))"

definition total_staked_power :: "'st gov_env \<Rightarrow> u64" where
  "total_staked_power env = sum_list (ge_active_stakes env)"

definition voter_power :: "'st gov_env \<Rightarrow> 'st gov_state \<Rightarrow> string \<Rightarrow> u64" where
  "voter_power env st voter =
     (let own_stake = (case ge_staked_amount env voter of Some v \<Rightarrow> v | None \<Rightarrow> 0);
          delegated = (case gs_vote_store st of
              Some vs \<Rightarrow> sum_list (List.map_filter (ge_staked_amount env) (get_delegators vs voter))
            | None \<Rightarrow> 0) in
      own_stake + delegated)"

section \<open>Handlers\<close>

definition to_action :: "proposal_action_request \<Rightarrow> proposal_action" where
  "to_action action =
     (case action of
        ParamChangeRequest changes \<Rightarrow> ParamChange (map (\<lambda>(key, v). (key, PU64 v)) changes)
      | TextProposalRequest title description \<Rightarrow> TextProposal title description)"

definition stake_shortfall :: "'st gov_env \<Rightarrow> proposal_store \<Rightarrow> submit_proposal_request \<Rightarrow> api_reason option" where
  "stake_shortfall env store body =
     (if ge_permissive env then None
      else
        let proposer_stake = (case ge_staked_amount env (sr_proposer body) of Some v \<Rightarrow> v | None \<Rightarrow> 0);
            already_locked = locked_deposit_for store (sr_proposer body);
            available = sat_sub proposer_stake already_locked in
        if available < sr_deposit body then Some (InsufficientStake available (sr_deposit body)) else None)"

definition submit_governance_proposal ::
    "'st gov_env \<Rightarrow> 'st gov_state \<Rightarrow> submit_proposal_request \<Rightarrow> 'st gov_state \<times> (api_reason + proposal_id)" where
  "submit_governance_proposal env st body =
     (case validate_bounded ''proposer'' (sr_proposer body) 256 of Inl e \<Rightarrow> (st, Inl e) | Inr _ \<Rightarrow>
     (case validate_bounded ''description'' (sr_description body) 4096 of Inl e \<Rightarrow> (st, Inl e) | Inr _ \<Rightarrow>
     (case validate_action (sr_action body) of Inl e \<Rightarrow> (st, Inl e) | Inr _ \<Rightarrow>
     (case gs_proposal_store st of None \<Rightarrow> (st, Inl NotConfigured) | Some store \<Rightarrow>
     (case gs_param_registry st of None \<Rightarrow> (st, Inl NotConfigured) | Some registry \<Rightarrow>
     (case stake_shortfall env store body of Some e \<Rightarrow> (st, Inl e) | None \<Rightarrow>
     (case submit store
             \<lparr>sp_proposer = sr_proposer body, sp_action = to_action (sr_action body),
              sp_description = sr_description body, sp_deposit = sr_deposit body,
              sp_required_deposit = get_u64 registry ''proposal_deposit'' 10000,
              sp_current_height = ge_chain_height env,
              sp_voting_period = get_u64 registry ''voting_period_blocks'' 17280\<rparr> of
        (store', res) \<Rightarrow>
          let st' = st\<lparr>gs_proposal_store := Some store'\<rparr> in
          (case res of
             Inl e \<Rightarrow> (st', Inl (ProposalFailed e))
           | Inr i \<Rightarrow>
               (case get_proposal store' i of
                  Some p \<Rightarrow> (persist_proposal env st' p, Inr i)
                | None \<Rightarrow> (st', Inr i))))))))))"

fun option_str :: "vote_option \<Rightarrow> string" where
  "option_str Yes = ''Yes''"
| "option_str No = ''No''"
| "option_str Abstain = ''Abstain''"

definition vote_payload_string :: "proposal_id \<Rightarrow> vote_option \<Rightarrow> string \<Rightarrow> string" where
  "vote_payload_string i opt pk_hex = ''vote:'' @ show_u64 i @ '':'' @ option_str opt @ '':'' @ pk_hex"

definition check_vote_signature :: "'st gov_env \<Rightarrow> proposal_id \<Rightarrow> cast_vote_request \<Rightarrow> api_reason + unit" where
  "check_vote_signature env i body =
     (case (vr_signature body, vr_public_key body) of
        (Some sig_hex, Some pk_hex) \<Rightarrow>
          (case ge_hex_decode env pk_hex of
             None \<Rightarrow> Inl BadPublicKey
           | Some pk \<Rightarrow>
               if length pk \<noteq> 32 then Inl BadPublicKey
               else (case ge_hex_decode env sig_hex of
                 None \<Rightarrow> Inl BadSignatureHex
               | Some sig \<Rightarrow>
                   if length sig \<noteq> 64 then Inl BadSignatureHex
                   else if \<not> ge_key_ok env pk then Inl BadPublicKey
                   else if \<not> ge_verify env pk (str_bytes (vote_payload_string i (vr_option body) pk_hex)) sig
                   then Inl SignatureFailed
                   else if vr_voter body \<noteq> ''did:cerulean:'' @ ge_hex_encode env (take 20 (ge_sha256 env pk))
                   then Inl DidMismatch
                   else Inr ()))
      | _ \<Rightarrow> Inr ())"

definition effective_voter :: "'st gov_env \<Rightarrow> proposal_id \<Rightarrow> cast_vote_request \<Rightarrow> string" where
  "effective_voter env i body =
     (if vr_signature body \<noteq> None then
        let nonce = (case vr_nonce body of Some n \<Rightarrow> str_bytes n | None \<Rightarrow> []);
            blind = ge_sha256 env (to_le_bytes i @ str_bytes (vr_voter body) @ nonce) in
        ''blind:'' @ ge_hex_encode env (take 20 blind)
      else vr_voter body)"

definition resolve_power :: "'st gov_env \<Rightarrow> 'st gov_state \<Rightarrow> string \<Rightarrow> u64 option" where
  "resolve_power env st voter =
     (let real = voter_power env st voter in
      if real > 0 then Some real else if ge_permissive env then Some 1 else None)"

definition current_tally ::
    "'st gov_env \<Rightarrow> param_registry \<Rightarrow> vote_store \<Rightarrow> proposal_id \<Rightarrow> tally_result" where
  "current_tally env registry vs i =
     tally vs i (max (total_staked_power env) 1) (get_u64 registry ''quorum_percent'' 33)
       (get_u64 registry ''pass_threshold_percent'' 67)"

definition cast_governance_vote ::
    "'st gov_env \<Rightarrow> 'st gov_state \<Rightarrow> proposal_id \<Rightarrow> cast_vote_request \<Rightarrow> 'st gov_state \<times> (api_reason + tally_result)" where
  "cast_governance_vote env st i body =
     (case validate_bounded ''voter'' (vr_voter body) 256 of Inl e \<Rightarrow> (st, Inl e) | Inr _ \<Rightarrow>
     (case gs_vote_store st of None \<Rightarrow> (st, Inl NotConfigured) | Some votes \<Rightarrow>
     (case gs_proposal_store st of None \<Rightarrow> (st, Inl NotConfigured) | Some proposals \<Rightarrow>
     (case get_proposal proposals i of None \<Rightarrow> (st, Inl (NoSuchProposal i)) | Some proposal \<Rightarrow>
     (case check_vote_signature env i body of Inl e \<Rightarrow> (st, Inl e) | Inr _ \<Rightarrow>
     (case resolve_power env st (vr_voter body) of None \<Rightarrow> (st, Inl NoVotingPower) | Some pow \<Rightarrow>
     (case cast_vote votes i (effective_voter env i body) (vr_option body) pow (ge_chain_height env)
             (pr_voting_ends_at proposal) of
        (votes', res) \<Rightarrow>
          let st' = st\<lparr>gs_vote_store := Some votes'\<rparr> in
          (case res of
             Inl e \<Rightarrow> (st', Inl (VotingFailed e))
           | Inr _ \<Rightarrow>
               let st'' = (case get_vote votes' i (effective_voter env i body) of
                             Some v \<Rightarrow> persist_vote env st' v | None \<Rightarrow> st') in
               (case gs_param_registry st of
                  None \<Rightarrow> (st'', Inl NotConfigured)
                | Some registry \<Rightarrow> (st'', Inr (current_tally env registry votes' i)))))))))))"

definition execute_governance_proposal ::
    "'st gov_env \<Rightarrow> 'st gov_state \<Rightarrow> proposal_id \<Rightarrow> 'st gov_state \<times> (api_reason + proposal)" where
  "execute_governance_proposal env st i =
     (case gs_proposal_store st of None \<Rightarrow> (st, Inl NotConfigured) | Some store \<Rightarrow>
     (case mark_executed store i (ge_chain_height env) of
        (store', Inl e) \<Rightarrow> (st\<lparr>gs_proposal_store := Some store'\<rparr>, Inl (ProposalFailed e))
      | (store', Inr p) \<Rightarrow>
          let registry' =
                (case pr_action p of
                   ParamChange changes \<Rightarrow>
                     map_option (\<lambda>r. foldl (\<lambda>r (key, v). param_set r key v) r changes) (gs_param_registry st)
                 | TextProposal _ _ \<Rightarrow> gs_param_registry st);
              st' = st\<lparr>gs_proposal_store := Some store', gs_param_registry := registry'\<rparr> in
          (persist_proposal env st' p, Inr p)))"

definition delegate_vote ::
    "'st gov_state \<Rightarrow> string \<Rightarrow> string \<Rightarrow> 'st gov_state \<times> (api_reason + unit)" where
  "delegate_vote st delegator delegatee =
     (case validate_bounded ''delegator'' delegator 256 of Inl e \<Rightarrow> (st, Inl e) | Inr _ \<Rightarrow>
     (case validate_bounded ''delegate'' delegatee 256 of Inl e \<Rightarrow> (st, Inl e) | Inr _ \<Rightarrow>
     (case gs_vote_store st of None \<Rightarrow> (st, Inl NotConfigured) | Some votes \<Rightarrow>
     (case delegate votes delegator delegatee of
        (votes', Inl e) \<Rightarrow> (st\<lparr>gs_vote_store := Some votes'\<rparr>, Inl (VotingFailed e))
      | (votes', Inr _) \<Rightarrow> (st\<lparr>gs_vote_store := Some votes'\<rparr>, Inr ())))))"

definition contains_str :: "string \<Rightarrow> string \<Rightarrow> bool" where
  "contains_str part s = list_ex (\<lambda>k. take (length part) (drop k s) = part) [0..<Suc (length s)]"

definition authorized_vetoers :: "'st gov_env \<Rightarrow> string list" where
  "authorized_vetoers env =
     (case ge_orgs env of
        None \<Rightarrow> []
      | Some orgs \<Rightarrow> map og_msp_id (filter (\<lambda>og. contains_str ''admin'' (ge_lowercase env (og_msp_id og))) orgs))"

definition veto_governance_proposal ::
    "'st gov_env \<Rightarrow> 'st gov_state \<Rightarrow> proposal_id \<Rightarrow> string \<Rightarrow> 'st gov_state \<times> (api_reason + proposal)" where
  "veto_governance_proposal env st i caller =
     (case validate_bounded ''caller'' caller 256 of Inl e \<Rightarrow> (st, Inl e) | Inr _ \<Rightarrow>
     (case gs_proposal_store st of None \<Rightarrow> (st, Inl NotConfigured) | Some store \<Rightarrow>
     (case emergency_veto store i caller (authorized_vetoers env) (ge_chain_height env) of
        (store', Inl e) \<Rightarrow> (st\<lparr>gs_proposal_store := Some store'\<rparr>, Inl (ProposalFailed e))
      | (store', Inr p) \<Rightarrow> (persist_proposal env (st\<lparr>gs_proposal_store := Some store'\<rparr>) p, Inr p))))"

definition close_governance_voting ::
    "'st gov_env \<Rightarrow> 'st gov_state \<Rightarrow> proposal_id \<Rightarrow> 'st gov_state \<times> (api_reason + proposal option)" where
  "close_governance_voting env st i =
     (case gs_proposal_store st of None \<Rightarrow> (st, Inl NotConfigured) | Some store \<Rightarrow>
     (case gs_vote_store st of None \<Rightarrow> (st, Inl NotConfigured) | Some votes \<Rightarrow>
     (case gs_param_registry st of None \<Rightarrow> (st, Inl NotConfigured) | Some registry \<Rightarrow>
     (case (if ta_passed (current_tally env registry votes i)
            then mark_passed store i (ge_chain_height env) (get_u64 registry ''timelock_blocks'' 5760)
            else mark_rejected store i (ge_chain_height env)) of
        (store', Inl e) \<Rightarrow> (st\<lparr>gs_proposal_store := Some store'\<rparr>, Inl (ProposalFailed e))
      | (store', Inr _) \<Rightarrow>
          let st' = st\<lparr>gs_proposal_store := Some store'\<rparr> in
          (case get_proposal store' i of
             Some p \<Rightarrow> (persist_proposal env st' p, Inr (Some p))
           | None \<Rightarrow> (st', Inr None))))))"

definition tally_governance_votes ::
    "'st gov_env \<Rightarrow> 'st gov_state \<Rightarrow> proposal_id \<Rightarrow> api_reason + tally_result" where
  "tally_governance_votes env st i =
     (case gs_vote_store st of None \<Rightarrow> Inl NotConfigured | Some votes \<Rightarrow>
     (case gs_param_registry st of None \<Rightarrow> Inl NotConfigured | Some registry \<Rightarrow>
        Inr (current_tally env registry votes i)))"

section \<open>Sequences of requests\<close>

datatype gov_call =
    SubmitCall submit_proposal_request
  | VoteCall proposal_id cast_vote_request
  | ExecuteCall proposal_id
  | DelegateCall string string
  | VetoCall proposal_id string
  | CloseCall proposal_id

fun gov_step :: "'st gov_env \<Rightarrow> 'st gov_state \<Rightarrow> gov_call \<Rightarrow> 'st gov_state" where
  "gov_step env st (SubmitCall body) = fst (submit_governance_proposal env st body)"
| "gov_step env st (VoteCall i body) = fst (cast_governance_vote env st i body)"
| "gov_step env st (ExecuteCall i) = fst (execute_governance_proposal env st i)"
| "gov_step env st (DelegateCall a b) = fst (delegate_vote st a b)"
| "gov_step env st (VetoCall i caller) = fst (veto_governance_proposal env st i caller)"
| "gov_step env st (CloseCall i) = fst (close_governance_voting env st i)"

definition gov_start :: "'st \<Rightarrow> 'st gov_state" where
  "gov_start store0 = \<lparr>gs_proposal_store = Some proposal_store_new, gs_vote_store = Some vote_store_new,
     gs_param_registry = Some params_with_defaults, gs_store = store0\<rparr>"






lemma refund_get [simp]: "get_proposal (refund_deposit s a x) i = get_proposal s i"
  by (simp add: get_proposal_def)




















definition demo_gov_env :: "u64 \<Rightarrow> unit gov_env" where
  "demo_gov_env height = \<lparr>ge_chain_height = height, ge_staked_amount = \<lambda>v. if v = ''alice'' then Some 100 else None,
     ge_active_stakes = [100], ge_orgs = None, ge_lowercase = \<lambda>s. s, ge_permissive = True,
     ge_write_proposal = \<lambda>st _. st, ge_write_vote = \<lambda>st _. st, ge_hex_decode = \<lambda>s. Some (str_bytes s),
     ge_hex_encode = map (\<lambda>b. char_of (unat b)), ge_sha256 = \<lambda>b. rev b, ge_key_ok = \<lambda>_. True,
     ge_verify = \<lambda>_ _ _. True\<rparr>"

definition demo_change :: submit_proposal_request where
  "demo_change = \<lparr>sr_proposer = ''alice'', sr_description = ''d'', sr_deposit = 10000,
     sr_action = ParamChangeRequest [(''quorum_percent'', 40)]\<rparr>"


text \<open>
  A signed vote is stored under a hash that includes a nonce chosen by the client.  A voter whose
  signed vote was accepted can repeat it with another nonce: unless the two hashes collide, or the
  new one is already used or delegated, the second vote is accepted too, and the stake of the voter
  counts twice.
\<close>

theorem signed_vote_repeatable:
  assumes "cast_governance_vote env st i body = (st', Inr r)" and "vr_signature body \<noteq> None"
    and "gs_vote_store st' = Some votes'"
    and "effective_voter env i (body\<lparr>vr_nonce := n\<rparr>) \<noteq> effective_voter env i body"
    and "get_vote votes' i (effective_voter env i (body\<lparr>vr_nonce := n\<rparr>)) = None"
    and "get_delegate votes' (effective_voter env i (body\<lparr>vr_nonce := n\<rparr>)) = None"
  shows "\<exists>st'' r' votes'' v v'. cast_governance_vote env st' i (body\<lparr>vr_nonce := n\<rparr>) = (st'', Inr r') \<and>
    gs_vote_store st'' = Some votes'' \<and>
    get_vote votes'' i (effective_voter env i body) = Some v \<and>
    get_vote votes'' i (effective_voter env i (body\<lparr>vr_nonce := n\<rparr>)) = Some v' \<and> vt_power v' = vt_power v"
proof -
  let ?body = "body\<lparr>vr_nonce := n\<rparr>"
  obtain votes proposals p registry pow where pre:
      "validate_bounded ''voter'' (vr_voter body) 256 = Inr ()" "gs_vote_store st = Some votes"
      "gs_proposal_store st = Some proposals" "get_proposal proposals i = Some p"
      "check_vote_signature env i body = Inr ()" "resolve_power env st (vr_voter body) = Some pow"
      "cast_vote votes i (effective_voter env i body) (vr_option body) pow (ge_chain_height env) (pr_voting_ends_at p) =
        (votes', Inr ())"
      "gs_param_registry st = Some registry" "gs_proposal_store st' = Some proposals"
      "gs_param_registry st' = Some registry"
    using assms(1,3)
    by (auto simp: cast_governance_vote_def persist_vote_def Let_def split: sum.splits option.splits prod.splits)
  have first: "0 < pow" "ge_chain_height env < pr_voting_ends_at p" "vs_delegations votes' = vs_delegations votes"
      "\<exists>v. get_vote votes' i (effective_voter env i body) = Some v \<and> vt_power v = pow"
    using pre(7)
    by (auto simp: cast_vote_def get_vote_def Let_def word_gt_0 split: if_splits)
  have power: "resolve_power env st' (vr_voter ?body) = Some pow"
    using pre(2,6) assms(3) first(3) by (simp add: resolve_power_def voter_power_def get_delegators_def)
  obtain votes'' v' where second: "cast_vote votes' i (effective_voter env i ?body) (vr_option ?body) pow
      (ge_chain_height env) (pr_voting_ends_at p) = (votes'', Inr ())"
      "get_vote votes'' i (effective_voter env i ?body) = Some v'" "vt_power v' = pow"
      "get_vote votes'' i (effective_voter env i body) = get_vote votes' i (effective_voter env i body)"
    using cast_vote_accepts [OF first(1,2) assms(6,5)] assms(4) by metis
  have same: "vr_signature ?body = vr_signature body" "vr_public_key ?body = vr_public_key body"
      "vr_option ?body = vr_option body" "vr_voter ?body = vr_voter body"
    by simp_all
  have sig: "check_vote_signature env i ?body = Inr ()" using pre(5) unfolding check_vote_signature_def same .
  have val: "validate_bounded ''voter'' (vr_voter ?body) 256 = Inr ()" using pre(1) by simp
  have "\<exists>st'' r'. cast_governance_vote env st' i ?body = (st'', Inr r') \<and> gs_vote_store st'' = Some votes''"
    using second(1,2) unfolding cast_governance_vote_def val sig power pre(9,10) assms(3)
    by (auto simp: pre(4) persist_vote_def Let_def)
  then show ?thesis using second(2-4) first(4) by metis
qed

definition demo_signed_vote :: cast_vote_request where
  "demo_signed_vote = \<lparr>vr_voter = ''alice'', vr_option = Yes, vr_signature = Some ''sig'', vr_public_key = None,
     vr_nonce = Some ''x''\<rparr>"

definition demo_open_state :: "unit gov_state" where
  "demo_open_state = gov_step (demo_gov_env 1) (gov_start ()) (SubmitCall demo_change)"

lemmas demo_api_simps = demo_open_state_def demo_gov_env_def gov_start_def demo_change_def
  submit_governance_proposal_def validate_bounded_def validate_action_def validate_param_value_def stake_shortfall_def
  persist_proposal_def to_action_def get_u64_def param_get_def params_with_defaults_def demo_gov_simps

lemma demo_open_state_eq:
  "\<exists>ps p. demo_open_state = \<lparr>gs_proposal_store = Some ps, gs_vote_store = Some vote_store_new,
     gs_param_registry = Some params_with_defaults, gs_store = ()\<rparr> \<and>
     get_proposal ps 1 = Some p \<and> pr_status p = Voting \<and> pr_voting_ends_at p = 17281 \<and> pr_proposer p = ''alice'' \<and>
     ps_locked_deposits ps = [(''alice'', 10000)]"
  by (simp add: demo_api_simps)

lemma demo_voter_ids:
  "effective_voter (demo_gov_env h) 1 (demo_signed_vote\<lparr>vr_nonce := Some ''y''\<rparr>) \<noteq>
   effective_voter (demo_gov_env h) 1 demo_signed_vote"
  by (simp add: effective_voter_def demo_signed_vote_def demo_gov_env_def Let_def str_bytes_def)

theorem signed_vote_repeatable_witness:
  "\<exists>st st' st'' r r'. cast_governance_vote (demo_gov_env 2) st 1 demo_signed_vote = (st', Inr r) \<and>
     cast_governance_vote (demo_gov_env 2) st' 1 (demo_signed_vote\<lparr>vr_nonce := Some ''y''\<rparr>) = (st'', Inr r')"
proof -
  let ?env = "demo_gov_env 2" and ?w = "effective_voter (demo_gov_env 2) 1 demo_signed_vote"
  obtain ps p where st: "demo_open_state = \<lparr>gs_proposal_store = Some ps, gs_vote_store = Some vote_store_new,
      gs_param_registry = Some params_with_defaults, gs_store = ()\<rparr>"
      "get_proposal ps 1 = Some p" "pr_status p = Voting" "pr_voting_ends_at p = 17281"
    using demo_open_state_eq by blast
  have pos: "0 < (100 :: u64)" "(2 :: u64) < 17281"
    and empty: "get_delegate vote_store_new ?w = None" "get_vote vote_store_new 1 ?w = None"
    by (simp_all add: get_delegate_def vote_store_new_def get_vote_def)
  obtain votes' v where cast: "cast_vote vote_store_new 1 ?w Yes 100 2 17281 = (votes', Inr ())"
      "get_vote votes' 1 ?w = Some v" "\<And>u. u \<noteq> ?w \<Longrightarrow> get_vote votes' 1 u = get_vote vote_store_new 1 u"
    using cast_vote_accepts [OF pos empty, of Yes] by blast
  have deleg: "vs_delegations votes' = []"
    using cast(1) by (auto simp: cast_vote_def vote_store_new_def Let_def split: if_splits)
  have "\<exists>st' r. cast_governance_vote ?env demo_open_state 1 demo_signed_vote = (st', Inr r) \<and>
      gs_vote_store st' = Some votes'"
    using cast(1,2) st(2,4)
    by (simp add: st(1) cast_governance_vote_def validate_bounded_def check_vote_signature_def resolve_power_def
        voter_power_def get_delegators_def vote_store_new_def demo_signed_vote_def demo_gov_env_def persist_vote_def Let_def)
  then obtain st' r where run: "cast_governance_vote ?env demo_open_state 1 demo_signed_vote = (st', Inr r)"
      "gs_vote_store st' = Some votes'" by blast
  have "vr_signature demo_signed_vote \<noteq> None" by (simp add: demo_signed_vote_def)
  moreover have "get_vote votes' 1 (effective_voter ?env 1 (demo_signed_vote\<lparr>vr_nonce := Some ''y''\<rparr>)) = None"
    using cast(3) demo_voter_ids by (simp add: get_vote_def vote_store_new_def)
  ultimately show ?thesis
    using signed_vote_repeatable [OF run(1) _ run(2) demo_voter_ids] run(1) deleg
    by (auto simp: get_delegate_def)
qed

text \<open>
  Closing does not check that the voting period is over before it rejects: a call made early, while
  the tally does not pass yet, ends the proposal as rejected.
\<close>

theorem close_rejects_early:
  assumes "gs_proposal_store st = Some store" and "gs_vote_store st = Some votes"
    and "gs_param_registry st = Some registry" and "get_proposal store i = Some p" and "pr_status p = Voting"
    and "ge_chain_height env < pr_voting_ends_at p" and "\<not> ta_passed (current_tally env registry votes i)"
  shows "\<exists>st' p'. close_governance_voting env st i = (st', Inr (Some p')) \<and> pr_status p' = Rejected \<and>
    ge_chain_height env < pr_voting_ends_at p'"
  using assms by (simp add: close_governance_voting_def mark_rejected_def Let_def)

theorem close_rejects_early_witness:
  "\<exists>st' p'. close_governance_voting (demo_gov_env 2) demo_open_state 1 = (st', Inr (Some p')) \<and>
     pr_status p' = Rejected \<and> 2 < pr_voting_ends_at p'"
proof -
  obtain ps p where st: "demo_open_state = \<lparr>gs_proposal_store = Some ps, gs_vote_store = Some vote_store_new,
      gs_param_registry = Some params_with_defaults, gs_store = ()\<rparr>"
      "get_proposal ps 1 = Some p" "pr_status p = Voting" "pr_voting_ends_at p = 17281"
    using demo_open_state_eq by blast
  have h: "ge_chain_height (demo_gov_env 2) = 2" by (simp add: demo_gov_env_def)
  have "\<not> ta_passed (current_tally (demo_gov_env 2) params_with_defaults vote_store_new 1)"
    by (simp add: current_tally_def tally_def votes_of_def vote_store_new_def sat_add_def)
  moreover have "gs_proposal_store demo_open_state = Some ps" "gs_vote_store demo_open_state = Some vote_store_new"
      "gs_param_registry demo_open_state = Some params_with_defaults"
    by (simp_all add: st(1))
  ultimately show ?thesis
    using close_rejects_early [where env = "demo_gov_env 2" and i = 1, OF _ _ _ st(2,3)] st(4) by (auto simp: h)
qed

end
