(* ===== verification/Tokenomics.thy ===== *)
theory Tokenomics
  imports Cerulean_Prelude
begin

text \<open>
  Token economics (\<open>src/tokenomics/economics.rs\<close>: issuance, fee split, dynamic base fee and the
  per-block transition) and storage deposits (\<open>src/tokenomics/storage_deposit.rs\<close>).  The
  floating-point target utilization of one half of 500 transactions is the constant 250; the
  informational inflation percentage, a floating-point number, is left out.
\<close>

section \<open>Issuance, fees and base fee\<close>

definition MAX_SUPPLY :: u64 where "MAX_SUPPLY = 100000000"
definition INITIAL_BLOCK_REWARD :: u64 where "INITIAL_BLOCK_REWARD = 50"
definition HALVING_INTERVAL :: u64 where "HALVING_INTERVAL = 210000"
definition FEE_BURN_PERCENT :: u64 where "FEE_BURN_PERCENT = 80"
definition MIN_TX_FEE :: u64 where "MIN_TX_FEE = 1"
definition TARGET_TXS :: u64 where "TARGET_TXS = 250"
definition BASE_FEE_ADJUSTMENT_FACTOR :: u64 where "BASE_FEE_ADJUSTMENT_FACTOR = 8"
definition MIN_BASE_FEE :: u64 where "MIN_BASE_FEE = 1"
definition BLOCKS_PER_EPOCH :: u64 where "BLOCKS_PER_EPOCH = 11520"

lemmas econ_constants = MAX_SUPPLY_def INITIAL_BLOCK_REWARD_def HALVING_INTERVAL_def FEE_BURN_PERCENT_def
  MIN_TX_FEE_def TARGET_TXS_def BASE_FEE_ADJUSTMENT_FACTOR_def MIN_BASE_FEE_def BLOCKS_PER_EPOCH_def

record economics_state =
  ec_height :: u64
  ec_total_minted :: u64
  ec_total_burned :: u64
  ec_base_fee :: u64
  ec_epoch :: u64
  ec_epoch_fees :: u64

definition default_economics :: economics_state where
  "default_economics = \<lparr>ec_height = 0, ec_total_minted = 0, ec_total_burned = 0, ec_base_fee = MIN_BASE_FEE,
     ec_epoch = 0, ec_epoch_fees = 0\<rparr>"

definition circulating_supply :: "economics_state \<Rightarrow> u64" where
  "circulating_supply s = sat_sub (ec_total_minted s) (ec_total_burned s)"

definition supply_cap_reached :: "economics_state \<Rightarrow> bool" where
  "supply_cap_reached s \<longleftrightarrow> ec_total_minted s \<ge> MAX_SUPPLY"

definition current_epoch :: "economics_state \<Rightarrow> u64" where
  "current_epoch s = ec_height s div BLOCKS_PER_EPOCH"

definition block_reward :: "u64 \<Rightarrow> u64" where
  "block_reward height =
     (let halvings = height div HALVING_INTERVAL in
      if halvings \<ge> 64 then 0 else drop_bit (unat halvings) INITIAL_BLOCK_REWARD)"

definition capped_block_reward :: "u64 \<Rightarrow> u64 \<Rightarrow> u64" where
  "capped_block_reward height total_minted =
     (if total_minted \<ge> MAX_SUPPLY then 0
      else
        let reward = block_reward height; remaining = MAX_SUPPLY - total_minted in
        min reward remaining)"

record fee_split =
  fs_burn :: u64
  fs_proposer :: u64

definition split_fees :: "u64 \<Rightarrow> fee_split" where
  "split_fees total_fees =
     (let burn = (total_fees * FEE_BURN_PERCENT) div 100 in
      \<lparr>fs_burn = burn, fs_proposer = total_fees - burn\<rparr>)"

definition next_base_fee :: "u64 \<Rightarrow> u64 \<Rightarrow> u64" where
  "next_base_fee current_base_fee tx_count =
     (let target = TARGET_TXS in
      if tx_count = target then current_base_fee
      else
        let delta = current_base_fee div BASE_FEE_ADJUSTMENT_FACTOR in
        if tx_count > target then
          let excess = tx_count - target; increase = (delta * excess) div max target 1 in
          sat_add current_base_fee (max increase 1)
        else
          let deficit = target - tx_count; decrease = (delta * deficit) div max target 1 in
          max (sat_sub current_base_fee decrease) MIN_BASE_FEE)"

datatype fee_error = BelowBaseFee u64 u64 | BelowMinimum u64 u64

definition validate_tx_fee :: "u64 \<Rightarrow> u64 \<Rightarrow> fee_error + unit" where
  "validate_tx_fee tx_fee base_fee =
     (if tx_fee < base_fee then Inl (BelowBaseFee tx_fee base_fee)
      else if tx_fee < MIN_TX_FEE then Inl (BelowMinimum tx_fee MIN_TX_FEE)
      else Inr ())"

definition process_block :: "economics_state \<Rightarrow> u64 \<Rightarrow> u64 \<Rightarrow> economics_state \<times> fee_split \<times> u64" where
  "process_block s tx_count total_fees =
     (let reward = capped_block_reward (ec_height s) (ec_total_minted s);
          split = split_fees total_fees;
          new_base_fee = next_base_fee (ec_base_fee s) tx_count;
          new_height = ec_height s + 1;
          new_epoch = new_height div BLOCKS_PER_EPOCH;
          epoch_fees = (if new_epoch \<noteq> ec_epoch s then 0 else ec_epoch_fees s + total_fees) in
      (\<lparr>ec_height = new_height, ec_total_minted = ec_total_minted s + reward,
        ec_total_burned = ec_total_burned s + fs_burn split, ec_base_fee = new_base_fee,
        ec_epoch = new_epoch, ec_epoch_fees = epoch_fees\<rparr>, split, reward))"

section \<open>Storage deposits\<close>

definition DEPOSIT_PER_BYTE :: u64 where "DEPOSIT_PER_BYTE = 1"
definition MIN_DEPOSIT :: u64 where "MIN_DEPOSIT = 10"
definition MAX_ENTRY_SIZE :: nat where "MAX_ENTRY_SIZE = 65536"

record deposit_record =
  dr_depositor :: string
  dr_key :: string
  dr_amount :: u64
  dr_created_at :: u64

datatype deposit_error =
    InsufficientBalance u64 u64
  | EntryTooLarge nat nat
  | DepositNotFound string

definition calculate_deposit :: "string \<Rightarrow> bytes \<Rightarrow> deposit_error + u64" where
  "calculate_deposit key v =
     (let total_bytes = length key + length v in
      if total_bytes > MAX_ENTRY_SIZE then Inl (EntryTooLarge total_bytes MAX_ENTRY_SIZE)
      else Inr (max (of_nat total_bytes * DEPOSIT_PER_BYTE) MIN_DEPOSIT))"

record deposit_ledger =
  dl_deposits :: "(string, deposit_record) hash_map"
  dl_total_locked :: u64

definition deposit_ledger_new :: deposit_ledger where
  "deposit_ledger_new = \<lparr>dl_deposits = [], dl_total_locked = 0\<rparr>"

record deposit_result =
  de_deposit_amount :: u64
  de_refunded :: u64
  de_net_cost :: u64

definition lock_deposit ::
    "deposit_ledger \<Rightarrow> string \<Rightarrow> string \<Rightarrow> bytes \<Rightarrow> u64 \<Rightarrow> u64 \<Rightarrow> deposit_ledger \<times> (deposit_error + deposit_result)" where
  "lock_deposit l depositor key v block_height balance =
     (case calculate_deposit key v of
        Inl e \<Rightarrow> (l, Inl e)
      | Inr new_deposit \<Rightarrow>
          let refund = (case map_of (dl_deposits l) key of Some r \<Rightarrow> dr_amount r | None \<Rightarrow> 0);
              net_cost = sat_sub new_deposit refund in
          if net_cost > balance then (l, Inl (InsufficientBalance net_cost balance))
          else
            (\<lparr>dl_deposits = hm_insert key
                \<lparr>dr_depositor = depositor, dr_key = key, dr_amount = new_deposit, dr_created_at = block_height\<rparr>
                (dl_deposits l),
              dl_total_locked = sat_add (sat_sub (dl_total_locked l) refund) new_deposit\<rparr>,
             Inr \<lparr>de_deposit_amount = new_deposit, de_refunded = refund, de_net_cost = net_cost\<rparr>))"

definition refund_key :: "deposit_ledger \<Rightarrow> string \<Rightarrow> deposit_ledger \<times> (deposit_error + string \<times> u64)" where
  "refund_key l key =
     (case map_of (dl_deposits l) key of
        None \<Rightarrow> (l, Inl (DepositNotFound key))
      | Some r \<Rightarrow>
          (\<lparr>dl_deposits = hm_remove key (dl_deposits l),
            dl_total_locked = sat_sub (dl_total_locked l) (dr_amount r)\<rparr>,
           Inr (dr_depositor r, dr_amount r)))"

definition get_deposit :: "deposit_ledger \<Rightarrow> string \<Rightarrow> deposit_record option" where
  "get_deposit l key = map_of (dl_deposits l) key"

definition deposit_count :: "deposit_ledger \<Rightarrow> nat" where
  "deposit_count l = length (dl_deposits l)"

section \<open>Correctness of the economics\<close>

definition run_blocks :: "(u64 \<times> u64) list \<Rightarrow> economics_state" where
  "run_blocks bs = foldl (\<lambda>s (tx_count, fees). fst (process_block s tx_count fees)) default_economics bs"

definition issued :: "nat \<Rightarrow> nat" where
  "issued n = (\<Sum>h<n. 50 div 2 ^ (h div 210000))"

lemma block_reward_nat: "unat (block_reward h) = 50 div 2 ^ (unat h div 210000)"
proof (cases "h div HALVING_INTERVAL \<ge> 64")
  case True
  then have "64 \<le> unat h div 210000" by (simp add: econ_constants word_le_nat_alt unat_div)
  then have "(2::nat) ^ 6 \<le> 2 ^ (unat h div 210000)" by (intro power_increasing) auto
  then have "50 div 2 ^ (unat h div 210000) = (0::nat)" by simp
  then show ?thesis using True by (simp add: block_reward_def Let_def)
next
  case False
  then have "unat h div 210000 < 64" by (simp add: econ_constants word_le_nat_alt unat_div)
  then have "unat (2 ^ (unat h div 210000) :: u64) = 2 ^ (unat h div 210000)" by (intro unat_2_power) simp
  then show ?thesis
    using False by (simp add: block_reward_def Let_def econ_constants drop_bit_eq_div unat_div)
qed

lemma issued_step: "issued (Suc n) = issued n + 50 div 2 ^ (n div 210000)"
  by (simp add: issued_def)

lemma issued_interval:
  assumes "n \<le> 210000"
  shows "issued (k * 210000 + n) = issued (k * 210000) + n * (50 div 2 ^ k)"
  using assms
proof (induction n)
  case (Suc n)
  have "(k * 210000 + n) div 210000 = k" using Suc.prems by simp
  then show ?case using Suc by (simp add: issued_step)
qed simp

lemma issued_bound: "issued n \<le> 20370000"
proof -
  have step: "issued ((k + 1) * 210000) = issued (k * 210000) + 210000 * (50 div 2 ^ k)" for k
    using issued_interval [of 210000 k] by (simp add: algebra_simps)
  have zero: "issued 0 = 0" by (simp add: issued_def)
  have six: "issued (6 * 210000) = 20370000"
    using step [of 0] step [of 1] step [of 2] step [of 3] step [of 4] step [of 5] zero by simp
  have mono: "issued a \<le> issued b" if "a \<le> b" for a b
    unfolding issued_def using that by (intro sum_mono2) auto
  have late: "issued (6 * 210000 + m) = issued (6 * 210000)" for m
  proof (induction m)
    case (Suc m)
    have "6 \<le> (6 * 210000 + m) div 210000" by simp
    then have "(2::nat) ^ 6 \<le> 2 ^ ((6 * 210000 + m) div 210000)" by (intro power_increasing) auto
    then have "50 div 2 ^ ((6 * 210000 + m) div 210000) = (0::nat)" by simp
    then show ?case using Suc issued_step [of "6 * 210000 + m"] by simp
  qed simp
  show ?thesis
  proof (cases "n \<le> 6 * 210000")
    case True
    then show ?thesis using mono [OF True] six by simp
  next
    case False
    then obtain m where "n = 6 * 210000 + m" by (metis le_add_diff_inverse nat_le_linear)
    then show ?thesis using late six by simp
  qed
qed

lemma capped_reward_le: "m \<le> MAX_SUPPLY \<Longrightarrow> m + capped_block_reward h m \<le> MAX_SUPPLY"
proof (cases "m = MAX_SUPPLY")
  case False
  assume "m \<le> MAX_SUPPLY"
  then have lt: "unat m < 100000000" using False by (simp add: econ_constants word_le_nat_alt word_unat_eq_iff)
  have "unat (capped_block_reward h m) \<le> unat (MAX_SUPPLY - m)"
    using lt by (simp add: capped_block_reward_def Let_def min_def word_le_nat_alt)
  also have "\<dots> = 100000000 - unat m" using lt by (simp add: econ_constants unat_sub word_le_nat_alt)
  finally have "unat m + unat (capped_block_reward h m) \<le> 100000000" using lt by simp
  then show ?thesis using lt by (simp add: econ_constants word_le_nat_alt unat_add_no_wrap)
qed (simp add: capped_block_reward_def)

text \<open>
  C33: the supply cap holds: however many blocks are processed, with whatever fees and transaction
  counts, the total ever minted stays within the maximum supply.
\<close>

theorem supply_cap_holds: "ec_total_minted (run_blocks bs) \<le> MAX_SUPPLY"
proof -
  have "ec_total_minted (foldl (\<lambda>s (tx_count, fees). fst (process_block s tx_count fees)) s bs) \<le> MAX_SUPPLY"
    if "ec_total_minted s \<le> MAX_SUPPLY" for s
    using that
  proof (induction bs arbitrary: s)
    case (Cons b bs)
    have "ec_total_minted (fst (process_block s (fst b) (snd b))) \<le> MAX_SUPPLY"
      using capped_reward_le [OF Cons.prems] by (simp add: process_block_def Let_def)
    then show ?case using Cons.IH by (simp add: case_prod_beta)
  qed simp
  then show ?thesis by (simp add: run_blocks_def default_economics_def)
qed

lemma run_blocks_snoc:
  "run_blocks (bs @ [b]) = fst (process_block (run_blocks bs) (fst b) (snd b))"
  by (simp add: run_blocks_def case_prod_beta)

lemma run_blocks_issued:
  "length bs < 2 ^ 64 \<Longrightarrow>
     ec_height (run_blocks bs) = of_nat (length bs) \<and> unat (ec_total_minted (run_blocks bs)) = issued (length bs)"
proof (induction bs rule: rev_induct)
  case Nil
  then show ?case by (simp add: run_blocks_def default_economics_def issued_def)
next
  case (snoc b bs)
  let ?s = "run_blocks bs" and ?r = "50 div 2 ^ (length bs div 210000) :: nat"
  have ih: "ec_height ?s = of_nat (length bs)" "unat (ec_total_minted ?s) = issued (length bs)"
    using snoc by simp_all
  have uh: "unat (ec_height ?s) = length bs" using ih(1) snoc.prems by (simp add: unat_of_nat_lt)
  have bound: "issued (length bs) + ?r \<le> 20370000" using issued_bound [of "Suc (length bs)"] by (simp add: issued_step)
  have rew: "unat (block_reward (ec_height ?s)) = ?r" by (simp add: block_reward_nat uh)
  have "block_reward (ec_height ?s) \<le> MAX_SUPPLY - ec_total_minted ?s"
    using bound rew ih(2) by (simp add: word_le_nat_alt econ_constants unat_sub)
  moreover have "\<not> ec_total_minted ?s \<ge> MAX_SUPPLY"
    using bound ih(2) by (simp add: word_le_nat_alt econ_constants)
  ultimately have "capped_block_reward (ec_height ?s) (ec_total_minted ?s) = block_reward (ec_height ?s)"
    by (simp add: capped_block_reward_def Let_def min_def)
  then have "ec_total_minted (run_blocks (bs @ [b])) = ec_total_minted ?s + block_reward (ec_height ?s)"
    by (simp add: run_blocks_snoc process_block_def Let_def)
  then have "unat (ec_total_minted (run_blocks (bs @ [b]))) = issued (length (bs @ [b]))"
    using bound rew ih(2) by (simp add: unat_add_no_wrap issued_step)
  then show ?case by (simp add: run_blocks_snoc process_block_def Let_def ih(1))
qed

text \<open>
  The issuance follows the halving schedule exactly: after any number of blocks the amount minted
  is the sum of the rewards of the schedule, and that sum never exceeds 20,370,000, a fifth of the
  supply cap, so the cap is never what limits a reward.
\<close>

theorem issuance_follows_schedule:
  assumes "length bs < 2 ^ 64"
  shows "unat (ec_total_minted (run_blocks bs)) = (\<Sum>h<length bs. 50 div 2 ^ (h div 210000)) \<and>
    ec_total_minted (run_blocks bs) \<le> 20370000"
  using run_blocks_issued [OF assms] issued_bound [of "length bs"] by (simp add: issued_def word_le_nat_alt)

theorem issuance_follows_schedule_witness:
  "unat (ec_total_minted (run_blocks [(10, 5), (300, 7)])) =
     (\<Sum>h<length [(10 :: u64, 5 :: u64), (300, 7)]. 50 div 2 ^ (h div 210000)) \<and>
   ec_total_minted (run_blocks [(10, 5), (300, 7)]) \<le> 20370000"
  by (rule issuance_follows_schedule) simp

text \<open>
  As long as eighty times the fees fit in 64 bits, the split of the fees of a block loses nothing:
  four fifths, rounded down, are burned and the proposer gets exactly the rest.
\<close>

theorem fee_split_conserves:
  assumes "unat total_fees * 80 < 2 ^ 64"
  shows "unat (fs_burn (split_fees total_fees)) = unat total_fees * 80 div 100 \<and>
    unat (fs_burn (split_fees total_fees)) + unat (fs_proposer (split_fees total_fees)) = unat total_fees"
proof -
  have "unat (total_fees * FEE_BURN_PERCENT) = unat total_fees * 80"
    using assms by (subst unat_mul_no_wrap) (simp_all add: econ_constants)
  then have burn: "unat (fs_burn (split_fees total_fees)) = unat total_fees * 80 div 100"
    by (simp add: split_fees_def Let_def unat_div)
  then have "fs_burn (split_fees total_fees) \<le> total_fees" by (simp add: word_le_nat_alt)
  moreover have "fs_proposer (split_fees total_fees) = total_fees - fs_burn (split_fees total_fees)"
    by (simp add: split_fees_def Let_def)
  ultimately show ?thesis using burn by (simp add: unat_sub word_le_nat_alt)
qed

theorem fee_split_conserves_witness:
  "unat (fs_burn (split_fees 1001)) = unat (1001 :: u64) * 80 div 100 \<and>
     unat (fs_burn (split_fees 1001)) + unat (fs_proposer (split_fees 1001)) = unat (1001 :: u64)"
  by (rule fee_split_conserves) simp

lemma unat_max: "unat (max a b) = max (unat a) (unat b)"
  by (simp add: max_def word_le_nat_alt)

lemma max_target: "max TARGET_TXS 1 = 250"
  by (simp add: econ_constants max_def word_le_nat_alt)

lemma base_fee_delta:
  assumes "unat b < 2 ^ 59" and "unat e \<le> 250"
  shows "unat (b div BASE_FEE_ADJUSTMENT_FACTOR * e div max TARGET_TXS 1) = unat b div 8 * unat e div 250"
    and "unat b div 8 * unat e div 250 \<le> unat b div 8"
proof -
  have "unat b div 8 * unat e \<le> unat b div 8 * 250" using assms(2) by (rule mult_le_mono2)
  also have "\<dots> < 2 ^ 64"
  proof -
    have "unat b div 8 * 8 \<le> unat b" by simp
    then show ?thesis using assms(1) by simp
  qed
  finally have "unat (b div BASE_FEE_ADJUSTMENT_FACTOR * e) = unat b div 8 * unat e"
    by (subst unat_mul_no_wrap) (simp_all add: econ_constants unat_div)
  then show "unat (b div BASE_FEE_ADJUSTMENT_FACTOR * e div max TARGET_TXS 1) = unat b div 8 * unat e div 250"
    by (simp add: max_target unat_div)
  show "unat b div 8 * unat e div 250 \<le> unat b div 8"
    using div_le_mono [OF mult_le_mono2 [OF assms(2), of "unat b div 8"], of 250] by simp
qed

lemma base_fee_up:
  assumes "unat b < 2 ^ 59" and "TARGET_TXS < t" and "t \<le> 500"
  shows "unat b < unat (next_base_fee b t)" and "unat (next_base_fee b t) \<le> unat b + max 1 (unat b div 8)"
proof -
  let ?x = "unat b div 8 * unat (t - TARGET_TXS) div 250"
  have e: "unat (t - TARGET_TXS) \<le> 250"
    using assms(2,3) by (simp add: econ_constants unat_sub word_less_nat_alt word_le_nat_alt)
  note d = base_fee_delta [OF assms(1) e]
  have "max ?x 1 \<le> unat b + 1" using d(2) by simp
  then have "unat b + max ?x 1 \<le> 2 ^ 64 - 1" using assms(1) by simp
  then have eq: "unat (next_base_fee b t) = unat b + max ?x 1"
    using assms(2) d(1) by (simp add: next_base_fee_def Let_def unat_sat_add unat_max less_imp_neq [symmetric])
  show "unat b < unat (next_base_fee b t)" unfolding eq by simp
  show "unat (next_base_fee b t) \<le> unat b + max 1 (unat b div 8)" unfolding eq using d(2) by simp
qed

lemma base_fee_down:
  assumes "MIN_BASE_FEE \<le> b" and "unat b < 2 ^ 59" and "t < TARGET_TXS"
  shows "unat (next_base_fee b t) \<le> unat b" and "unat b - unat b div 8 \<le> unat (next_base_fee b t)"
    and "1 \<le> unat (next_base_fee b t)"
proof -
  let ?x = "unat b div 8 * unat (TARGET_TXS - t) div 250"
  have e: "unat (TARGET_TXS - t) \<le> 250"
    using assms(3) by (simp add: econ_constants unat_sub word_less_nat_alt word_le_nat_alt)
  note d = base_fee_delta [OF assms(2) e]
  have "next_base_fee b t =
      max (sat_sub b (b div BASE_FEE_ADJUSTMENT_FACTOR * (TARGET_TXS - t) div max TARGET_TXS 1)) MIN_BASE_FEE"
    using assms(3) by (simp only: next_base_fee_def Let_def less_not_sym less_imp_neq if_False)
  then have eq: "unat (next_base_fee b t) = max (unat b - ?x) 1"
    by (simp only: unat_max unat_sat_sub d(1) MIN_BASE_FEE_def unat_1)
  have "1 \<le> unat b" using assms(1) by (simp add: econ_constants word_le_nat_alt)
  then show "unat (next_base_fee b t) \<le> unat b" unfolding eq by (rule max.boundedI [OF diff_le_self])
  show "unat b - unat b div 8 \<le> unat (next_base_fee b t)"
    unfolding eq by (rule order_trans [OF diff_le_mono2 [OF d(2)] max.cobounded1])
  show "1 \<le> unat (next_base_fee b t)" unfolding eq by (rule max.cobounded2)
qed

text \<open>
  The base fee moves by at most an eighth per block (or by one), stays put at the target, rises
  above it, never rises below it and never falls under the minimum; for fees below \<open>2 ^ 59\<close> and
  blocks of at most 500 transactions.
\<close>

theorem base_fee_step_bounded:
  assumes "MIN_BASE_FEE \<le> b" and "unat b < 2 ^ 59" and "tx_count \<le> 500"
  shows "1 \<le> unat (next_base_fee b tx_count) \<and>
    (tx_count = TARGET_TXS \<longrightarrow> next_base_fee b tx_count = b) \<and>
    (TARGET_TXS < tx_count \<longrightarrow> unat b < unat (next_base_fee b tx_count) \<and>
       unat (next_base_fee b tx_count) \<le> unat b + max 1 (unat b div 8)) \<and>
    (tx_count < TARGET_TXS \<longrightarrow> unat (next_base_fee b tx_count) \<le> unat b \<and>
       unat b - unat b div 8 \<le> unat (next_base_fee b tx_count))"
proof (cases tx_count TARGET_TXS rule: linorder_cases)
  case less
  then show ?thesis using base_fee_down [OF assms(1,2) less] by auto
next
  case equal
  then show ?thesis using assms(1) by (simp add: next_base_fee_def MIN_BASE_FEE_def word_le_nat_alt)
next
  case greater
  then show ?thesis using base_fee_up [OF assms(2) greater assms(3)] by auto
qed

theorem base_fee_step_bounded_witness:
  "1 \<le> unat (next_base_fee 80 400) \<and> unat (80 :: u64) < unat (next_base_fee 80 400)"
proof -
  have "MIN_BASE_FEE \<le> 80" "unat (80 :: u64) < 2 ^ 59" "(400 :: u64) \<le> 500" "TARGET_TXS < 400"
    by (simp_all add: econ_constants)
  then show ?thesis using base_fee_step_bounded [of 80 400] by blast
qed

text \<open>
  Below eight the base fee cannot fall: blocks under the target leave it unchanged, while any block
  over the target still raises it.
\<close>

theorem small_base_fee_never_falls:
  assumes "1 \<le> b" and "b < 8" and "tx_count < TARGET_TXS"
  shows "next_base_fee b tx_count = b"
proof -
  have "b div BASE_FEE_ADJUSTMENT_FACTOR = 0"
    using assms(2) by (simp add: econ_constants word_unat_eq_iff unat_div word_less_nat_alt)
  moreover have "\<not> TARGET_TXS < tx_count" "tx_count \<noteq> TARGET_TXS" using assms(3) by auto
  moreover have "sat_sub b 0 = b" by (simp add: word_unat_eq_iff unat_sat_sub)
  ultimately show ?thesis
    using assms(1) by (simp add: next_base_fee_def Let_def max_def MIN_BASE_FEE_def)
qed

theorem small_base_fee_never_falls_witness: "next_base_fee 7 0 = 7"
  by (rule small_base_fee_never_falls) (simp_all add: econ_constants)

section \<open>Correctness of the deposits\<close>

datatype deposit_op =
    Lock string string bytes u64 u64
  | Refund string

fun apply_deposit :: "deposit_ledger \<Rightarrow> deposit_op \<Rightarrow> deposit_ledger" where
  "apply_deposit l (Lock who key v h balance) = fst (lock_deposit l who key v h balance)"
| "apply_deposit l (Refund key) = fst (refund_key l key)"

definition ledger_ok :: "deposit_ledger \<Rightarrow> bool" where
  "ledger_ok l \<longleftrightarrow> hm_ok (dl_deposits l) \<and>
     (\<forall>k r. map_of (dl_deposits l) k = Some r \<longrightarrow> 10 \<le> unat (dr_amount r) \<and> unat (dr_amount r) \<le> 65536) \<and>
     unat (dl_total_locked l) = hm_total (\<lambda>r. unat (dr_amount r)) (dl_deposits l)"

lemma calculate_deposit_bounds:
  assumes "calculate_deposit key v = Inr d"
  shows "unat d = max (length key + length v) 10" and "10 \<le> unat d" and "unat d \<le> 65536"
proof -
  have le: "length key + length v \<le> 65536"
    using assms by (simp add: calculate_deposit_def Let_def MAX_ENTRY_SIZE_def split: if_splits)
  then have "unat (of_nat (length key + length v) :: u64) = length key + length v"
    by (intro unat_of_nat_lt) simp
  then show "unat d = max (length key + length v) 10"
    using assms by (auto simp: calculate_deposit_def Let_def DEPOSIT_PER_BYTE_def MIN_DEPOSIT_def unat_max split: if_splits)
  then show "10 \<le> unat d" "unat d \<le> 65536" using le by simp_all
qed

lemma ledger_entries_bound: "ledger_ok l \<Longrightarrow> unat (dl_total_locked l) \<le> 65536 * deposit_count l"
proof -
  assume ok: "ledger_ok l"
  have "sum_list (map (\<lambda>e. unat (dr_amount (snd e))) m) \<le> 65536 * length m"
    if "\<forall>e \<in> set m. unat (dr_amount (snd e)) \<le> 65536" for m :: "(string \<times> deposit_record) list"
    using that by (induction m) auto
  moreover have "\<forall>e \<in> set (dl_deposits l). unat (dr_amount (snd e)) \<le> 65536"
    using ok by (auto simp: ledger_ok_def hm_entry_iff)
  ultimately show ?thesis using ok by (simp add: ledger_ok_def hm_total_def deposit_count_def)
qed

lemma ledger_ok_lock:
  assumes ok: "ledger_ok l" and room: "65536 * Suc (deposit_count l) < 2 ^ 64"
  shows "ledger_ok (fst (lock_deposit l who key v h balance))"
proof (cases "\<exists>res. snd (lock_deposit l who key v h balance) = Inr res")
  case False
  then have "fst (lock_deposit l who key v h balance) = l"
    by (auto simp: lock_deposit_def Let_def split: sum.splits if_splits)
  then show ?thesis using ok by simp
next
  case True
  then obtain d where d: "calculate_deposit key v = Inr d" by (auto simp: lock_deposit_def split: sum.splits)
  let ?r = "\<lparr>dr_depositor = who, dr_key = key, dr_amount = d, dr_created_at = h\<rparr>"
  let ?old = "hm_old (\<lambda>r. unat (dr_amount r)) (dl_deposits l) key"
  define refund where "refund = (case map_of (dl_deposits l) key of Some r \<Rightarrow> dr_amount r | None \<Rightarrow> 0)"
  have l': "fst (lock_deposit l who key v h balance) =
      \<lparr>dl_deposits = hm_insert key ?r (dl_deposits l),
       dl_total_locked = sat_add (sat_sub (dl_total_locked l) refund) d\<rparr>"
    using True d by (auto simp: lock_deposit_def Let_def refund_def split: if_splits)
  have old: "unat refund = ?old" by (simp add: refund_def hm_old_def split: option.splits)
  have le: "?old \<le> unat (dl_total_locked l)" using ok hm_old_le_total by (simp add: ledger_ok_def)
  have small: "unat (dl_total_locked l) + unat d < 2 ^ 64"
    using ledger_entries_bound [OF ok] calculate_deposit_bounds(3) [OF d] room by simp
  have total: "hm_total (\<lambda>r. unat (dr_amount r)) (hm_insert key ?r (dl_deposits l)) + ?old =
      unat (dl_total_locked l) + unat d"
    using ok hm_total_insert [of "dl_deposits l" "\<lambda>r. unat (dr_amount r)" key ?r] by (simp add: ledger_ok_def)
  have sum: "unat (dl_total_locked l) - ?old + unat d < 2 ^ 64" using small by linarith
  have "unat (sat_add (sat_sub (dl_total_locked l) refund) d) = unat (dl_total_locked l) - ?old + unat d"
    using sum by (simp add: unat_sat_add unat_sat_sub old)
  then have "unat (sat_add (sat_sub (dl_total_locked l) refund) d) =
      hm_total (\<lambda>r. unat (dr_amount r)) (hm_insert key ?r (dl_deposits l))"
    using total le by linarith
  then show ?thesis
    unfolding l' using ok calculate_deposit_bounds(2,3) [OF d] by (simp add: ledger_ok_def)
qed

lemma ledger_ok_refund: "ledger_ok l \<Longrightarrow> ledger_ok (fst (refund_key l key))"
proof (cases "map_of (dl_deposits l) key")
  case (Some r)
  assume ok: "ledger_ok l"
  have "hm_total (\<lambda>r. unat (dr_amount r)) (hm_remove key (dl_deposits l)) + unat (dr_amount r) =
      unat (dl_total_locked l)"
    using ok hm_total_remove [of "dl_deposits l" "\<lambda>r. unat (dr_amount r)" key] Some
    by (simp add: ledger_ok_def hm_old_def)
  then show ?thesis using ok Some by (auto simp: refund_key_def ledger_ok_def unat_sat_sub)
qed (simp add: refund_key_def)

lemma deposit_count_step: "deposit_count (apply_deposit l op) \<le> Suc (deposit_count l)"
proof (cases op)
  case (Lock who key v h balance)
  then show ?thesis by (auto simp: lock_deposit_def deposit_count_def hm_len_insert Let_def split: sum.splits)
next
  case (Refund key)
  have "length (hm_remove key m) \<le> length m" for m :: "(string, deposit_record) hash_map"
    by (simp add: hm_remove_def length_delete_le)
  then show ?thesis using Refund by (auto simp: refund_key_def deposit_count_def le_SucI split: option.splits)
qed

lemma ledger_run:
  "ledger_ok l \<Longrightarrow> 65536 * (deposit_count l + length ops) < 2 ^ 64 \<Longrightarrow> ledger_ok (foldl apply_deposit l ops)"
proof (induction ops arbitrary: l)
  case (Cons op ops)
  have "65536 * Suc (deposit_count l) < 2 ^ 64" using Cons.prems(2) by simp
  then have "ledger_ok (apply_deposit l op)"
    using Cons.prems(1) by (cases op) (simp_all add: ledger_ok_lock ledger_ok_refund)
  moreover have "65536 * (deposit_count (apply_deposit l op) + length ops) < 2 ^ 64"
    using Cons.prems(2) deposit_count_step [of l op] by simp
  ultimately show ?case using Cons.IH by simp
qed simp

text \<open>
  After any sequence of locks and refunds (fewer than \<open>2 ^ 48\<close>), the total reported as locked is
  the sum of the active deposits, and every deposit lies between the minimum of 10 and 65536.
\<close>

theorem deposit_ledger_balanced:
  assumes "length ops < 2 ^ 48" and "l = foldl apply_deposit deposit_ledger_new ops"
  shows "unat (dl_total_locked l) = (\<Sum>e \<leftarrow> dl_deposits l. unat (dr_amount (snd e))) \<and>
    (\<forall>k r. get_deposit l k = Some r \<longrightarrow> 10 \<le> unat (dr_amount r) \<and> unat (dr_amount r) \<le> 65536)"
proof -
  have "ledger_ok deposit_ledger_new" by (simp add: ledger_ok_def deposit_ledger_new_def)
  then have "ledger_ok l"
    unfolding assms(2) using assms(1) by (intro ledger_run) (simp_all add: deposit_count_def deposit_ledger_new_def)
  then show ?thesis by (simp add: ledger_ok_def get_deposit_def hm_total_def case_prod_beta)
qed

theorem deposit_ledger_balanced_witness:
  "unat (dl_total_locked (foldl apply_deposit deposit_ledger_new [Lock ''a'' ''k'' [1, 2] 1 100, Lock ''b'' ''m'' [3] 2 50])) =
     (\<Sum>e \<leftarrow> dl_deposits (foldl apply_deposit deposit_ledger_new
        [Lock ''a'' ''k'' [1, 2] 1 100, Lock ''b'' ''m'' [3] 2 50]). unat (dr_amount (snd e)))"
  using deposit_ledger_balanced [OF _ refl, of "[Lock ''a'' ''k'' [1, 2] 1 100, Lock ''b'' ''m'' [3] 2 50]"]
  by simp

text \<open>
  An update by another account takes over the deposit: it pays nothing when the entry does not
  grow, and the whole amount, paid by the first account, is refunded to the second.
\<close>

theorem deposit_takeover:
  assumes "get_deposit l key = Some r" and "calculate_deposit key v = Inr (dr_amount r)"
  shows "\<exists>l' res. lock_deposit l thief key v h 0 = (l', Inr res) \<and> de_net_cost res = 0 \<and>
    snd (refund_key l' key) = Inr (thief, dr_amount r)"
proof -
  have "sat_sub (dr_amount r) (dr_amount r) = 0" by (simp add: word_unat_eq_iff unat_sat_sub)
  then show ?thesis using assms by (simp add: lock_deposit_def get_deposit_def refund_key_def Let_def)
qed

theorem deposit_takeover_witness:
  "\<exists>l' res. lock_deposit (fst (lock_deposit deposit_ledger_new ''alice'' ''k'' [1, 2] 1 100)) ''bob'' ''k'' [3, 4] 2 0 =
     (l', Inr res) \<and> de_net_cost res = 0 \<and> snd (refund_key l' ''k'') = Inr (''bob'', 10)"
proof -
  let ?r = "\<lparr>dr_depositor = ''alice'', dr_key = ''k'', dr_amount = 10, dr_created_at = 1\<rparr>"
  have "get_deposit (fst (lock_deposit deposit_ledger_new ''alice'' ''k'' [1, 2] 1 100)) ''k'' = Some ?r"
    by (simp add: lock_deposit_def deposit_ledger_new_def calculate_deposit_def get_deposit_def MAX_ENTRY_SIZE_def
        DEPOSIT_PER_BYTE_def MIN_DEPOSIT_def max_def sat_sub_def Let_def)
  moreover have "calculate_deposit ''k'' [3, 4] = Inr (dr_amount ?r)"
    by (simp add: calculate_deposit_def MAX_ENTRY_SIZE_def DEPOSIT_PER_BYTE_def MIN_DEPOSIT_def max_def Let_def)
  ultimately show ?thesis using deposit_takeover by fastforce
qed

end
