(* ===== verification/Merkle.thy ===== *)
theory Merkle
  imports Cerulean_Prelude
begin

text \<open>
  Merkle trees and inclusion proofs of the bridge (\<open>src/bridge/verifier.rs\<close>), also used by the
  light client.  SHA-256 is the parameter \<open>sha\<close>.  An index that would panic (the second element of
  an odd chunk) is \<open>None\<close>.  As no function from byte strings to 32 bytes is injective, soundness is
  stated for a hash without collisions among the byte strings that two verifications hash.
\<close>

type_synonym sha256_fn = "bytes \<Rightarrow> hash32"

record inclusion_proof =
  ip_merkle_path :: "hash32 list"
  ip_leaf_index :: u64
  ip_root :: hash32
  ip_block_hash :: hash32
  ip_block_height :: u64

definition hash_pair :: "sha256_fn \<Rightarrow> hash32 \<Rightarrow> hash32 \<Rightarrow> hash32" where
  "hash_pair sha left right = sha (hash_bytes left @ hash_bytes right)"

fun climb :: "sha256_fn \<Rightarrow> hash32 \<Rightarrow> nat \<Rightarrow> hash32 list \<Rightarrow> hash32" where
  "climb sha h index [] = h"
| "climb sha h index (sibling # path) =
     climb sha (if even index then hash_pair sha h sibling else hash_pair sha sibling h) (index div 2) path"

definition verify_merkle_proof :: "sha256_fn \<Rightarrow> bytes \<Rightarrow> inclusion_proof \<Rightarrow> bool" where
  "verify_merkle_proof sha dat proof \<longleftrightarrow>
     climb sha (sha dat) (unat (ip_leaf_index proof)) (ip_merkle_path proof) = ip_root proof"

section \<open>Building a tree\<close>

function pow2_from :: "nat \<Rightarrow> nat \<Rightarrow> nat" where
  "pow2_from p n = (if n \<le> p \<or> p = 0 then p else pow2_from (2 * p) n)"
  by auto
termination by (relation "measure (\<lambda>(p, n). n - p)") auto

definition next_power_of_two :: "nat \<Rightarrow> nat" where
  "next_power_of_two n = pow2_from 1 n"

definition padded_leaves :: "sha256_fn \<Rightarrow> bytes list \<Rightarrow> hash32 list" where
  "padded_leaves sha leaves = map sha leaves @ replicate (next_power_of_two (length leaves) - length leaves) 0"

fun next_layer :: "sha256_fn \<Rightarrow> hash32 list \<Rightarrow> hash32 list option" where
  "next_layer sha [] = Some []"
| "next_layer sha [a] = None"
| "next_layer sha (a # b # rest) = map_option (Cons (hash_pair sha a b)) (next_layer sha rest)"

lemma next_layer_length: "next_layer sha layer = Some l \<Longrightarrow> length layer = 2 * length l"
  by (induction sha layer arbitrary: l rule: next_layer.induct) auto

lemma next_layer_shrinks: "next_layer sha layer = Some l \<Longrightarrow> \<not> length layer \<le> Suc 0 \<Longrightarrow> length l < length layer"
  using next_layer_length by fastforce

function build_layers :: "sha256_fn \<Rightarrow> hash32 list \<Rightarrow> hash32 list list option" where
  "build_layers sha layer =
     (if length layer \<le> 1 then Some [layer]
      else (case next_layer sha layer of
              None \<Rightarrow> None
            | Some l \<Rightarrow> map_option (Cons layer) (build_layers sha l)))"
  by auto
termination
  by (relation "measure (\<lambda>(_, layer). length layer)") (simp_all add: next_layer_shrinks)

declare pow2_from.simps [simp del] build_layers.simps [simp del]

fun path_for :: "nat \<Rightarrow> hash32 list list \<Rightarrow> hash32 list" where
  "path_for idx (lvl # lvl' # rest) =
     (let sibling_idx = (if even idx then idx + 1 else idx - 1) in
      (if sibling_idx < length lvl then lvl ! sibling_idx else 0) # path_for (idx div 2) (lvl' # rest))"
| "path_for idx _ = []"

definition build_merkle_tree :: "sha256_fn \<Rightarrow> bytes list \<Rightarrow> (hash32 option \<times> inclusion_proof list) option" where
  "build_merkle_tree sha leaves =
     (if leaves = [] then Some (None, [])
      else
        map_option
          (\<lambda>layers.
             let root = hd (last layers) in
             (Some root,
              map (\<lambda>i. \<lparr>ip_merkle_path = path_for i layers, ip_leaf_index = of_nat i, ip_root = root,
                     ip_block_hash = 0, ip_block_height = 0\<rparr>) [0..<length leaves]))
          (build_layers sha (padded_leaves sha leaves)))"

section \<open>Completeness\<close>

lemma pow2_from_power: "\<exists>k. p = 2 ^ k \<Longrightarrow> \<exists>k. pow2_from p n = 2 ^ k"
proof (induction p n rule: pow2_from.induct)
  case (1 p n)
  show ?case
  proof (cases "n \<le> p \<or> p = 0")
    case True
    then show ?thesis using 1(2) by (subst pow2_from.simps) simp
  next
    case False
    have "\<exists>k. 2 * p = 2 ^ k" using 1(2) by (metis power_Suc)
    then have "\<exists>k. pow2_from (2 * p) n = 2 ^ k" using 1(1) False by blast
    then show ?thesis using False by (subst pow2_from.simps) simp
  qed
qed

lemma pow2_from_ge: "p \<noteq> 0 \<Longrightarrow> n \<le> pow2_from p n"
proof (induction p n rule: pow2_from.induct)
  case (1 p n)
  then show ?case by (subst pow2_from.simps) auto
qed

lemma padded_leaves_power:
  obtains k where "length (padded_leaves sha leaves) = 2 ^ k" and "length leaves \<le> 2 ^ k"
proof -
  obtain k where k: "pow2_from 1 (length leaves) = 2 ^ k"
    using pow2_from_power [of 1 "length leaves"] power_0 [of 2] by metis
  moreover have "length leaves \<le> pow2_from 1 (length leaves)" by (rule pow2_from_ge) simp
  ultimately show ?thesis using that [of k] by (simp add: padded_leaves_def next_power_of_two_def)
qed

lemma next_layer_total:
  "even (length layer) \<Longrightarrow> \<exists>l. next_layer sha layer = Some l \<and> length l = length layer div 2 \<and>
     (\<forall>j < length l. l ! j = hash_pair sha (layer ! (2 * j)) (layer ! (2 * j + 1)))"
proof (induction sha layer rule: next_layer.induct)
  case (3 sha a b rest)
  then obtain l where l: "next_layer sha rest = Some l" "length l = length rest div 2"
      "\<forall>j < length l. l ! j = hash_pair sha (rest ! (2 * j)) (rest ! (2 * j + 1))"
    by auto
  have "(hash_pair sha a b # l) ! j = hash_pair sha ((a # b # rest) ! (2 * j)) ((a # b # rest) ! (2 * j + 1))"
    if "j < Suc (length l)" for j
    using that l(3) by (cases j) auto
  then show ?case using l(1,2) by auto
qed auto

lemma build_layers_climb:
  assumes "length layer = 2 ^ k"
  shows "\<exists>layers. build_layers sha layer = Some layers \<and> layers \<noteq> [] \<and> hd layers = layer \<and> length layers = Suc k \<and>
    (\<forall>i < 2 ^ k. climb sha (layer ! i) i (path_for i layers) = hd (last layers) \<and> length (path_for i layers) = k)"
  using assms
proof (induction k arbitrary: layer)
  case 0
  then obtain a where "layer = [a]" by (metis One_nat_def length_0_conv length_Suc_conv power_0)
  then show ?case by (subst build_layers.simps) simp
next
  case (Suc k)
  obtain l where l: "next_layer sha layer = Some l" "length l = 2 ^ k"
      "\<forall>j < length l. l ! j = hash_pair sha (layer ! (2 * j)) (layer ! (2 * j + 1))"
    using next_layer_total [of layer sha] Suc.prems by auto
  obtain layers where ls: "build_layers sha l = Some layers" "layers \<noteq> []" "hd layers = l" "length layers = Suc k"
      "\<forall>i < 2 ^ k. climb sha (l ! i) i (path_for i layers) = hd (last layers) \<and> length (path_for i layers) = k"
    using Suc.IH [OF l(2)] by blast
  obtain rest where layers: "layers = l # rest" using ls(2,3) by (cases layers) auto
  have "1 \<le> (2 :: nat) ^ k" by simp
  then have "\<not> length layer \<le> 1" using Suc.prems by (simp only: power_Suc)
  then have build: "build_layers sha layer = Some (layer # layers)"
    using l(1) ls(1) by (subst build_layers.simps) simp
  have "climb sha (layer ! i) i (path_for i (layer # layers)) = hd (last layers) \<and>
      length (path_for i (layer # layers)) = Suc k" if i: "i < 2 ^ Suc k" for i
  proof -
    have half: "i div 2 < 2 ^ k" using i by auto
    have "l ! (i div 2) =
        (if even i then hash_pair sha (layer ! i) (layer ! (i + 1)) else hash_pair sha (layer ! (i - 1)) (layer ! i))"
      using l(2,3) half by (auto elim!: evenE oddE)
    moreover have "(if even i then i + 1 else i - 1) < length layer" using i Suc.prems by (auto elim!: evenE)
    ultimately show ?thesis using ls(5) half by (auto simp: layers Let_def)
  qed
  then show ?case using build ls(2,4) by simp
qed

text \<open>
  Building a tree never fails, and every proof it returns verifies: for any list of fewer than
  \<open>2 ^ 64\<close> leaves, the proof of each leaf is accepted by the verifier against the common root.
\<close>

theorem merkle_proofs_verify:
  assumes "leaves \<noteq> []" and "length leaves < 2 ^ 64"
  shows "\<exists>root proofs. build_merkle_tree sha leaves = Some (Some root, proofs) \<and> length proofs = length leaves \<and>
    (\<forall>i < length leaves. ip_root (proofs ! i) = root \<and> unat (ip_leaf_index (proofs ! i)) = i \<and>
       verify_merkle_proof sha (leaves ! i) (proofs ! i))"
proof -
  obtain k where k: "length (padded_leaves sha leaves) = 2 ^ k" "length leaves \<le> 2 ^ k" by (rule padded_leaves_power)
  obtain layers where ls: "build_layers sha (padded_leaves sha leaves) = Some layers"
      "\<forall>i < 2 ^ k. climb sha (padded_leaves sha leaves ! i) i (path_for i layers) = hd (last layers)"
    using build_layers_climb [OF k(1), of sha] by blast
  have "climb sha (sha (leaves ! i)) i (path_for i layers) = hd (last layers)" if "i < length leaves" for i
  proof -
    have "padded_leaves sha leaves ! i = sha (leaves ! i)" using that by (simp add: padded_leaves_def nth_append)
    then show ?thesis using ls(2) less_le_trans [OF that k(2)] by metis
  qed
  moreover have "unat (of_nat i :: u64) = i" if "i < length leaves" for i
    using that assms(2) by (intro unat_of_nat_lt) simp
  ultimately show ?thesis
    using ls(1) assms(1) by (auto simp: build_merkle_tree_def verify_merkle_proof_def Let_def)
qed

definition demo_sha :: sha256_fn where
  "demo_sha b = of_nat (length b)"

theorem merkle_proofs_verify_witness:
  "\<exists>root proofs. build_merkle_tree demo_sha [[1], [2], [3]] = Some (Some root, proofs) \<and> length proofs = 3"
  using merkle_proofs_verify [of "[[1], [2], [3]]" demo_sha] by auto

section \<open>Soundness\<close>

fun climb_inputs :: "sha256_fn \<Rightarrow> hash32 \<Rightarrow> nat \<Rightarrow> hash32 list \<Rightarrow> bytes list" where
  "climb_inputs sha h index [] = []"
| "climb_inputs sha h index (sibling # path) =
     (let inp = (if even index then hash_bytes h @ hash_bytes sibling else hash_bytes sibling @ hash_bytes h) in
      inp # climb_inputs sha (sha inp) (index div 2) path)"

text \<open>The byte strings that a verification hashes.\<close>

definition hashed_inputs :: "sha256_fn \<Rightarrow> bytes \<Rightarrow> inclusion_proof \<Rightarrow> bytes list" where
  "hashed_inputs sha dat proof = dat # climb_inputs sha (sha dat) (unat (ip_leaf_index proof)) (ip_merkle_path proof)"

lemma climb_inj:
  assumes "climb sha h i p = climb sha h' i p'" and "length p = length p'"
    and "inj_on sha (set (climb_inputs sha h i p) \<union> set (climb_inputs sha h' i p'))"
  shows "h = h' \<and> p = p'"
  using assms
proof (induction p arbitrary: h h' i p')
  case Nil
  then have "p' = []" by simp
  then show ?case using Nil.prems(1) by (simp only: climb.simps)
next
  case (Cons s p)
  obtain s' q where p': "p' = s' # q" using Cons.prems(2) by (cases p') auto
  define inp where "inp = (if even i then hash_bytes h @ hash_bytes s else hash_bytes s @ hash_bytes h)"
  define inp' where "inp' = (if even i then hash_bytes h' @ hash_bytes s' else hash_bytes s' @ hash_bytes h')"
  have step: "climb sha (sha inp) (i div 2) p = climb sha (sha inp') (i div 2) q"
    using Cons.prems(1) unfolding p' climb.simps inp_def inp'_def hash_pair_def if_distrib [of sha] .
  have inputs: "set (climb_inputs sha h i (s # p)) = insert inp (set (climb_inputs sha (sha inp) (i div 2) p))"
      "set (climb_inputs sha h' i p') = insert inp' (set (climb_inputs sha (sha inp') (i div 2) q))"
    by (simp_all only: p' inp_def inp'_def Let_def climb_inputs.simps list.set)
  have inj2: "inj_on sha (set (climb_inputs sha (sha inp) (i div 2) p) \<union> set (climb_inputs sha (sha inp') (i div 2) q))"
    by (rule inj_on_subset [OF Cons.prems(3)]) (simp only: inputs, blast)
  have eq: "sha inp = sha inp' \<and> p = q"
    by (rule Cons.IH [OF step _ inj2]) (use Cons.prems(2) in \<open>simp add: p'\<close>)
  have "inp = inp'"
    by (rule inj_onD [OF Cons.prems(3) conjunct1 [OF eq]]) (simp_all only: inputs, blast+)
  then have "h = h' \<and> s = s'"
    by (cases "even i") (simp_all only: inp_def inp'_def if_True if_False append_eq_append_conv length_hash_bytes
        hash_bytes_inj simp_thms)
  then show ?case using eq p' by simp
qed

text \<open>
  C26: an accepted proof identifies the leaf: two byte strings that verify against the same root at the
  same index with paths of the same length are equal, and so are the paths, unless the hash collides
  on two of the byte strings hashed by the two verifications.
\<close>

theorem merkle_proof_binding:
  assumes "verify_merkle_proof sha d p" and "verify_merkle_proof sha d' p'"
    and "ip_root p = ip_root p'" and "ip_leaf_index p = ip_leaf_index p'"
    and "length (ip_merkle_path p) = length (ip_merkle_path p')"
    and "inj_on sha (set (hashed_inputs sha d p) \<union> set (hashed_inputs sha d' p'))"
  shows "d = d' \<and> ip_merkle_path p = ip_merkle_path p'"
proof -
  have "sha d = sha d' \<and> ip_merkle_path p = ip_merkle_path p'"
  proof (rule climb_inj)
    show "climb sha (sha d) (unat (ip_leaf_index p)) (ip_merkle_path p) =
        climb sha (sha d') (unat (ip_leaf_index p)) (ip_merkle_path p')"
      using assms(1-4) by (simp add: verify_merkle_proof_def)
    show "inj_on sha (set (climb_inputs sha (sha d) (unat (ip_leaf_index p)) (ip_merkle_path p)) \<union>
        set (climb_inputs sha (sha d') (unat (ip_leaf_index p)) (ip_merkle_path p')))"
      using assms(4) by (intro inj_on_subset [OF assms(6)]) (auto simp: hashed_inputs_def)
  qed (rule assms(5))
  moreover from this have "d = d'" using inj_onD [OF assms(6), of d d'] by (simp add: hashed_inputs_def)
  ultimately show ?thesis by simp
qed

theorem merkle_proof_binding_witness:
  "let p = \<lparr>ip_merkle_path = [7], ip_leaf_index = 0, ip_root = hash_pair demo_sha (demo_sha [5]) 7,
       ip_block_hash = 0, ip_block_height = 0\<rparr> in
   verify_merkle_proof demo_sha [5] p \<and> ip_merkle_path p = ip_merkle_path p"
proof -
  let ?p = "\<lparr>ip_merkle_path = [7], ip_leaf_index = 0, ip_root = hash_pair demo_sha (demo_sha [5]) 7,
    ip_block_hash = 0, ip_block_height = 0\<rparr>"
  have v: "verify_merkle_proof demo_sha [5] ?p" by (simp add: verify_merkle_proof_def)
  have "demo_sha [5] \<noteq> demo_sha (hash_bytes (demo_sha [5]) @ hash_bytes 7)"
    by (simp add: demo_sha_def)
  then have "inj_on demo_sha (set (hashed_inputs demo_sha [5] ?p) \<union> set (hashed_inputs demo_sha [5] ?p))"
    by (auto simp: hashed_inputs_def Let_def inj_on_def)
  from merkle_proof_binding [OF v v refl refl refl this] v show ?thesis by simp
qed

text \<open>
  Leaves and inner nodes are hashed alike, so the concatenation of two sibling hashes is itself
  accepted as a leaf, with the rest of the path: a proof does not show that the data was a leaf.
\<close>

theorem inner_node_accepted_as_leaf:
  assumes "verify_merkle_proof sha d p" and "ip_merkle_path p = sibling # rest" and "even (unat (ip_leaf_index p))"
  shows "verify_merkle_proof sha (hash_bytes (sha d) @ hash_bytes sibling)
    (p\<lparr>ip_merkle_path := rest, ip_leaf_index := ip_leaf_index p div 2\<rparr>)"
  using assms by (simp add: verify_merkle_proof_def hash_pair_def unat_div)

theorem inner_node_accepted_as_leaf_witness:
  "verify_merkle_proof demo_sha (hash_bytes (demo_sha [5]) @ hash_bytes 7)
     \<lparr>ip_merkle_path = [], ip_leaf_index = 0, ip_root = hash_pair demo_sha (demo_sha [5]) 7,
      ip_block_hash = 0, ip_block_height = 0\<rparr>"
proof -
  let ?p = "\<lparr>ip_merkle_path = [7], ip_leaf_index = 0, ip_root = hash_pair demo_sha (demo_sha [5]) 7,
    ip_block_hash = 0, ip_block_height = 0\<rparr>"
  have "verify_merkle_proof demo_sha [5] ?p" by (simp add: verify_merkle_proof_def)
  from inner_node_accepted_as_leaf [OF this, of 7 "[]"] show ?thesis by simp
qed

end
