(* ===== verification/Bridge.thy ===== *)
theory Bridge
  imports Merkle
begin

text \<open>
  The cross-chain bridge: message types (\<open>src/bridge/types.rs\<close>), the escrow vault
  (\<open>src/bridge/escrow.rs\<close>), the bridge engine (\<open>src/bridge/protocol.rs\<close>) and the relayer
  (\<open>src/bridge/relayer.rs\<close>).  SHA-256 and the JSON encoding of payloads are parameters; the encoder
  returns \<open>None\<close> where it fails.  The loop of the relayer carries a fuel that is proved sufficient.
\<close>

section \<open>Types\<close>

type_synonym chain_id = string
type_synonym message_id = hash32

definition native_chain :: chain_id where
  "native_chain = ''rust-bc''"

datatype bridge_type = LightClientBridge | RelayBridge | HtlcBridge

record chain_config =
  ch_chain_id :: chain_id
  ch_name :: string
  ch_protocol :: bridge_type
  ch_active :: bool
  ch_min_confirmations :: u64
  ch_max_transfer :: u64

datatype message_payload =
    TokenTransfer string string u64 string
  | DataRelay string string bytes
  | Ack message_id bool "string option"

record bridge_message =
  bm_id :: message_id
  bm_source_chain :: chain_id
  bm_dest_chain :: chain_id
  bm_sequence :: u64
  bm_payload :: message_payload
  bm_source_height :: u64
  bm_source_timestamp :: u64
  bm_proof :: "inclusion_proof option"

datatype transfer_status = TPending | TCompleted | TRefunded | TExpired

section \<open>The escrow vault\<close>

record escrow_entry =
  ee_message_id :: message_id
  ee_sender :: string
  ee_amount :: u64
  ee_denom :: string
  ee_dest_chain :: chain_id
  ee_status :: transfer_status
  ee_locked_at :: u64
  ee_released_at :: "u64 option"

record wrapped_balance =
  wb_balances :: "(string, u64) hash_map"
  wb_total_supply :: u64

definition wrapped_default :: wrapped_balance where
  "wrapped_default = \<lparr>wb_balances = [], wb_total_supply = 0\<rparr>"

record escrow_vault =
  ev_locked :: "(message_id, escrow_entry) hash_map"
  ev_wrapped :: "(chain_id \<times> string, wrapped_balance) hash_map"
  ev_total_locked :: u64

datatype escrow_error =
    EscrowInsufficient u64 u64
  | EscrowNotFound message_id
  | EscrowExists message_id
  | EscrowInvalidState transfer_status
  | ZeroAmount

definition escrow_vault_new :: escrow_vault where
  "escrow_vault_new = \<lparr>ev_locked = [], ev_wrapped = [], ev_total_locked = 0\<rparr>"

definition escrow_lock ::
    "escrow_vault \<Rightarrow> message_id \<Rightarrow> string \<Rightarrow> u64 \<Rightarrow> string \<Rightarrow> chain_id \<Rightarrow> u64 \<Rightarrow> escrow_vault \<times> (escrow_error + unit)" where
  "escrow_lock v i sender amount denom dest_chain block_height =
     (if amount = 0 then (v, Inl ZeroAmount)
      else if hm_contains i (ev_locked v) then (v, Inl (EscrowExists i))
      else
        (v\<lparr>ev_locked := hm_insert i
             \<lparr>ee_message_id = i, ee_sender = sender, ee_amount = amount, ee_denom = denom,
              ee_dest_chain = dest_chain, ee_status = TPending, ee_locked_at = block_height,
              ee_released_at = None\<rparr> (ev_locked v),
           ev_total_locked := ev_total_locked v + amount\<rparr>,
         Inr ()))"

definition escrow_settle ::
    "transfer_status \<Rightarrow> escrow_vault \<Rightarrow> message_id \<Rightarrow> u64 \<Rightarrow> escrow_vault \<times> (escrow_error + escrow_entry)" where
  "escrow_settle status v i block_height =
     (case map_of (ev_locked v) i of
        None \<Rightarrow> (v, Inl (EscrowNotFound i))
      | Some entry \<Rightarrow>
          if ee_status entry \<noteq> TPending then (v, Inl (EscrowInvalidState (ee_status entry)))
          else
            let entry' = entry\<lparr>ee_status := status, ee_released_at := Some block_height\<rparr> in
            (v\<lparr>ev_locked := hm_insert i entry' (ev_locked v),
               ev_total_locked := ev_total_locked v - ee_amount entry'\<rparr>,
             Inr entry'))"

definition escrow_release ::
    "escrow_vault \<Rightarrow> message_id \<Rightarrow> u64 \<Rightarrow> escrow_vault \<times> (escrow_error + escrow_entry)" where
  "escrow_release = escrow_settle TCompleted"

definition escrow_refund ::
    "escrow_vault \<Rightarrow> message_id \<Rightarrow> u64 \<Rightarrow> escrow_vault \<times> (escrow_error + escrow_entry)" where
  "escrow_refund = escrow_settle TRefunded"

definition wrapped_of :: "escrow_vault \<Rightarrow> chain_id \<Rightarrow> string \<Rightarrow> wrapped_balance" where
  "wrapped_of v chain denom = (case map_of (ev_wrapped v) (chain, denom) of Some b \<Rightarrow> b | None \<Rightarrow> wrapped_default)"

definition account_of :: "wrapped_balance \<Rightarrow> string \<Rightarrow> u64" where
  "account_of b a = (case map_of (wb_balances b) a of Some x \<Rightarrow> x | None \<Rightarrow> 0)"

definition escrow_mint ::
    "escrow_vault \<Rightarrow> string \<Rightarrow> u64 \<Rightarrow> chain_id \<Rightarrow> string \<Rightarrow> escrow_vault \<times> (escrow_error + u64)" where
  "escrow_mint v recipient amount source_chain denom =
     (if amount = 0 then (v, Inl ZeroAmount)
      else
        let b = wrapped_of v source_chain denom;
            b' = \<lparr>wb_balances = hm_insert recipient (account_of b recipient + amount) (wb_balances b),
                  wb_total_supply = wb_total_supply b + amount\<rparr> in
        (v\<lparr>ev_wrapped := hm_insert (source_chain, denom) b' (ev_wrapped v)\<rparr>, Inr (account_of b' recipient)))"

definition escrow_burn ::
    "escrow_vault \<Rightarrow> string \<Rightarrow> u64 \<Rightarrow> chain_id \<Rightarrow> string \<Rightarrow> escrow_vault \<times> (escrow_error + u64)" where
  "escrow_burn v account amount source_chain denom =
     (if amount = 0 then (v, Inl ZeroAmount)
      else (case map_of (ev_wrapped v) (source_chain, denom) of
              None \<Rightarrow> (v, Inl (EscrowInsufficient amount 0))
            | Some b \<Rightarrow>
                (case map_of (wb_balances b) account of
                   None \<Rightarrow> (v, Inl (EscrowInsufficient amount 0))
                 | Some acct \<Rightarrow>
                     if acct < amount then (v, Inl (EscrowInsufficient amount acct))
                     else
                       let b' = \<lparr>wb_balances = hm_insert account (acct - amount) (wb_balances b),
                                 wb_total_supply = wb_total_supply b - amount\<rparr> in
                       (v\<lparr>ev_wrapped := hm_insert (source_chain, denom) b' (ev_wrapped v)\<rparr>,
                        Inr (acct - amount)))))"

definition get_escrow :: "escrow_vault \<Rightarrow> message_id \<Rightarrow> escrow_entry option" where
  "get_escrow v i = map_of (ev_locked v) i"

definition wrapped_balance_of :: "escrow_vault \<Rightarrow> string \<Rightarrow> chain_id \<Rightarrow> string \<Rightarrow> u64" where
  "wrapped_balance_of v account source_chain denom = account_of (wrapped_of v source_chain denom) account"

definition wrapped_total_supply :: "escrow_vault \<Rightarrow> chain_id \<Rightarrow> string \<Rightarrow> u64" where
  "wrapped_total_supply v source_chain denom = wb_total_supply (wrapped_of v source_chain denom)"

section \<open>The bridge engine\<close>

datatype proof_failure = MissingProof | EncodingFailed | MerkleFailed | AlreadyProcessed

datatype bridge_error =
    UnknownChain chain_id
  | ChainNotActive chain_id
  | ProofFailed proof_failure
  | Escrow escrow_error
  | ExceedsMax u64 u64
  | InsufficientConfirmations u64 u64

type_synonym chain_registry = "(chain_id, chain_config) hash_map"

definition register_chain :: "chain_registry \<Rightarrow> chain_config \<Rightarrow> chain_registry" where
  "register_chain r config = hm_insert (ch_chain_id config) config r"

definition get_chain :: "chain_registry \<Rightarrow> chain_id \<Rightarrow> chain_config option" where
  "get_chain r c = map_of r c"

definition list_chains :: "chain_registry \<Rightarrow> chain_config list" where
  "list_chains r = map snd r"

definition is_active_chain :: "chain_registry \<Rightarrow> chain_id \<Rightarrow> bool" where
  "is_active_chain r c \<longleftrightarrow> (case map_of r c of Some config \<Rightarrow> ch_active config | None \<Rightarrow> False)"

record bridge_engine =
  be_registry :: chain_registry
  be_escrow :: escrow_vault
  be_processed :: "(message_id, transfer_status) hash_map"
  be_sequences :: "(chain_id \<times> chain_id, u64) hash_map"

definition bridge_engine_new :: bridge_engine where
  "bridge_engine_new = \<lparr>be_registry = [], be_escrow = escrow_vault_new, be_processed = [], be_sequences = []\<rparr>"

definition next_sequence :: "bridge_engine \<Rightarrow> chain_id \<Rightarrow> chain_id \<Rightarrow> bridge_engine \<times> u64" where
  "next_sequence e source dest =
     (let seq = (case map_of (be_sequences e) (source, dest) of Some n \<Rightarrow> n | None \<Rightarrow> 0) + 1 in
      (e\<lparr>be_sequences := hm_insert (source, dest) seq (be_sequences e)\<rparr>, seq))"

definition compute_message_id :: "sha256_fn \<Rightarrow> string \<Rightarrow> string \<Rightarrow> u64 \<Rightarrow> u64 \<Rightarrow> message_id" where
  "compute_message_id sha sender recipient amount sequence =
     sha (str_bytes sender @ str_bytes recipient @ to_le_bytes amount @ to_le_bytes sequence)"

definition initiate_transfer ::
    "sha256_fn \<Rightarrow> bridge_engine \<Rightarrow> string \<Rightarrow> string \<Rightarrow> u64 \<Rightarrow> string \<Rightarrow> chain_id \<Rightarrow> u64
      \<Rightarrow> bridge_engine \<times> (bridge_error + bridge_message)" where
  "initiate_transfer sha e sender recipient amount denom dest_chain block_height =
     (case get_chain (be_registry e) dest_chain of
        None \<Rightarrow> (e, Inl (UnknownChain dest_chain))
      | Some config \<Rightarrow>
          if \<not> ch_active config then (e, Inl (ChainNotActive dest_chain))
          else if ch_max_transfer config > 0 \<and> amount > ch_max_transfer config
          then (e, Inl (ExceedsMax amount (ch_max_transfer config)))
          else
            (case next_sequence e native_chain dest_chain of
               (e1, sequence) \<Rightarrow>
                 let i = compute_message_id sha sender recipient amount sequence in
                 (case escrow_lock (be_escrow e1) i sender amount denom dest_chain block_height of
                    (v, Inl err) \<Rightarrow> (e1\<lparr>be_escrow := v\<rparr>, Inl (Escrow err))
                  | (v, Inr _) \<Rightarrow>
                      (e1\<lparr>be_escrow := v, be_processed := hm_insert i TPending (be_processed e1)\<rparr>,
                       Inr \<lparr>bm_id = i, bm_source_chain = native_chain, bm_dest_chain = dest_chain,
                            bm_sequence = sequence, bm_payload = TokenTransfer sender recipient amount denom,
                            bm_source_height = block_height, bm_source_timestamp = 0, bm_proof = None\<rparr>))))"

definition mint_payload :: "bridge_engine \<Rightarrow> bridge_message \<Rightarrow> bridge_engine \<times> (bridge_error + unit)" where
  "mint_payload e m =
     (case bm_payload m of
        TokenTransfer _ recipient amount denom \<Rightarrow>
          (case escrow_mint (be_escrow e) recipient amount (bm_source_chain m) denom of
             (v, Inl err) \<Rightarrow> (e\<lparr>be_escrow := v\<rparr>, Inl (Escrow err))
           | (v, Inr _) \<Rightarrow> (e\<lparr>be_escrow := v\<rparr>, Inr ()))
      | _ \<Rightarrow> (e, Inr ()))"

definition process_inbound ::
    "sha256_fn \<Rightarrow> (message_payload \<Rightarrow> bytes option) \<Rightarrow> bridge_engine \<Rightarrow> bridge_message \<Rightarrow> u64
      \<Rightarrow> bridge_engine \<times> (bridge_error + unit)" where
  "process_inbound sha json e m current_height =
     (case get_chain (be_registry e) (bm_source_chain m) of
        None \<Rightarrow> (e, Inl (UnknownChain (bm_source_chain m)))
      | Some config \<Rightarrow>
          if \<not> ch_active config then (e, Inl (ChainNotActive (bm_source_chain m)))
          else
            let confirmations = sat_sub current_height (bm_source_height m) in
            if confirmations < ch_min_confirmations config
            then (e, Inl (InsufficientConfirmations confirmations (ch_min_confirmations config)))
            else (case bm_proof m of
                    None \<Rightarrow> (e, Inl (ProofFailed MissingProof))
                  | Some proof \<Rightarrow>
                      (case json (bm_payload m) of
                         None \<Rightarrow> (e, Inl (ProofFailed EncodingFailed))
                       | Some msg_bytes \<Rightarrow>
                           if \<not> verify_merkle_proof sha msg_bytes proof then (e, Inl (ProofFailed MerkleFailed))
                           else if hm_contains (bm_id m) (be_processed e) then (e, Inl (ProofFailed AlreadyProcessed))
                           else mint_payload
                                  (e\<lparr>be_processed := hm_insert (bm_id m) TCompleted (be_processed e)\<rparr>) m)))"

section \<open>The relayer\<close>

datatype relayer_status = RIdle | RSyncing | RRelaying | RError

datatype relay_direction = Outbound | Inbound

record relay_job =
  rj_message :: bridge_message
  rj_direction :: relay_direction
  rj_attempts :: "32 word"
  rj_max_attempts :: "32 word"

datatype relayer_error =
    RBridge bridge_error
  | MaxRetries message_id
  | EmptyQueue
  | ExternalChain

definition MAX_RELAY_QUEUE :: nat where "MAX_RELAY_QUEUE = 10000"
definition MAX_RELAY_HISTORY :: nat where "MAX_RELAY_HISTORY = 50000"

record relayer =
  rl_queue :: "relay_job list"
  rl_completed :: "message_id list"
  rl_failed :: "(message_id \<times> relayer_error) list"
  rl_status :: relayer_status
  rl_max_attempts :: "32 word"

definition relayer_new :: "32 word \<Rightarrow> relayer" where
  "relayer_new max_attempts =
     \<lparr>rl_queue = [], rl_completed = [], rl_failed = [], rl_status = RIdle, rl_max_attempts = max_attempts\<rparr>"

definition queue_job :: "relay_direction \<Rightarrow> relayer \<Rightarrow> bridge_message \<Rightarrow> relayer" where
  "queue_job dir r m =
     (if length (rl_queue r) \<ge> MAX_RELAY_QUEUE then r
      else r\<lparr>rl_queue := rl_queue r @ [\<lparr>rj_message = m, rj_direction = dir, rj_attempts = 0,
             rj_max_attempts = rl_max_attempts r\<rparr>]\<rparr>)"

definition queue_outbound :: "relayer \<Rightarrow> bridge_message \<Rightarrow> relayer" where
  "queue_outbound = queue_job Outbound"

definition queue_inbound :: "relayer \<Rightarrow> bridge_message \<Rightarrow> relayer" where
  "queue_inbound = queue_job Inbound"

definition push_history :: "'a list \<Rightarrow> 'a \<Rightarrow> 'a list" where
  "push_history h x = (if length h \<ge> MAX_RELAY_HISTORY then drop (length h div 2) h else h) @ [x]"

text \<open>
  \<open>ensure_proof\<close> is \<open>None\<close> when the payload cannot be encoded, which returns from the call at once.
\<close>

definition ensure_proof ::
    "sha256_fn \<Rightarrow> (message_payload \<Rightarrow> bytes option) \<Rightarrow> bridge_message \<Rightarrow> bridge_message option" where
  "ensure_proof sha json m =
     (case bm_proof m of
        Some _ \<Rightarrow> Some m
      | None \<Rightarrow>
          (case json (bm_payload m) of
             None \<Rightarrow> None
           | Some b \<Rightarrow>
               (case build_merkle_tree sha [b] of
                  Some (_, p # _) \<Rightarrow> Some (m\<lparr>bm_proof := Some p\<rparr>)
                | _ \<Rightarrow> None)))"

definition finish_job ::
    "relayer \<Rightarrow> relay_job \<Rightarrow> relayer_error + unit \<Rightarrow> relayer \<times> (relayer_error + message_id)" where
  "finish_job r job result =
     (let i = bm_id (rj_message job) in
      case result of
        Inr _ \<Rightarrow> (r\<lparr>rl_completed := push_history (rl_completed r) i, rl_status := RIdle\<rparr>, Inr i)
      | Inl e \<Rightarrow>
          if rj_attempts job \<ge> rj_max_attempts job
          then (r\<lparr>rl_failed := push_history (rl_failed r) (i, e), rl_status := RError\<rparr>, Inl (MaxRetries i))
          else (r\<lparr>rl_queue := rl_queue r @ [job], rl_status := RIdle\<rparr>, Inl e))"

definition process_next ::
    "sha256_fn \<Rightarrow> (message_payload \<Rightarrow> bytes option) \<Rightarrow> relayer \<Rightarrow> bridge_engine \<Rightarrow> u64
      \<Rightarrow> relayer \<times> bridge_engine \<times> (relayer_error + message_id)" where
  "process_next sha json r e current_height =
     (case rl_queue r of
        [] \<Rightarrow> (r, e, Inl EmptyQueue)
      | job0 # rest \<Rightarrow>
          let r1 = r\<lparr>rl_queue := rest, rl_status := RRelaying\<rparr>;
              job = job0\<lparr>rj_attempts := rj_attempts job0 + 1\<rparr> in
          (case rj_direction job of
             Outbound \<Rightarrow> (case finish_job r1 job (Inr ()) of (r2, res) \<Rightarrow> (r2, e, res))
           | Inbound \<Rightarrow>
               (case ensure_proof sha json (rj_message job) of
                  None \<Rightarrow> (r1, e, Inl ExternalChain)
                | Some m \<Rightarrow>
                    (case process_inbound sha json e m current_height of
                       (e', res) \<Rightarrow>
                         (case finish_job r1 (job\<lparr>rj_message := m\<rparr>)
                                 (case res of Inl err \<Rightarrow> Inl (RBridge err) | Inr u \<Rightarrow> Inr ()) of
                            (r2, out) \<Rightarrow> (r2, e', out))))))"

fun process_all_go ::
    "nat \<Rightarrow> sha256_fn \<Rightarrow> (message_payload \<Rightarrow> bytes option) \<Rightarrow> relayer \<Rightarrow> bridge_engine \<Rightarrow> u64 \<Rightarrow> nat \<Rightarrow> nat
      \<Rightarrow> (relayer \<times> bridge_engine \<times> nat \<times> nat) option" where
  "process_all_go 0 sha json r e h success failures = None"
| "process_all_go (Suc n) sha json r e h success failures =
     (case process_next sha json r e h of
        (r', e', Inr _) \<Rightarrow> process_all_go n sha json r' e' h (Suc success) failures
      | (r', e', Inl err) \<Rightarrow>
          if err = EmptyQueue then Some (r', e', success, failures)
          else process_all_go n sha json r' e' h success (Suc failures))"

definition job_weight :: "relay_job \<Rightarrow> nat" where
  "job_weight job = Suc (unat (rj_max_attempts job) - unat (rj_attempts job))"

definition relay_fuel :: "relayer \<Rightarrow> nat" where
  "relay_fuel r = Suc (sum_list (map job_weight (rl_queue r)))"

definition process_all ::
    "sha256_fn \<Rightarrow> (message_payload \<Rightarrow> bytes option) \<Rightarrow> relayer \<Rightarrow> bridge_engine \<Rightarrow> u64
      \<Rightarrow> (relayer \<times> bridge_engine \<times> nat \<times> nat) option" where
  "process_all sha json r e h = process_all_go (relay_fuel r) sha json r e h 0 0"

section \<open>Conservation in the vault\<close>

datatype escrow_op =
    LockOp message_id string u64 string chain_id u64
  | ReleaseOp message_id u64
  | RefundOp message_id u64
  | MintOp string u64 chain_id string
  | BurnOp string u64 chain_id string

fun apply_escrow :: "escrow_vault \<Rightarrow> escrow_op \<Rightarrow> escrow_vault" where
  "apply_escrow v (LockOp i s a d c h) = fst (escrow_lock v i s a d c h)"
| "apply_escrow v (ReleaseOp i h) = fst (escrow_release v i h)"
| "apply_escrow v (RefundOp i h) = fst (escrow_refund v i h)"
| "apply_escrow v (MintOp r a c d) = fst (escrow_mint v r a c d)"
| "apply_escrow v (BurnOp r a c d) = fst (escrow_burn v r a c d)"

text \<open>The 64-bit totals do not overflow.\<close>

fun escrow_fits :: "escrow_vault \<Rightarrow> escrow_op \<Rightarrow> bool" where
  "escrow_fits v (LockOp i s a d c h) \<longleftrightarrow> unat (ev_total_locked v) + unat a < 2 ^ 64"
| "escrow_fits v (MintOp r a c d) \<longleftrightarrow> unat (wrapped_total_supply v c d) + unat a < 2 ^ 64"
| "escrow_fits v _ \<longleftrightarrow> True"

fun all_fit :: "escrow_vault \<Rightarrow> escrow_op list \<Rightarrow> bool" where
  "all_fit v [] \<longleftrightarrow> True"
| "all_fit v (op # ops) \<longleftrightarrow> escrow_fits v op \<and> all_fit (apply_escrow v op) ops"

definition pending_amount :: "escrow_entry \<Rightarrow> nat" where
  "pending_amount e = (if ee_status e = TPending then unat (ee_amount e) else 0)"

definition locked_ok :: "escrow_vault \<Rightarrow> bool" where
  "locked_ok v \<longleftrightarrow> hm_ok (ev_locked v) \<and> unat (ev_total_locked v) = hm_total pending_amount (ev_locked v)"

definition balance_ok :: "wrapped_balance \<Rightarrow> bool" where
  "balance_ok b \<longleftrightarrow> hm_ok (wb_balances b) \<and> unat (wb_total_supply b) = hm_total unat (wb_balances b)"

definition wrapped_ok :: "escrow_vault \<Rightarrow> bool" where
  "wrapped_ok v \<longleftrightarrow> (\<forall>c d. balance_ok (wrapped_of v c d))"

lemma locked_ok_lock:
  assumes ok: "locked_ok v" and "escrow_fits v (LockOp i s a d c h)"
  shows "locked_ok (fst (escrow_lock v i s a d c h))"
proof (cases "a = 0 \<or> hm_contains i (ev_locked v)")
  case False
  let ?e = "\<lparr>ee_message_id = i, ee_sender = s, ee_amount = a, ee_denom = d, ee_dest_chain = c,
    ee_status = TPending, ee_locked_at = h, ee_released_at = None\<rparr>"
  have "hm_total pending_amount (hm_insert i ?e (ev_locked v)) = hm_total pending_amount (ev_locked v) + unat a"
    using False ok hm_total_insert [of "ev_locked v" pending_amount i ?e]
    by (simp add: locked_ok_def hm_old_def hm_contains_def pending_amount_def)
  then show ?thesis
    using False ok assms(2) by (simp add: escrow_lock_def locked_ok_def unat_add_no_wrap)
qed (use ok in \<open>auto simp: escrow_lock_def\<close>)

lemma locked_ok_settle:
  assumes ok: "locked_ok v" and st: "st \<noteq> TPending"
  shows "locked_ok (fst (escrow_settle st v i h))"
proof (cases "map_of (ev_locked v) i")
  case (Some e)
  show ?thesis
  proof (cases "ee_status e = TPending")
    case True
    let ?e = "e\<lparr>ee_status := st, ee_released_at := Some h\<rparr>"
    have eq: "hm_total pending_amount (hm_insert i ?e (ev_locked v)) + unat (ee_amount e) =
        hm_total pending_amount (ev_locked v)"
      using ok st Some True hm_total_insert [of "ev_locked v" pending_amount i ?e]
      by (simp add: locked_ok_def hm_old_def pending_amount_def)
    then have "ee_amount e \<le> ev_total_locked v" using ok by (simp add: locked_ok_def word_le_nat_alt)
    then show ?thesis
      using eq ok Some True by (simp add: escrow_settle_def locked_ok_def Let_def unat_sub_no_wrap)
  qed (use ok Some in \<open>simp add: escrow_settle_def\<close>)
qed (use ok in \<open>simp add: escrow_settle_def\<close>)

lemma balance_ok_set:
  assumes "balance_ok b" and "unat (account_of b a) + n = unat x + m"
    and "unat (wb_total_supply b) + n = unat s + m"
  shows "balance_ok \<lparr>wb_balances = hm_insert a x (wb_balances b), wb_total_supply = s\<rparr>"
proof -
  have "hm_old unat (wb_balances b) a = unat (account_of b a)"
    by (simp add: hm_old_def account_of_def split: option.splits)
  then show ?thesis
    using assms hm_total_insert [of "wb_balances b" unat a x] by (simp add: balance_ok_def)
qed

lemma account_le_supply: "balance_ok b \<Longrightarrow> account_of b a \<le> wb_total_supply b"
  using hm_old_le_total [of unat "wb_balances b" a]
  by (simp add: balance_ok_def word_le_nat_alt hm_old_def account_of_def split: option.splits)

lemma wrapped_ok_set: "wrapped_ok v \<Longrightarrow> balance_ok b \<Longrightarrow> wrapped_ok (v\<lparr>ev_wrapped := hm_insert k b (ev_wrapped v)\<rparr>)"
  by (auto simp: wrapped_ok_def wrapped_of_def)

lemma wrapped_ok_mint:
  assumes ok: "wrapped_ok v" and fits: "escrow_fits v (MintOp r a c d)"
  shows "wrapped_ok (fst (escrow_mint v r a c d))"
proof -
  let ?b = "wrapped_of v c d"
  have b: "balance_ok ?b" using ok by (simp add: wrapped_ok_def)
  have sup: "unat (wb_total_supply ?b + a) = unat (wb_total_supply ?b) + unat a"
    using fits by (simp add: wrapped_total_supply_def unat_add_no_wrap)
  have "unat (account_of ?b r) \<le> unat (wb_total_supply ?b)"
    using account_le_supply [OF b] by (simp add: word_le_nat_alt)
  then have "unat (account_of ?b r + a) = unat (account_of ?b r) + unat a"
    using fits by (simp add: wrapped_total_supply_def unat_add_no_wrap)
  then have "balance_ok \<lparr>wb_balances = hm_insert r (account_of ?b r + a) (wb_balances ?b),
      wb_total_supply = wb_total_supply ?b + a\<rparr>"
    using sup by (intro balance_ok_set [OF b, of _ "unat a" _ 0]) simp_all
  then show ?thesis using ok by (simp add: escrow_mint_def wrapped_ok_set Let_def)
qed

lemma wrapped_ok_burn:
  assumes ok: "wrapped_ok v"
  shows "wrapped_ok (fst (escrow_burn v r a c d))"
proof (cases "\<exists>x. snd (escrow_burn v r a c d) = Inr x")
  case False
  then have "fst (escrow_burn v r a c d) = v"
    by (auto simp: escrow_burn_def Let_def split: option.splits if_splits)
  then show ?thesis using ok by simp
next
  case True
  then obtain b where get: "map_of (ev_wrapped v) (c, d) = Some b" and le: "a \<le> account_of b r"
      and v': "fst (escrow_burn v r a c d) = v\<lparr>ev_wrapped := hm_insert (c, d)
        \<lparr>wb_balances = hm_insert r (account_of b r - a) (wb_balances b), wb_total_supply = wb_total_supply b - a\<rparr>
        (ev_wrapped v)\<rparr>"
    by (auto simp: escrow_burn_def Let_def account_of_def not_less split: option.splits if_splits)
  have "wrapped_of v c d = b" by (simp add: wrapped_of_def get)
  then have b: "balance_ok b" using ok by (auto simp: wrapped_ok_def)
  have le': "a \<le> wb_total_supply b" using le account_le_supply [OF b, of r] by simp
  have "balance_ok \<lparr>wb_balances = hm_insert r (account_of b r - a) (wb_balances b), wb_total_supply = wb_total_supply b - a\<rparr>"
    using le le' by (intro balance_ok_set [OF b, of _ 0 _ "unat a"]) (simp_all add: unat_sub_no_wrap word_le_nat_alt)
  then show ?thesis using ok v' by (simp add: wrapped_ok_set)
qed

lemma settle_wrapped: "ev_wrapped (fst (escrow_settle st v i h)) = ev_wrapped v"
  by (auto simp: escrow_settle_def Let_def split: option.splits)

lemma lock_wrapped: "ev_wrapped (fst (escrow_lock v i s a d c h)) = ev_wrapped v"
  by (simp add: escrow_lock_def)

lemma mint_burn_locked:
  "ev_locked (fst (escrow_mint v r a c d)) = ev_locked v" "ev_total_locked (fst (escrow_mint v r a c d)) = ev_total_locked v"
  "ev_locked (fst (escrow_burn v r a c d)) = ev_locked v" "ev_total_locked (fst (escrow_burn v r a c d)) = ev_total_locked v"
  by (auto simp: escrow_mint_def escrow_burn_def Let_def split: option.splits)

lemma vault_step:
  assumes "locked_ok v" and "wrapped_ok v" and "escrow_fits v op"
  shows "locked_ok (apply_escrow v op) \<and> wrapped_ok (apply_escrow v op)"
proof -
  have keep: "wrapped_ok w" if "ev_wrapped w = ev_wrapped v" for w
    using assms(2) that by (simp add: wrapped_ok_def wrapped_of_def)
  have keep': "locked_ok w" if "ev_locked w = ev_locked v" "ev_total_locked w = ev_total_locked v" for w
    using assms(1) that by (simp add: locked_ok_def)
  show ?thesis
    using assms
    by (cases op)
      (simp_all add: locked_ok_lock locked_ok_settle wrapped_ok_mint wrapped_ok_burn escrow_release_def escrow_refund_def
        keep keep' settle_wrapped lock_wrapped mint_burn_locked del: escrow_fits.simps)
qed

text \<open>
  C18: value is conserved in the bridge: after any sequence of locks, releases, refunds, mints and burns
  whose totals fit in 64 bits, the amount reported as locked is the sum of the transfers still
  pending, and the supply of every wrapped token is the sum of its account balances.
\<close>

theorem bridge_value_conserved:
  assumes "all_fit escrow_vault_new ops" and "v = foldl apply_escrow escrow_vault_new ops"
  shows "unat (ev_total_locked v) = (\<Sum>e \<leftarrow> map snd (ev_locked v). pending_amount e) \<and>
    unat (wrapped_total_supply v chain denom) = (\<Sum>x \<leftarrow> map snd (wb_balances (wrapped_of v chain denom)). unat x)"
proof -
  have "locked_ok (foldl apply_escrow v ops) \<and> wrapped_ok (foldl apply_escrow v ops)"
    if "locked_ok v" "wrapped_ok v" "all_fit v ops" for v
    using that by (induction ops arbitrary: v) (auto simp: vault_step)
  moreover have "locked_ok escrow_vault_new" "wrapped_ok escrow_vault_new"
    by (simp_all add: locked_ok_def wrapped_ok_def wrapped_of_def escrow_vault_new_def wrapped_default_def balance_ok_def)
  ultimately have "locked_ok v" "balance_ok (wrapped_of v chain denom)"
    using assms by (auto simp: wrapped_ok_def)
  then show ?thesis
    by (simp add: locked_ok_def balance_ok_def hm_total_def wrapped_total_supply_def comp_def)
qed

theorem bridge_value_conserved_witness:
  "let v = foldl apply_escrow escrow_vault_new [LockOp 1 ''a'' 50 ''N'' ''eth'' 3, LockOp 2 ''b'' 20 ''N'' ''eth'' 4,
       RefundOp 1 9, MintOp ''c'' 7 ''eth'' ''E''] in
   unat (ev_total_locked v) = (\<Sum>e \<leftarrow> map snd (ev_locked v). pending_amount e)"
proof -
  let ?ops = "[LockOp 1 ''a'' 50 ''N'' ''eth'' 3, LockOp 2 ''b'' 20 ''N'' ''eth'' 4, RefundOp 1 9, MintOp ''c'' 7 ''eth'' ''E'']"
  have "all_fit escrow_vault_new ?ops"
    by (simp add: escrow_vault_new_def escrow_lock_def escrow_refund_def escrow_settle_def hm_contains_def hm_insert_def
        wrapped_total_supply_def wrapped_of_def wrapped_default_def Let_def)
  from bridge_value_conserved [OF this refl] show ?thesis by simp
qed


section \<open>Inbound transfers\<close>

text \<open>
  A run of inbound messages, each with the height it is processed at; the second component lists the
  messages that were accepted.
\<close>

fun inbound_run ::
    "sha256_fn \<Rightarrow> (message_payload \<Rightarrow> bytes option) \<Rightarrow> bridge_engine \<Rightarrow> (bridge_message \<times> u64) list
      \<Rightarrow> bridge_engine \<times> bridge_message list" where
  "inbound_run sha json e [] = (e, [])"
| "inbound_run sha json e ((m, h) # ms) =
     (case process_inbound sha json e m h of
        (e1, res) \<Rightarrow>
          (case inbound_run sha json e1 ms of
             (e2, accepted) \<Rightarrow> (e2, (if isl res then accepted else m # accepted))))"

definition minted :: "chain_id \<Rightarrow> string \<Rightarrow> string \<Rightarrow> bridge_message \<Rightarrow> u64" where
  "minted c d account m =
     (case bm_payload m of
        TokenTransfer _ recipient amount denom \<Rightarrow>
          if bm_source_chain m = c \<and> denom = d \<and> recipient = account then amount else 0
      | _ \<Rightarrow> 0)"

definition proof_accepted :: "sha256_fn \<Rightarrow> (message_payload \<Rightarrow> bytes option) \<Rightarrow> bridge_message \<Rightarrow> bool" where
  "proof_accepted sha json m =
     (case (bm_proof m, json (bm_payload m)) of
        (Some p, Some b) \<Rightarrow> verify_merkle_proof sha b p
      | _ \<Rightarrow> False)"

lemma balance_after_mint:
  "wrapped_balance_of (fst (escrow_mint v r a c' d')) account c d =
     wrapped_balance_of v account c d + (if c' = c \<and> d' = d \<and> r = account then a else 0)"
  by (auto simp: escrow_mint_def wrapped_balance_of_def wrapped_of_def account_of_def Let_def
      split: option.splits)

lemma mint_payload_balance:
  "wrapped_balance_of (be_escrow (fst (mint_payload e m))) account c d =
     wrapped_balance_of (be_escrow e) account c d + minted c d account m"
  by (auto simp: mint_payload_def minted_def balance_after_mint [symmetric] split: message_payload.splits prod.splits sum.splits
      dest!: arg_cong [where f = fst])

definition marked :: "bridge_engine \<Rightarrow> message_id set" where
  "marked e = {i. hm_contains i (be_processed e)}"

lemma marked_mint_payload: "marked (fst (mint_payload e m)) = marked e"
  by (auto simp: mint_payload_def marked_def split: message_payload.splits prod.splits sum.splits)

lemma mint_payload_failed:
  assumes "mint_payload e m = (e', Inl err)"
  shows "be_escrow e' = be_escrow e"
  using assms by (auto simp: mint_payload_def escrow_mint_def Let_def split: message_payload.splits if_splits)

lemma process_inbound_error:
  assumes "process_inbound sha json e m h = (e', Inl err)"
  shows "be_escrow e' = be_escrow e \<and> marked e \<subseteq> marked e'"
proof -
  consider "e' = e" | "mint_payload (e\<lparr>be_processed := hm_insert (bm_id m) TCompleted (be_processed e)\<rparr>) m = (e', Inl err)"
    using assms by (auto simp: process_inbound_def Let_def split: option.splits if_splits)
  then show ?thesis
  proof cases
    case 2
    moreover have "marked e' = marked (e\<lparr>be_processed := hm_insert (bm_id m) TCompleted (be_processed e)\<rparr>)"
      using marked_mint_payload [of "e\<lparr>be_processed := hm_insert (bm_id m) TCompleted (be_processed e)\<rparr>" m] 2 by simp
    ultimately show ?thesis by (auto dest: mint_payload_failed simp: marked_def hm_contains_def)
  qed simp
qed

lemma process_inbound_success:
  assumes "process_inbound sha json e m h = (e', Inr u)"
  shows "bm_id m \<notin> marked e" and "marked e' = insert (bm_id m) (marked e)" and "proof_accepted sha json m"
    and "wrapped_balance_of (be_escrow e') account c d = wrapped_balance_of (be_escrow e) account c d + minted c d account m"
proof -
  let ?e = "e\<lparr>be_processed := hm_insert (bm_id m) TCompleted (be_processed e)\<rparr>"
  have pay: "mint_payload ?e m = (e', Inr u)" and new: "\<not> hm_contains (bm_id m) (be_processed e)"
    and checked: "proof_accepted sha json m"
    using assms by (auto simp: process_inbound_def proof_accepted_def Let_def split: option.splits if_splits)
  show "bm_id m \<notin> marked e" using new by (simp add: marked_def)
  show "proof_accepted sha json m" by (rule checked)
  show "marked e' = insert (bm_id m) (marked e)"
    using marked_mint_payload [of ?e m] pay by (auto simp: marked_def hm_contains_def)
  show "wrapped_balance_of (be_escrow e') account c d = wrapped_balance_of (be_escrow e) account c d + minted c d account m"
    using mint_payload_balance [of ?e m account c d] pay by simp
qed

text \<open>
  C19: over any run of inbound messages no identifier is accepted twice, and none that the engine
  had already marked; every accepted message carries a proof that verifies for its payload; and the
  balance of every account in every wrapped token grows by exactly the amounts of the accepted
  transfers to it, while rejected messages mint nothing.
\<close>

theorem inbound_minted_once:
  "case inbound_run sha json e ms of
     (e', accepted) \<Rightarrow>
       distinct (map bm_id accepted) \<and>
       bm_id ` set accepted \<inter> marked e = {} \<and>
       list_all (proof_accepted sha json) accepted \<and>
       wrapped_balance_of (be_escrow e') account c d =
         wrapped_balance_of (be_escrow e) account c d + (\<Sum>m \<leftarrow> accepted. minted c d account m)"
proof (induction ms arbitrary: e)
  case (Cons mh ms)
  obtain m h where mh: "mh = (m, h)" by (cases mh)
  obtain e1 res where step: "process_inbound sha json e m h = (e1, res)" by (cases "process_inbound sha json e m h")
  obtain e2 acc where run: "inbound_run sha json e1 ms = (e2, acc)" by (cases "inbound_run sha json e1 ms")
  show ?case
  proof (cases res)
    case (Inl err)
    then show ?thesis using Cons.IH [of e1] process_inbound_error [of sha json e m h e1 err] step run mh by auto
  next
    case (Inr u)
    note ok = process_inbound_success [OF step [unfolded Inr]]
    show ?thesis using Cons.IH [of e1] ok(1,2,3) ok(4) [of account c d] step run mh Inr by auto
  qed
qed simp


text \<open>
  The bridge accepts proofs that prove nothing about the source chain. The root a proof is checked
  against is part of the proof itself, so for a registered active chain a message with enough
  confirmations, a fresh identifier and any transfer at all is accepted and minted with the one-leaf
  proof of its own payload, and a relayer given a message without a proof attaches exactly such a
  proof, so the transfer is minted too.
\<close>

theorem unproven_transfer_minted:
  assumes "get_chain (be_registry e) (bm_source_chain m) = Some config" and "ch_active config"
    and "\<not> sat_sub h (bm_source_height m) < ch_min_confirmations config"
    and "bm_payload m = TokenTransfer sender recipient amount denom" and "amount \<noteq> 0"
    and "json (bm_payload m) = Some b" and "\<not> hm_contains (bm_id m) (be_processed e)"
    and "bm_proof m = None" and "rl_queue r = [\<lparr>rj_message = m, rj_direction = Inbound, rj_attempts = 0, rj_max_attempts = k\<rparr>]"
  shows "\<exists>r' e'. process_next sha json r e h = (r', e', Inr (bm_id m)) \<and>
    wrapped_balance_of (be_escrow e') recipient (bm_source_chain m) denom =
      wrapped_balance_of (be_escrow e) recipient (bm_source_chain m) denom + amount"
proof -
  obtain p where p: "build_merkle_tree sha [b] = Some (Some (sha b), [p])" "verify_merkle_proof sha b p"
    by (auto simp: build_merkle_tree_def padded_leaves_def next_power_of_two_def pow2_from.simps build_layers.simps
        verify_merkle_proof_def Let_def)
  let ?m = "m\<lparr>bm_proof := Some p\<rparr>"
  obtain e' where e': "process_inbound sha json e ?m h = (e', Inr ())"
    using assms p(2) by (auto simp: process_inbound_def mint_payload_def escrow_mint_def Let_def)
  have "ensure_proof sha json m = Some ?m" using assms(6,8) p(1) by (simp add: ensure_proof_def)
  then have "\<exists>r'. process_next sha json r e h = (r', e', Inr (bm_id m))"
    using assms(9) e' by (simp add: process_next_def finish_job_def Let_def)
  moreover have "minted (bm_source_chain m) denom recipient ?m = amount"
    using assms(4) by (simp add: minted_def)
  ultimately show ?thesis using process_inbound_success(4) [OF e', of recipient "bm_source_chain m" denom] by auto
qed

definition demo_chain :: chain_config where
  "demo_chain = \<lparr>ch_chain_id = ''eth'', ch_name = ''eth'', ch_protocol = RelayBridge, ch_active = True,
     ch_min_confirmations = 6, ch_max_transfer = 0\<rparr>"

definition demo_message :: bridge_message where
  "demo_message = \<lparr>bm_id = 9, bm_source_chain = ''eth'', bm_dest_chain = native_chain, bm_sequence = 1,
     bm_payload = TokenTransfer ''x'' ''mallory'' 1000 ''ETH'', bm_source_height = 10, bm_source_timestamp = 0,
     bm_proof = None\<rparr>"

theorem unproven_transfer_minted_witness:
  "\<exists>r' e'. process_next demo_sha (\<lambda>_. Some [1, 2]) (queue_inbound (relayer_new 3) demo_message)
       (bridge_engine_new\<lparr>be_registry := [(''eth'', demo_chain)]\<rparr>) 20 = (r', e', Inr 9) \<and>
     wrapped_balance_of (be_escrow e') ''mallory'' ''eth'' ''ETH'' = 1000"
proof -
  have "sat_sub (20 :: u64) 10 = 10" by (simp add: sat_sub_def)
  moreover have "wrapped_balance_of escrow_vault_new ''mallory'' ''eth'' ''ETH'' = 0"
    by (simp add: wrapped_balance_of_def wrapped_of_def escrow_vault_new_def wrapped_default_def account_of_def)
  ultimately show ?thesis
    using unproven_transfer_minted [of "bridge_engine_new\<lparr>be_registry := [(''eth'', demo_chain)]\<rparr>" demo_message demo_chain 20
        "''x''" "''mallory''" 1000 "''ETH''" "\<lambda>_. Some [1, 2]" "[1, 2]" "queue_inbound (relayer_new 3) demo_message" 3 demo_sha]
    by (simp add: get_chain_def demo_message_def demo_chain_def bridge_engine_new_def hm_contains_def
        queue_inbound_def queue_job_def relayer_new_def MAX_RELAY_QUEUE_def)
qed


section \<open>The relayer always drains its queue\<close>

text \<open>
  A queued job is fresh or still below its limit, so counting an attempt never wraps. Every call of
  \<open>process_next\<close> removes at least one unit of \<open>job_weight\<close> from the queue.
\<close>

definition job_ok :: "relay_job \<Rightarrow> bool" where
  "job_ok job \<longleftrightarrow> rj_attempts job = 0 \<or> rj_attempts job < rj_max_attempts job"

definition pending_work :: "relayer \<Rightarrow> nat" where
  "pending_work r = sum_list (map job_weight (rl_queue r))"

definition queue_ok :: "relayer \<Rightarrow> bool" where
  "queue_ok r \<longleftrightarrow> list_all job_ok (rl_queue r)"

lemma attempt_counted:
  assumes "job_ok job"
  shows "unat (rj_attempts job + 1) = Suc (unat (rj_attempts job))"
proof -
  have "unat (rj_max_attempts job) < 4294967296" using unsigned_less [of "rj_max_attempts job"] by simp
  then have "Suc (unat (rj_attempts job)) < 2 ^ 32" using assms by (auto simp: job_ok_def word_less_nat_alt)
  then show ?thesis by (simp add: unat_word_ariths)
qed

lemma finish_job_work:
  assumes "job_ok job0" and "queue_ok r" and "rj_attempts job = rj_attempts job0 + 1"
    and "rj_max_attempts job = rj_max_attempts job0" and "finish_job r job res = (r', out)"
  shows "queue_ok r' \<and> pending_work r' < pending_work r + job_weight job0 \<and> out \<noteq> Inl EmptyQueue \<or> res = Inl EmptyQueue"
  using assms attempt_counted [OF assms(1)]
  by (auto simp: finish_job_def queue_ok_def pending_work_def job_weight_def job_ok_def Let_def word_less_nat_alt word_le_nat_alt
      split: sum.splits if_splits)

lemma process_next_work:
  assumes "queue_ok r" and "rl_queue r \<noteq> []" and "process_next sha json r e h = (r', e', out)"
  shows "queue_ok r' \<and> pending_work r' < pending_work r \<and> out \<noteq> Inl EmptyQueue"
proof -
  obtain job0 rest where q: "rl_queue r = job0 # rest" using assms(2) by (cases "rl_queue r") auto
  let ?r = "r\<lparr>rl_queue := rest, rl_status := RRelaying\<rparr>"
  let ?job = "job0\<lparr>rj_attempts := rj_attempts job0 + 1\<rparr>"
  have ok: "job_ok job0" "queue_ok ?r" using assms(1) q by (simp_all add: queue_ok_def)
  have work: "pending_work r = pending_work ?r + job_weight job0" using q by (simp add: pending_work_def)
  have pos: "0 < job_weight job0" by (simp add: job_weight_def)
  consider (drop) "r' = ?r" "out = Inl ExternalChain"
    | (finish) m res where "finish_job ?r (?job\<lparr>rj_message := m\<rparr>) res = (r', out)" "res \<noteq> Inl EmptyQueue"
  proof (cases "rj_direction job0")
    case Outbound
    then show ?thesis
      using assms(3) q that(2) [of "rj_message ?job" "Inr ()"] by (auto simp: process_next_def Let_def split: prod.splits)
  next
    case Inbound
    then show ?thesis
      using assms(3) q that by (fastforce simp: process_next_def Let_def split: option.splits prod.splits sum.splits)
  qed
  then show ?thesis
  proof cases
    case drop
    then show ?thesis using ok work pos by simp
  next
    case finish
    then show ?thesis using finish_job_work [OF ok _ _ finish(1)] work by simp
  qed
qed

lemma process_all_go_drains:
  assumes "queue_ok r" and "pending_work r < n"
  shows "\<exists>r' e' s f. process_all_go n sha json r e h success failures = Some (r', e', s, f) \<and>
    rl_queue r' = [] \<and> s + f \<le> success + failures + pending_work r"
  using assms
proof (induction n arbitrary: r e success failures)
  case (Suc n)
  obtain r1 e1 out where step: "process_next sha json r e h = (r1, e1, out)" by (cases "process_next sha json r e h") auto
  show ?case
  proof (cases "rl_queue r = []")
    case True
    then show ?thesis by (simp add: process_next_def)
  next
    case False
    note w = process_next_work [OF Suc.prems(1) False step]
    then have small: "queue_ok r1" "pending_work r1 < n" using Suc.prems(2) by auto
    show ?thesis
      using Suc.IH [OF small, of e1 "Suc success" failures] Suc.IH [OF small, of e1 success "Suc failures"] w step
      by (cases out) fastforce+
  qed
qed simp

lemma queue_job_fold:
  "queue_ok r \<Longrightarrow> queue_ok (foldl (\<lambda>r (d, m). queue_job d r m) r jobs) \<and>
   pending_work (foldl (\<lambda>r (d, m). queue_job d r m) r jobs) \<le> pending_work r + length jobs * Suc (unat (rl_max_attempts r))"
proof (induction jobs arbitrary: r)
  case (Cons dm jobs)
  obtain d m where dm: "dm = (d, m)" by (cases dm)
  have "queue_ok (queue_job d r m)" "pending_work (queue_job d r m) \<le> pending_work r + Suc (unat (rl_max_attempts r))"
    "rl_max_attempts (queue_job d r m) = rl_max_attempts r"
    using Cons.prems by (auto simp: queue_ok_def queue_job_def job_ok_def pending_work_def job_weight_def)
  then show ?case using Cons.IH [of "queue_job d r m"] dm by (fastforce simp: algebra_simps)
qed simp

text \<open>
  C35: \<open>process_all\<close> always returns. For a relayer filled through its queue operations, with any retry
  limit and whatever the bridge answers, the loop ends with an empty queue after at most
  (limit + 1) attempts per queued message.
\<close>

theorem relayer_drains:
  "\<exists>r' e' success failures.
     process_all sha json (foldl (\<lambda>r (d, m). queue_job d r m) (relayer_new k) jobs) e h = Some (r', e', success, failures) \<and>
     rl_queue r' = [] \<and> success + failures \<le> length jobs * Suc (unat k)"
proof -
  let ?r = "foldl (\<lambda>r (d, m). queue_job d r m) (relayer_new k) jobs"
  have "queue_ok (relayer_new k)" "pending_work (relayer_new k) = 0" "rl_max_attempts (relayer_new k) = k"
    by (simp_all add: relayer_new_def queue_ok_def pending_work_def)
  with queue_job_fold [of "relayer_new k" jobs] have ok: "queue_ok ?r" "pending_work ?r \<le> length jobs * Suc (unat k)" by auto
  have "pending_work ?r < relay_fuel ?r" by (simp add: relay_fuel_def pending_work_def)
  from process_all_go_drains [OF ok(1) this, of sha json e h 0 0] ok(2) show ?thesis
    unfolding process_all_def by fastforce
qed

end
