(* ===== verification/Contracts.thy ===== *)
theory Contracts
  imports Cerulean_Prelude
begin

text \<open>
  The smart contracts of \<open>smart_contracts.rs\<close>: fungible tokens with balances and allowances,
  non-fungible tokens with owners, approvals and reverse indices, and the contract manager. Every
  function of a contract is one operation on the contract record, with its checks in source order.

  The clock, the random part of addresses, SHA-256, JSON, the debug output of optional fields and the
  Unicode test on the characters of an address are parameters. The success messages carry no
  information beyond the arguments and are left out.
\<close>

section \<open>Contracts and their state\<close>

record attribute =
  at_trait_type :: string
  at_value :: string

record nft_metadata =
  nm_name :: string
  nm_description :: string
  nm_image :: string
  nm_external_url :: string
  nm_attributes :: "attribute list"

datatype contract_function =
    Transfer string u64
  | TransferFrom string string u64
  | Approve string u64
  | Mint string u64
  | Burn string u64
  | MintNFT string u64 string
  | TransferNFT string string u64
  | ApproveNFT string u64
  | TransferFromNFT string string u64
  | BurnNFT string u64
  | SetNFTMetadata u64 nft_metadata
  | Custom string "string list"

record contract_state =
  cs_balances :: "(string, u64) hash_map"
  cs_metadata :: "(string, string) hash_map"
  cs_allowances :: "(string, (string, u64) hash_map) hash_map"
  cs_token_owners :: "(u64, string) hash_map"
  cs_token_uris :: "(u64, string) hash_map"
  cs_token_approvals :: "(u64, string) hash_map"
  cs_nft_balances :: "(string, u64) hash_map"
  cs_nft_metadata :: "(u64, nft_metadata) hash_map"
  cs_owner_to_tokens :: "(string, u64 list) hash_map"
  cs_token_index :: "u64 list"

definition contract_state_new :: contract_state where
  "contract_state_new = \<lparr>cs_balances = [], cs_metadata = [], cs_allowances = [], cs_token_owners = [],
     cs_token_uris = [], cs_token_approvals = [], cs_nft_balances = [], cs_nft_metadata = [],
     cs_owner_to_tokens = [], cs_token_index = []\<rparr>"

record smart_contract =
  sc_address :: string
  sc_owner :: string
  sc_contract_type :: string
  sc_name :: string
  sc_symbol :: "string option"
  sc_total_supply :: "u64 option"
  sc_decimals :: "u8 option"
  sc_state :: contract_state
  sc_bytecode :: "bytes option"
  sc_abi :: "string option"
  sc_created_at :: u64
  sc_updated_at :: u64
  sc_update_sequence :: u64
  sc_integrity_hash :: "string option"

text \<open>What the contracts take from the environment.\<close>

record contract_env =
  ce_now :: u64
  ce_uuid :: string
  ce_sha_hex :: "string \<Rightarrow> string"
  ce_addr_chars :: "string \<Rightarrow> bool"
  ce_json_amounts :: "(string, u64) hash_map \<Rightarrow> string"
  ce_json_allowances :: "(string, (string, u64) hash_map) hash_map \<Rightarrow> string"
  ce_json_tokens :: "(u64, string) hash_map \<Rightarrow> string"
  ce_json_metadata :: "(u64, nft_metadata) hash_map \<Rightarrow> string"
  ce_json_owned :: "(string, u64 list) hash_map \<Rightarrow> string"
  ce_json_index :: "u64 list \<Rightarrow> string"
  ce_debug_str :: "string option \<Rightarrow> string"
  ce_debug_u64 :: "u64 option \<Rightarrow> string"
  ce_debug_u8 :: "u8 option \<Rightarrow> string"

datatype contract_error =
    AddressEmpty
  | AddressZero
  | AddressTooShort
  | AddressTooLong
  | AddressChars
  | AmountZero
  | AmountTooLarge u64
  | SelfTransfer
  | LowBalance
  | BalanceOverflow
  | LowAllowance
  | SelfApproval
  | SupplyOverflow
  | SupplyExceeded
  | WrongType string string
  | ReservedToken
  | TokenTooLarge u64
  | TokenExists u64
  | TooManyTokens
  | TooManyOwned
  | UriTooLong
  | NoSuchToken u64
  | NotOwnedBy u64 string
  | NotAuthorized string u64
  | NotApproved u64
  | MetadataTooLarge
  | CallerRequired
  | NoSuchContract
  | AddressTaken
  | NotIndexed u64
  | IndexedWithoutOwner u64
  | BalanceMismatch string u64 u64
  | OwnerMismatch u64 string string
  | OwnedWithoutOwner u64 string
  | SupplyMismatch u64 u64

definition MIN_ADDRESS_LENGTH :: nat where "MIN_ADDRESS_LENGTH = 32"
definition MAX_ADDRESS_LENGTH :: nat where "MAX_ADDRESS_LENGTH = 128"
definition MAX_TOKEN_ID :: u64 where "MAX_TOKEN_ID = 1000000000"
definition MAX_AMOUNT :: u64 where "MAX_AMOUNT = 1000000000000"
definition MAX_TOKENS_PER_CONTRACT :: nat where "MAX_TOKENS_PER_CONTRACT = 10000000"
definition MAX_TOKENS_PER_OWNER :: nat where "MAX_TOKENS_PER_OWNER = 1000000"
definition MAX_TOKEN_URI_LENGTH :: nat where "MAX_TOKEN_URI_LENGTH = 2048"

definition contract_hash :: "contract_env \<Rightarrow> smart_contract \<Rightarrow> string" where
  "contract_hash env c =
     (let st = sc_state c in
      ce_sha_hex env
        (sc_address c @ sc_owner c @ sc_contract_type c @ sc_name c @
         ce_debug_str env (sc_symbol c) @ ce_debug_u64 env (sc_total_supply c) @ ce_debug_u8 env (sc_decimals c) @
         ce_json_amounts env (cs_balances st) @ ce_json_allowances env (cs_allowances st) @
         ce_json_tokens env (cs_token_owners st) @ ce_json_tokens env (cs_token_uris st) @
         ce_json_tokens env (cs_token_approvals st) @ ce_json_amounts env (cs_nft_balances st) @
         ce_json_metadata env (cs_nft_metadata st) @ ce_json_owned env (cs_owner_to_tokens st) @
         ce_json_index env (cs_token_index st) @
         show_u64 (sc_created_at c) @ show_u64 (sc_updated_at c) @ show_u64 (sc_update_sequence c)))"

definition validate_integrity :: "contract_env \<Rightarrow> smart_contract \<Rightarrow> bool" where
  "validate_integrity env c =
     (case sc_integrity_hash c of Some stored \<Rightarrow> stored = contract_hash env c | None \<Rightarrow> False)"

definition generate_address :: "contract_env \<Rightarrow> string \<Rightarrow> string \<Rightarrow> string" where
  "generate_address env owner name = ''contract_'' @ ce_sha_hex env (owner @ name @ ce_uuid env)"

definition smart_contract_new ::
    "contract_env \<Rightarrow> string \<Rightarrow> string \<Rightarrow> string \<Rightarrow> string option \<Rightarrow> u64 option \<Rightarrow> u8 option \<Rightarrow> smart_contract" where
  "smart_contract_new env owner contract_type name symbol supply decimals =
     (let c = \<lparr>sc_address = generate_address env owner name, sc_owner = owner, sc_contract_type = contract_type,
               sc_name = name, sc_symbol = symbol, sc_total_supply = supply, sc_decimals = decimals,
               sc_state = contract_state_new, sc_bytecode = None, sc_abi = None, sc_created_at = ce_now env,
               sc_updated_at = ce_now env, sc_update_sequence = 0, sc_integrity_hash = None\<rparr> in
      c\<lparr>sc_integrity_hash := Some (contract_hash env c)\<rparr>)"

text \<open>The common end of every successful function: time, sequence number and integrity hash.\<close>

definition touch :: "contract_env \<Rightarrow> smart_contract \<Rightarrow> smart_contract" where
  "touch env c =
     (let c' = c\<lparr>sc_updated_at := ce_now env, sc_update_sequence := sc_update_sequence c + 1\<rparr> in
      c'\<lparr>sc_integrity_hash := Some (contract_hash env c')\<rparr>)"

section \<open>Checks and events\<close>

definition validate_address :: "contract_env \<Rightarrow> string \<Rightarrow> contract_error + unit" where
  "validate_address env a =
     checks [require (a \<noteq> []) AddressEmpty,
             require (\<not> (a = ''0'' \<or> length a = 1 \<and> list_all (\<lambda>ch. ch = CHR ''0'') a)) AddressZero,
             require (MIN_ADDRESS_LENGTH \<le> length a) AddressTooShort,
             require (length a \<le> MAX_ADDRESS_LENGTH) AddressTooLong,
             require (ce_addr_chars env a) AddressChars]"

definition validate_token_id :: "u64 \<Rightarrow> contract_error + unit" where
  "validate_token_id t = checks [require (t \<noteq> 0) ReservedToken, require (t \<le> MAX_TOKEN_ID) (TokenTooLarge t)]"

definition ensure_contract_type :: "smart_contract \<Rightarrow> string \<Rightarrow> contract_error + unit" where
  "ensure_contract_type c expected = require (sc_contract_type c = expected) (WrongType expected (sc_contract_type c))"

text \<open>
  When a thousand metadata entries are reached, all but 500 of the events are dropped; which ones go
  depends on the iteration order of the map.
\<close>

definition prune_events :: "(string, string) hash_map \<Rightarrow> (string, string) hash_map" where
  "prune_events m =
     (if length m \<ge> 1000 then
        let event_keys = filter (\<lambda>k. take 6 k = ''event_'') (map fst m) in
        if length event_keys > 500
        then foldl (\<lambda>m k. hm_remove k m) m (take (length event_keys - 500) event_keys)
        else m
      else m)"

definition log_event :: "smart_contract \<Rightarrow> string \<Rightarrow> string \<Rightarrow> smart_contract" where
  "log_event c kind entry =
     c\<lparr>sc_state := (sc_state c)\<lparr>cs_metadata :=
        hm_insert (kind @ show_u64 (sc_update_sequence c)) entry (prune_events (cs_metadata (sc_state c)))\<rparr>\<rparr>"

definition emit_transfer_event :: "smart_contract \<Rightarrow> string \<Rightarrow> string \<Rightarrow> u64 \<Rightarrow> smart_contract" where
  "emit_transfer_event c from to v =
     log_event c ''event_transfer_'' (''from:'' @ from @ ''|to:'' @ to @ ''|value:'' @ show_u64 v)"

definition emit_approval_event :: "smart_contract \<Rightarrow> string \<Rightarrow> string \<Rightarrow> u64 \<Rightarrow> smart_contract" where
  "emit_approval_event c owner spender v =
     log_event c ''event_approval_'' (''owner:'' @ owner @ ''|spender:'' @ spender @ ''|value:'' @ show_u64 v)"

definition emit_nft_transfer_event :: "smart_contract \<Rightarrow> string \<Rightarrow> string \<Rightarrow> u64 \<Rightarrow> smart_contract" where
  "emit_nft_transfer_event c from to t =
     log_event c ''event_nft_transfer_'' (''from:'' @ from @ ''|to:'' @ to @ ''|token_id:'' @ show_u64 t)"

definition emit_nft_approval_event :: "smart_contract \<Rightarrow> string \<Rightarrow> string \<Rightarrow> u64 \<Rightarrow> smart_contract" where
  "emit_nft_approval_event c owner approved t =
     log_event c ''event_nft_approval_'' (''owner:'' @ owner @ ''|approved:'' @ approved @ ''|token_id:'' @ show_u64 t)"

section \<open>Fungible tokens\<close>

definition get_balance :: "smart_contract \<Rightarrow> string \<Rightarrow> u64" where
  "get_balance c a = (case map_of (cs_balances (sc_state c)) a of Some b \<Rightarrow> b | None \<Rightarrow> 0)"

definition set_balance :: "smart_contract \<Rightarrow> string \<Rightarrow> u64 \<Rightarrow> smart_contract" where
  "set_balance c a b = c\<lparr>sc_state := (sc_state c)\<lparr>cs_balances := hm_insert a b (cs_balances (sc_state c))\<rparr>\<rparr>"

definition get_current_supply :: "smart_contract \<Rightarrow> u64" where
  "get_current_supply c = sum_list (map snd (cs_balances (sc_state c)))"

definition total_supply :: "smart_contract \<Rightarrow> u64" where
  "total_supply c = (case sc_total_supply c of Some s \<Rightarrow> s | None \<Rightarrow> get_current_supply c)"

definition allowance :: "smart_contract \<Rightarrow> string \<Rightarrow> string \<Rightarrow> u64" where
  "allowance c owner spender =
     (case map_of (cs_allowances (sc_state c)) owner of
        None \<Rightarrow> 0
      | Some m \<Rightarrow> (case map_of m spender of Some a \<Rightarrow> a | None \<Rightarrow> 0))"

definition set_allowance :: "smart_contract \<Rightarrow> string \<Rightarrow> string \<Rightarrow> u64 \<Rightarrow> smart_contract" where
  "set_allowance c owner spender amount =
     (let m = (case map_of (cs_allowances (sc_state c)) owner of Some m \<Rightarrow> m | None \<Rightarrow> []) in
      c\<lparr>sc_state := (sc_state c)\<lparr>cs_allowances :=
         hm_insert owner (hm_insert spender amount m) (cs_allowances (sc_state c))\<rparr>\<rparr>)"

definition decrease_allowance :: "smart_contract \<Rightarrow> string \<Rightarrow> string \<Rightarrow> u64 \<Rightarrow> smart_contract" where
  "decrease_allowance c owner spender amount =
     (case map_of (cs_allowances (sc_state c)) owner of
        None \<Rightarrow> c
      | Some m \<Rightarrow>
          (case map_of m spender of
             None \<Rightarrow> c
           | Some a \<Rightarrow> if a \<ge> amount then set_allowance c owner spender (a - amount) else c))"

definition add_fits :: "u64 \<Rightarrow> u64 \<Rightarrow> bool" where
  "add_fits a b \<longleftrightarrow> unat a + unat b < 2 ^ 64"

definition move_balance :: "smart_contract \<Rightarrow> string \<Rightarrow> string \<Rightarrow> u64 \<Rightarrow> smart_contract" where
  "move_balance c from to amount =
     set_balance (set_balance c from (get_balance c from - amount)) to (get_balance c to + amount)"

definition transfer :: "contract_env \<Rightarrow> smart_contract \<Rightarrow> string \<Rightarrow> string \<Rightarrow> u64 \<Rightarrow> smart_contract \<times> (contract_error + unit)" where
  "transfer env c from to amount =
     (case checks [validate_address env from, validate_address env to,
                   require (amount \<noteq> 0) AmountZero, require (amount \<le> MAX_AMOUNT) (AmountTooLarge MAX_AMOUNT),
                   require (from \<noteq> to) SelfTransfer,
                   require (amount \<le> get_balance c from) LowBalance,
                   require (add_fits (get_balance c to) amount) BalanceOverflow] of
        Inl e \<Rightarrow> (c, Inl e)
      | Inr _ \<Rightarrow> (touch env (emit_transfer_event (move_balance c from to amount) from to amount), Inr ()))"

definition transfer_from ::
    "contract_env \<Rightarrow> smart_contract \<Rightarrow> string \<Rightarrow> string \<Rightarrow> u64 \<Rightarrow> string \<Rightarrow> smart_contract \<times> (contract_error + unit)" where
  "transfer_from env c from to amount spender =
     (case checks [validate_address env from, validate_address env to, validate_address env spender,
                   require (amount \<noteq> 0) AmountZero, require (amount \<le> MAX_AMOUNT) (AmountTooLarge MAX_AMOUNT),
                   require (from \<noteq> to) SelfTransfer,
                   require (amount \<le> allowance c from spender) LowAllowance,
                   require (amount \<le> get_balance c from) LowBalance,
                   require (add_fits (get_balance c to) amount) BalanceOverflow] of
        Inl e \<Rightarrow> (c, Inl e)
      | Inr _ \<Rightarrow>
          (touch env (emit_transfer_event (decrease_allowance (move_balance c from to amount) from spender amount) from to amount),
           Inr ()))"

definition approve :: "contract_env \<Rightarrow> smart_contract \<Rightarrow> string \<Rightarrow> string \<Rightarrow> u64 \<Rightarrow> smart_contract \<times> (contract_error + unit)" where
  "approve env c owner spender amount =
     (case checks [validate_address env owner, validate_address env spender, require (owner \<noteq> spender) SelfApproval,
                   require (amount \<le> MAX_AMOUNT) (AmountTooLarge MAX_AMOUNT)] of
        Inl e \<Rightarrow> (c, Inl e)
      | Inr _ \<Rightarrow> (touch env (emit_approval_event (set_allowance c owner spender amount) owner spender amount), Inr ()))"

definition mint :: "contract_env \<Rightarrow> smart_contract \<Rightarrow> string \<Rightarrow> u64 \<Rightarrow> smart_contract \<times> (contract_error + unit)" where
  "mint env c to amount =
     (case checks [validate_address env to, require (amount \<noteq> 0) AmountZero,
                   require (amount \<le> MAX_AMOUNT) (AmountTooLarge MAX_AMOUNT),
                   (case sc_total_supply c of
                      None \<Rightarrow> Inr ()
                    | Some max_supply \<Rightarrow>
                        checks [require (add_fits (get_current_supply c) amount) SupplyOverflow,
                                require (get_current_supply c + amount \<le> max_supply) SupplyExceeded]),
                   require (add_fits (get_balance c to) amount) BalanceOverflow] of
        Inl e \<Rightarrow> (c, Inl e)
      | Inr _ \<Rightarrow> (touch env (set_balance c to (get_balance c to + amount)), Inr ()))"

definition burn :: "contract_env \<Rightarrow> smart_contract \<Rightarrow> string \<Rightarrow> u64 \<Rightarrow> smart_contract \<times> (contract_error + unit)" where
  "burn env c from amount =
     (case checks [validate_address env from, require (amount \<noteq> 0) AmountZero,
                   require (amount \<le> MAX_AMOUNT) (AmountTooLarge MAX_AMOUNT),
                   require (amount \<le> get_balance c from) LowBalance] of
        Inl e \<Rightarrow> (c, Inl e)
      | Inr _ \<Rightarrow> (touch env (set_balance c from (get_balance c from - amount)), Inr ()))"

definition execute_custom :: "contract_env \<Rightarrow> smart_contract \<Rightarrow> string \<Rightarrow> smart_contract \<times> (contract_error + unit)" where
  "execute_custom env c name =
     (touch env (c\<lparr>sc_state := (sc_state c)\<lparr>cs_metadata :=
        hm_insert (''last_execution_'' @ name) (show_u64 (ce_now env)) (cs_metadata (sc_state c))\<rparr>\<rparr>), Inr ())"


section \<open>Non-fungible tokens\<close>

definition owner_of :: "smart_contract \<Rightarrow> u64 \<Rightarrow> string option" where
  "owner_of c t = map_of (cs_token_owners (sc_state c)) t"

definition get_approved :: "smart_contract \<Rightarrow> u64 \<Rightarrow> string option" where
  "get_approved c t = map_of (cs_token_approvals (sc_state c)) t"

definition nft_count :: "contract_state \<Rightarrow> string \<Rightarrow> u64" where
  "nft_count st a = (case map_of (cs_nft_balances st) a of Some b \<Rightarrow> b | None \<Rightarrow> 0)"

definition balance_of_nft :: "smart_contract \<Rightarrow> string \<Rightarrow> u64" where
  "balance_of_nft c a = nft_count (sc_state c) a"

definition owned_by :: "contract_state \<Rightarrow> string \<Rightarrow> u64 list" where
  "owned_by st a = (case map_of (cs_owner_to_tokens st) a of Some ts \<Rightarrow> ts | None \<Rightarrow> [])"

definition tokens_of_owner :: "smart_contract \<Rightarrow> string \<Rightarrow> u64 list" where
  "tokens_of_owner c owner = sort_by (\<le>) (owned_by (sc_state c) owner)"

text \<open>Giving a token to an owner and taking it away: the counter and the set of owned tokens.\<close>

definition give_token :: "contract_state \<Rightarrow> string \<Rightarrow> u64 \<Rightarrow> contract_state" where
  "give_token st to t =
     st\<lparr>cs_nft_balances := hm_insert to (nft_count st to + 1) (cs_nft_balances st),
        cs_owner_to_tokens := hm_insert to (List.insert t (owned_by st to)) (cs_owner_to_tokens st)\<rparr>"

definition take_token :: "contract_state \<Rightarrow> string \<Rightarrow> u64 \<Rightarrow> contract_state" where
  "take_token st from t =
     st\<lparr>cs_nft_balances := (if nft_count st from > 0 then hm_insert from (nft_count st from - 1) (cs_nft_balances st)
                            else cs_nft_balances st),
        cs_owner_to_tokens :=
          (case map_of (cs_owner_to_tokens st) from of
             None \<Rightarrow> cs_owner_to_tokens st
           | Some ts \<Rightarrow>
               let ts' = removeAll t ts in
               if ts' = [] then hm_remove from (cs_owner_to_tokens st)
               else hm_insert from ts' (cs_owner_to_tokens st))\<rparr>"

definition mint_nft :: "contract_env \<Rightarrow> smart_contract \<Rightarrow> string \<Rightarrow> u64 \<Rightarrow> string \<Rightarrow> smart_contract \<times> (contract_error + unit)" where
  "mint_nft env c to t uri =
     (let st = sc_state c in
      case checks [ensure_contract_type c ''nft'', validate_address env to, validate_token_id t,
                   require (\<not> hm_contains t (cs_token_owners st)) (TokenExists t),
                   require (length (cs_token_index st) < MAX_TOKENS_PER_CONTRACT) TooManyTokens,
                   require (length (owned_by st to) < MAX_TOKENS_PER_OWNER) TooManyOwned,
                   require (uri = [] \<or> length uri \<le> MAX_TOKEN_URI_LENGTH) UriTooLong] of
        Inl e \<Rightarrow> (c, Inl e)
      | Inr _ \<Rightarrow>
          let st' = (give_token st to t)
                \<lparr>cs_token_owners := hm_insert t to (cs_token_owners st),
                 cs_token_uris := (if uri = [] then cs_token_uris st else hm_insert t uri (cs_token_uris st)),
                 cs_token_index := cs_token_index st @ [t]\<rparr> in
          (touch env (emit_nft_transfer_event (c\<lparr>sc_state := st'\<rparr>) ''0'' to t), Inr ()))"

definition move_token :: "contract_state \<Rightarrow> string \<Rightarrow> string \<Rightarrow> u64 \<Rightarrow> contract_state" where
  "move_token st from to t =
     give_token (take_token (st\<lparr>cs_token_owners := hm_insert t to (cs_token_owners st)\<rparr>) from t) to t"

definition transfer_nft ::
    "contract_env \<Rightarrow> smart_contract \<Rightarrow> string \<Rightarrow> string \<Rightarrow> u64 \<Rightarrow> string \<Rightarrow> smart_contract \<times> (contract_error + unit)" where
  "transfer_nft env c from to t caller =
     (let st = sc_state c in
      case checks [ensure_contract_type c ''nft'', validate_address env from, validate_address env to,
                   validate_address env caller, require (from \<noteq> to) SelfTransfer,
                   require (hm_contains t (cs_token_owners st)) (NoSuchToken t),
                   require (owner_of c t = Some from) (NotOwnedBy t from),
                   require (caller = from \<or> get_approved c t = Some caller) (NotAuthorized caller t)] of
        Inl e \<Rightarrow> (c, Inl e)
      | Inr _ \<Rightarrow>
          let st' = (if caller \<noteq> from then st\<lparr>cs_token_approvals := hm_remove t (cs_token_approvals st)\<rparr> else st) in
          (touch env (emit_nft_transfer_event (c\<lparr>sc_state := move_token st' from to t\<rparr>) from to t), Inr ()))"

definition approve_nft :: "contract_env \<Rightarrow> smart_contract \<Rightarrow> string \<Rightarrow> string \<Rightarrow> u64 \<Rightarrow> smart_contract \<times> (contract_error + unit)" where
  "approve_nft env c owner to t =
     (let st = sc_state c in
      case checks [ensure_contract_type c ''nft'', validate_address env owner, validate_address env to,
                   require (owner \<noteq> to) SelfApproval,
                   require (hm_contains t (cs_token_owners st)) (NoSuchToken t),
                   require (owner_of c t = Some owner) (NotOwnedBy t owner)] of
        Inl e \<Rightarrow> (c, Inl e)
      | Inr _ \<Rightarrow>
          (touch env (emit_nft_approval_event
             (c\<lparr>sc_state := st\<lparr>cs_token_approvals := hm_insert t to (cs_token_approvals st)\<rparr>\<rparr>) owner to t), Inr ()))"

definition transfer_from_nft ::
    "contract_env \<Rightarrow> smart_contract \<Rightarrow> string \<Rightarrow> string \<Rightarrow> u64 \<Rightarrow> string \<Rightarrow> smart_contract \<times> (contract_error + unit)" where
  "transfer_from_nft env c from to t spender =
     (let st = sc_state c in
      case checks [ensure_contract_type c ''nft'', validate_address env from, validate_address env to,
                   validate_address env spender, require (from \<noteq> to) SelfTransfer,
                   require (hm_contains t (cs_token_owners st)) (NoSuchToken t),
                   require (owner_of c t = Some from) (NotOwnedBy t from),
                   require (get_approved c t \<noteq> None) (NotApproved t),
                   require (get_approved c t = Some spender) (NotAuthorized spender t)] of
        Inl e \<Rightarrow> (c, Inl e)
      | Inr _ \<Rightarrow>
          let st' = st\<lparr>cs_token_approvals := hm_remove t (cs_token_approvals st)\<rparr> in
          (touch env (emit_nft_transfer_event (c\<lparr>sc_state := move_token st' from to t\<rparr>) from to t), Inr ()))"

definition metadata_fits :: "nft_metadata \<Rightarrow> bool" where
  "metadata_fits m \<longleftrightarrow> length (nm_name m) \<le> 256 \<and> length (nm_description m) \<le> 2048 \<and> length (nm_image m) \<le> 512 \<and>
     length (nm_external_url m) \<le> 512 \<and> length (nm_attributes m) \<le> 50 \<and>
     list_all (\<lambda>a. length (at_trait_type a) \<le> 64 \<and> length (at_value a) \<le> 256) (nm_attributes m)"

definition set_nft_metadata :: "contract_env \<Rightarrow> smart_contract \<Rightarrow> u64 \<Rightarrow> nft_metadata \<Rightarrow> smart_contract \<times> (contract_error + unit)" where
  "set_nft_metadata env c t m =
     (let st = sc_state c in
      case checks [ensure_contract_type c ''nft'', validate_token_id t,
                   require (hm_contains t (cs_token_owners st)) (NoSuchToken t),
                   require (metadata_fits m) MetadataTooLarge] of
        Inl e \<Rightarrow> (c, Inl e)
      | Inr _ \<Rightarrow> (touch env (c\<lparr>sc_state := st\<lparr>cs_nft_metadata := hm_insert t m (cs_nft_metadata st)\<rparr>\<rparr>), Inr ()))"

definition burn_nft :: "contract_env \<Rightarrow> smart_contract \<Rightarrow> string \<Rightarrow> u64 \<Rightarrow> string \<Rightarrow> smart_contract \<times> (contract_error + unit)" where
  "burn_nft env c owner t caller =
     (let st = sc_state c in
      case checks [ensure_contract_type c ''nft'', validate_address env owner, validate_address env caller,
                   require (hm_contains t (cs_token_owners st)) (NoSuchToken t),
                   require (owner_of c t = Some owner) (NotOwnedBy t owner),
                   require (caller = owner) (NotAuthorized caller t)] of
        Inl e \<Rightarrow> (c, Inl e)
      | Inr _ \<Rightarrow>
          let st' = (take_token st owner t)
                \<lparr>cs_token_owners := hm_remove t (cs_token_owners st), cs_token_uris := hm_remove t (cs_token_uris st),
                 cs_token_approvals := hm_remove t (cs_token_approvals st),
                 cs_nft_metadata := hm_remove t (cs_nft_metadata st),
                 cs_token_index := (case position_of (\<lambda>x. x = t) (cs_token_index st) of
                                      Some i \<Rightarrow> remove_at i (cs_token_index st) | None \<Rightarrow> cs_token_index st)\<rparr> in
          (touch env (emit_nft_transfer_event (c\<lparr>sc_state := st'\<rparr>) owner ''0'' t), Inr ()))"

definition verify_nft_integrity :: "smart_contract \<Rightarrow> contract_error + unit" where
  "verify_nft_integrity c =
     (let st = sc_state c in
      checks
        (map (\<lambda>(t, _). require (t \<in> set (cs_token_index st)) (NotIndexed t)) (cs_token_owners st) @
         map (\<lambda>t. require (hm_contains t (cs_token_owners st)) (IndexedWithoutOwner t)) (cs_token_index st) @
         map (\<lambda>(a, b). require (b = of_nat (length (owned_by st a)))
                (BalanceMismatch a b (of_nat (length (owned_by st a))))) (cs_nft_balances st) @
         concat (map (\<lambda>(a, ts). map (\<lambda>t. case map_of (cs_token_owners st) t of
             Some w \<Rightarrow> require (w = a) (OwnerMismatch t w a)
           | None \<Rightarrow> Inl (OwnedWithoutOwner t a)) ts) (cs_owner_to_tokens st)) @
         [require ((of_nat (length (cs_token_owners st)) :: u64) = of_nat (length (cs_token_index st)))
            (SupplyMismatch (of_nat (length (cs_token_owners st))) (of_nat (length (cs_token_index st))))]))"

section \<open>Dispatch and the contract manager\<close>

definition with_caller ::
    "smart_contract \<Rightarrow> string option \<Rightarrow> (string \<Rightarrow> smart_contract \<times> (contract_error + unit)) \<Rightarrow> smart_contract \<times> (contract_error + unit)" where
  "with_caller c caller f = (case caller of None \<Rightarrow> (c, Inl CallerRequired) | Some a \<Rightarrow> f a)"

fun execute :: "contract_env \<Rightarrow> smart_contract \<Rightarrow> contract_function \<Rightarrow> string option \<Rightarrow> smart_contract \<times> (contract_error + unit)" where
  "execute env c (Transfer to amount) caller = with_caller c caller (\<lambda>from. transfer env c from to amount)"
| "execute env c (TransferFrom from to amount) caller =
     with_caller c caller (\<lambda>spender. transfer_from env c from to amount spender)"
| "execute env c (Approve spender amount) caller = with_caller c caller (\<lambda>owner. approve env c owner spender amount)"
| "execute env c (Mint to amount) caller = mint env c to amount"
| "execute env c (Burn from amount) caller = burn env c from amount"
| "execute env c (MintNFT to t uri) caller = mint_nft env c to t uri"
| "execute env c (TransferNFT from to t) caller = with_caller c caller (\<lambda>a. transfer_nft env c from to t a)"
| "execute env c (ApproveNFT to t) caller = with_caller c caller (\<lambda>owner. approve_nft env c owner to t)"
| "execute env c (TransferFromNFT from to t) caller = with_caller c caller (\<lambda>spender. transfer_from_nft env c from to t spender)"
| "execute env c (BurnNFT owner t) caller = with_caller c caller (\<lambda>a. burn_nft env c owner t a)"
| "execute env c (SetNFTMetadata t m) caller = set_nft_metadata env c t m"
| "execute env c (Custom name params) caller = execute_custom env c name"

type_synonym contract_manager = "(string, smart_contract) hash_map"

definition deploy_contract :: "contract_manager \<Rightarrow> smart_contract \<Rightarrow> contract_manager \<times> (contract_error + string)" where
  "deploy_contract m c =
     (if hm_contains (sc_address c) m then (m, Inl AddressTaken)
      else (hm_insert (sc_address c) c m, Inr (sc_address c)))"

definition execute_contract_function ::
    "contract_env \<Rightarrow> contract_manager \<Rightarrow> string \<Rightarrow> contract_function \<Rightarrow> string option \<Rightarrow> contract_manager \<times> (contract_error + unit)" where
  "execute_contract_function env m address f caller =
     (case map_of m address of
        None \<Rightarrow> (m, Inl NoSuchContract)
      | Some c \<Rightarrow> (case execute env c f caller of (c', res) \<Rightarrow> (hm_insert address c' m, res)))"

text \<open>A run of calls, each with its environment, function and caller.\<close>

definition run_calls :: "smart_contract \<Rightarrow> (contract_env \<times> contract_function \<times> string option) list \<Rightarrow> smart_contract" where
  "run_calls c calls = foldl (\<lambda>c (env, f, caller). fst (execute env c f caller)) c calls"


section \<open>Frame lemmas\<close>

lemma touch_fields [simp]:
  "sc_state (touch env c) = sc_state c" "sc_total_supply (touch env c) = sc_total_supply c"
  "sc_contract_type (touch env c) = sc_contract_type c" "sc_address (touch env c) = sc_address c"
  by (simp_all add: touch_def Let_def)

lemma log_event_fields [simp]:
  "sc_total_supply (log_event c k e) = sc_total_supply c" "sc_contract_type (log_event c k e) = sc_contract_type c"
  "cs_balances (sc_state (log_event c k e)) = cs_balances (sc_state c)"
  "cs_allowances (sc_state (log_event c k e)) = cs_allowances (sc_state c)"
  "cs_token_owners (sc_state (log_event c k e)) = cs_token_owners (sc_state c)"
  "cs_token_approvals (sc_state (log_event c k e)) = cs_token_approvals (sc_state c)"
  "cs_nft_balances (sc_state (log_event c k e)) = cs_nft_balances (sc_state c)"
  "cs_owner_to_tokens (sc_state (log_event c k e)) = cs_owner_to_tokens (sc_state c)"
  "cs_token_index (sc_state (log_event c k e)) = cs_token_index (sc_state c)"
  by (simp_all add: log_event_def)

lemmas emit_defs = emit_transfer_event_def emit_approval_event_def emit_nft_transfer_event_def emit_nft_approval_event_def

lemmas execute_defs = transfer_def transfer_from_def approve_def mint_def burn_def execute_custom_def mint_nft_def
  transfer_nft_def approve_nft_def transfer_from_nft_def set_nft_metadata_def burn_nft_def with_caller_def Let_def

lemma set_balance_fields [simp]:
  "cs_balances (sc_state (set_balance c a b)) = hm_insert a b (cs_balances (sc_state c))"
  "sc_total_supply (set_balance c a b) = sc_total_supply c" "sc_contract_type (set_balance c a b) = sc_contract_type c"
  "cs_allowances (sc_state (set_balance c a b)) = cs_allowances (sc_state c)"
  "cs_token_owners (sc_state (set_balance c a b)) = cs_token_owners (sc_state c)"
  "cs_token_approvals (sc_state (set_balance c a b)) = cs_token_approvals (sc_state c)"
  "cs_nft_balances (sc_state (set_balance c a b)) = cs_nft_balances (sc_state c)"
  "cs_owner_to_tokens (sc_state (set_balance c a b)) = cs_owner_to_tokens (sc_state c)"
  "cs_token_index (sc_state (set_balance c a b)) = cs_token_index (sc_state c)"
  by (simp_all add: set_balance_def)

lemma set_allowance_fields [simp]:
  "cs_balances (sc_state (set_allowance c o1 s a)) = cs_balances (sc_state c)"
  "sc_total_supply (set_allowance c o1 s a) = sc_total_supply c" "sc_contract_type (set_allowance c o1 s a) = sc_contract_type c"
  "cs_token_owners (sc_state (set_allowance c o1 s a)) = cs_token_owners (sc_state c)"
  "cs_token_approvals (sc_state (set_allowance c o1 s a)) = cs_token_approvals (sc_state c)"
  "cs_nft_balances (sc_state (set_allowance c o1 s a)) = cs_nft_balances (sc_state c)"
  "cs_owner_to_tokens (sc_state (set_allowance c o1 s a)) = cs_owner_to_tokens (sc_state c)"
  "cs_token_index (sc_state (set_allowance c o1 s a)) = cs_token_index (sc_state c)"
  by (simp_all add: set_allowance_def Let_def)

lemma decrease_allowance_fields [simp]:
  "cs_balances (sc_state (decrease_allowance c o1 s a)) = cs_balances (sc_state c)"
  "sc_total_supply (decrease_allowance c o1 s a) = sc_total_supply c"
  "sc_contract_type (decrease_allowance c o1 s a) = sc_contract_type c"
  "cs_token_owners (sc_state (decrease_allowance c o1 s a)) = cs_token_owners (sc_state c)"
  "cs_token_approvals (sc_state (decrease_allowance c o1 s a)) = cs_token_approvals (sc_state c)"
  "cs_nft_balances (sc_state (decrease_allowance c o1 s a)) = cs_nft_balances (sc_state c)"
  "cs_owner_to_tokens (sc_state (decrease_allowance c o1 s a)) = cs_owner_to_tokens (sc_state c)"
  "cs_token_index (sc_state (decrease_allowance c o1 s a)) = cs_token_index (sc_state c)"
  by (simp_all add: decrease_allowance_def split: option.split)

lemma move_balance_fields [simp]:
  "sc_total_supply (move_balance c a b x) = sc_total_supply c" "sc_contract_type (move_balance c a b x) = sc_contract_type c"
  "cs_allowances (sc_state (move_balance c a b x)) = cs_allowances (sc_state c)"
  "cs_token_owners (sc_state (move_balance c a b x)) = cs_token_owners (sc_state c)"
  "cs_token_approvals (sc_state (move_balance c a b x)) = cs_token_approvals (sc_state c)"
  "cs_nft_balances (sc_state (move_balance c a b x)) = cs_nft_balances (sc_state c)"
  "cs_owner_to_tokens (sc_state (move_balance c a b x)) = cs_owner_to_tokens (sc_state c)"
  "cs_token_index (sc_state (move_balance c a b x)) = cs_token_index (sc_state c)"
  by (simp_all add: move_balance_def)

lemma take_give_fields [simp]:
  "cs_balances (take_token st a t) = cs_balances st" "cs_balances (give_token st a t) = cs_balances st"
  "cs_allowances (take_token st a t) = cs_allowances st" "cs_allowances (give_token st a t) = cs_allowances st"
  "cs_token_owners (take_token st a t) = cs_token_owners st" "cs_token_owners (give_token st a t) = cs_token_owners st"
  "cs_token_approvals (take_token st a t) = cs_token_approvals st"
  "cs_token_approvals (give_token st a t) = cs_token_approvals st"
  "cs_token_index (take_token st a t) = cs_token_index st" "cs_token_index (give_token st a t) = cs_token_index st"
  by (simp_all add: take_token_def give_token_def)

lemma move_token_fields [simp]:
  "cs_balances (move_token st a b t) = cs_balances st" "cs_allowances (move_token st a b t) = cs_allowances st"
  "cs_token_owners (move_token st a b t) = hm_insert t b (cs_token_owners st)"
  "cs_token_approvals (move_token st a b t) = cs_token_approvals st"
  "cs_token_index (move_token st a b t) = cs_token_index st"
  by (simp_all add: move_token_def)

lemma execute_error: "execute env c f caller = (c', Inl e) \<Longrightarrow> c' = c"
  by (cases f) (auto simp: execute_defs split: option.splits sum.splits if_splits)

section \<open>Supply of a fungible token\<close>

definition token_supply :: "smart_contract \<Rightarrow> nat" where
  "token_supply c = hm_total unat (cs_balances (sc_state c))"

fun minted_by :: "contract_function \<Rightarrow> nat" where
  "minted_by (Mint to amount) = unat amount"
| "minted_by f = 0"

fun burned_by :: "contract_function \<Rightarrow> nat" where
  "burned_by (Burn from amount) = unat amount"
| "burned_by f = 0"

lemma old_balance: "hm_old unat (cs_balances (sc_state c)) a = unat (get_balance c a)"
  by (simp add: hm_old_def get_balance_def split: option.split)

lemma supply_set_balance:
  assumes "hm_ok (cs_balances (sc_state c))"
  shows "token_supply (set_balance c a b) + unat (get_balance c a) = token_supply c + unat b"
  using hm_total_insert [OF assms, of unat a b] by (simp add: token_supply_def old_balance)

lemma get_set_balance: "get_balance (set_balance c a b) a' = (if a' = a then b else get_balance c a')"
  by (simp add: get_balance_def)

lemma supply_move_balance:
  assumes "hm_ok (cs_balances (sc_state c))" and "a \<noteq> b" and "x \<le> get_balance c a" and "add_fits (get_balance c b) x"
  shows "token_supply (move_balance c a b x) = token_supply c" and "hm_ok (cs_balances (sc_state (move_balance c a b x)))"
proof -
  let ?c = "set_balance c a (get_balance c a - x)"
  have ok: "hm_ok (cs_balances (sc_state ?c))" using assms(1) by simp
  have "token_supply ?c + unat (get_balance c a) = token_supply c + (unat (get_balance c a) - unat x)"
    using supply_set_balance [OF assms(1)] assms(3) by (simp add: unat_sub_no_wrap)
  moreover have "token_supply (move_balance c a b x) + unat (get_balance c b) = token_supply ?c + (unat (get_balance c b) + unat x)"
    using supply_set_balance [OF ok, of b "get_balance c b + x"] assms(2,4)
    by (simp add: move_balance_def get_set_balance add_fits_def unat_add_no_wrap)
  ultimately show "token_supply (move_balance c a b x) = token_supply c" using assms(3) by (simp add: word_le_nat_alt)
  show "hm_ok (cs_balances (sc_state (move_balance c a b x)))" using assms(1) by (simp add: move_balance_def)
qed

lemma supply_cong: "cs_balances (sc_state c) = cs_balances (sc_state c') \<Longrightarrow> token_supply c = token_supply c'"
  by (simp add: token_supply_def)


lemma execute_supply:
  assumes "hm_ok (cs_balances (sc_state c))" and "execute env c f caller = (c', Inr ())"
  shows "hm_ok (cs_balances (sc_state c'))" and "token_supply c' + burned_by f = token_supply c + minted_by f"
proof -
  have "hm_ok (cs_balances (sc_state c')) \<and> token_supply c' + burned_by f = token_supply c + minted_by f"
  proof (cases f)
    case (Transfer to a)
    with assms(2) obtain src where eq: "c' = touch env (emit_transfer_event (move_balance c src to a) src to a)"
      and pre: "src \<noteq> to" "a \<le> get_balance c src" "add_fits (get_balance c to) a"
      by (auto simp: execute_defs checks_Inr split: option.splits sum.splits)
    have "token_supply c' = token_supply (move_balance c src to a)"
      by (rule supply_cong) (simp add: eq emit_defs)
    then show ?thesis using supply_move_balance [OF assms(1) pre] Transfer eq by (simp add: emit_defs)
  next
    case (TransferFrom src to a)
    with assms(2) obtain s where eq: "c' = touch env (emit_transfer_event (decrease_allowance (move_balance c src to a) src s a) src to a)"
      and pre: "src \<noteq> to" "a \<le> get_balance c src" "add_fits (get_balance c to) a"
      by (auto simp: execute_defs checks_Inr split: option.splits sum.splits)
    have "token_supply c' = token_supply (move_balance c src to a)"
      by (rule supply_cong) (simp add: eq emit_defs)
    then show ?thesis using supply_move_balance [OF assms(1) pre] TransferFrom eq by (simp add: emit_defs)
  next
    case (Mint to a)
    with assms(2) have eq: "c' = touch env (set_balance c to (get_balance c to + a))" and fits: "add_fits (get_balance c to) a"
      by (auto simp: execute_defs checks_Inr split: sum.splits)
    have "token_supply c' = token_supply (set_balance c to (get_balance c to + a))" by (rule supply_cong) (simp add: eq)
    then show ?thesis
      using supply_set_balance [OF assms(1), of to "get_balance c to + a"] fits Mint eq assms(1)
      by (simp add: add_fits_def unat_add_no_wrap)
  next
    case (Burn src a)
    with assms(2) have eq: "c' = touch env (set_balance c src (get_balance c src - a))" and le: "a \<le> get_balance c src"
      by (auto simp: execute_defs checks_Inr split: sum.splits)
    have "token_supply c' = token_supply (set_balance c src (get_balance c src - a))" by (rule supply_cong) (simp add: eq)
    then show ?thesis
      using supply_set_balance [OF assms(1), of src "get_balance c src - a"] le Burn eq assms(1)
      by (simp add: unat_sub_no_wrap word_le_nat_alt)
  qed (use assms in \<open>auto simp: execute_defs emit_defs token_supply_def split: option.splits sum.splits\<close>)
  then show "hm_ok (cs_balances (sc_state c'))" "token_supply c' + burned_by f = token_supply c + minted_by f" by auto
qed

lemma execute_total_supply: "sc_total_supply (fst (execute env c f caller)) = sc_total_supply c"
  by (cases f) (auto simp: execute_defs emit_defs split: option.splits sum.splits)

definition capped :: "u64 \<Rightarrow> smart_contract \<Rightarrow> bool" where
  "capped cap c \<longleftrightarrow> hm_ok (cs_balances (sc_state c)) \<and> sc_total_supply c = Some cap \<and> token_supply c \<le> unat cap"

lemma current_supply_exact:
  assumes "token_supply c < 2 ^ 64"
  shows "unat (get_current_supply c) = token_supply c"
proof -
  have "sum_list (map unat (map snd (cs_balances (sc_state c)))) = token_supply c"
    by (simp add: token_supply_def hm_total_def comp_def)
  then show ?thesis using unat_sum_list [of "map snd (cs_balances (sc_state c))"] assms by (simp add: get_current_supply_def)
qed

lemma capped_execute:
  assumes "capped cap c"
  shows "capped cap (fst (execute env c f caller))"
proof (cases "execute env c f caller")
  case (Pair c' res)
  show ?thesis
  proof (cases res)
    case (Inl e)
    then show ?thesis using Pair execute_error [of env c f caller c' e] assms by simp
  next
    case (Inr u)
    then have step: "execute env c f caller = (c', Inr ())" using Pair by simp
    have ok: "hm_ok (cs_balances (sc_state c))" and cap: "sc_total_supply c = Some cap" "token_supply c \<le> unat cap"
      using assms by (auto simp: capped_def)
    have small: "token_supply c < 2 ^ 64" using cap(2) by (simp add: le_less_trans [OF _ u64_bound])
    have "token_supply c + minted_by f \<le> unat cap"
    proof (cases f)
      case (Mint to a)
      then have "add_fits (get_current_supply c) a" "get_current_supply c + a \<le> cap"
        using step cap(1) by (auto simp: execute_defs checks_Inr split: sum.splits)
      then show ?thesis using current_supply_exact [OF small] Mint by (simp add: add_fits_def word_le_nat_alt unat_add_no_wrap)
    qed (use cap(2) in auto)
    then have "token_supply c' \<le> unat cap" using execute_supply(2) [OF ok step] by simp
    moreover have "sc_total_supply c' = Some cap" using execute_total_supply [of env c f caller] step cap(1) by simp
    ultimately show ?thesis using execute_supply(1) [OF ok step] step by (simp add: capped_def)
  qed
qed

text \<open>
  C14: a fungible token with a fixed supply limit never exceeds it, whatever functions are called, by
  whom and in whatever order: the balances of all accounts sum up to at most the limit, the reported
  current supply is that sum without overflow, and a call changes the sum only by what it mints or
  burns.
\<close>

theorem token_supply_capped:
  "let c = run_calls (smart_contract_new env owner ty name symbol (Some cap) dec) calls in
     unat (get_current_supply c) = (\<Sum>(a, b) \<leftarrow> cs_balances (sc_state c). unat b) \<and>
     get_current_supply c \<le> cap \<and>
     (case execute env' c f caller of
        (c', Inl _) \<Rightarrow> c' = c
      | (c', Inr _) \<Rightarrow> unat (get_current_supply c') + burned_by f = unat (get_current_supply c) + minted_by f)"
proof -
  let ?c = "run_calls (smart_contract_new env owner ty name symbol (Some cap) dec) calls"
  have start: "capped cap (smart_contract_new env owner ty name symbol (Some cap) dec)"
    by (simp add: capped_def smart_contract_new_def contract_state_new_def token_supply_def Let_def)
  have run: "capped cap c \<Longrightarrow> capped cap (run_calls c calls)" for c
    by (induction calls arbitrary: c) (auto simp: run_calls_def capped_execute)
  have exact: "unat (get_current_supply c) = token_supply c \<and> get_current_supply c \<le> cap" if "capped cap c" for c
    using that current_supply_exact [of c] u64_bound [of cap] by (simp add: capped_def word_le_nat_alt)
  note c = run [OF start] exact [OF run [OF start]]
  have "case execute env' ?c f caller of (c', Inl _) \<Rightarrow> c' = ?c
     | (c', Inr _) \<Rightarrow> unat (get_current_supply c') + burned_by f = unat (get_current_supply ?c) + minted_by f"
  proof (cases "execute env' ?c f caller")
    case (Pair c' res)
    then show ?thesis
      using c execute_error [of env' ?c f caller c'] execute_supply [of ?c env' f caller c'] capped_execute [OF c(1), of env' f caller]
        exact [of c'] by (cases res) (auto simp: capped_def)
  qed
  moreover have "token_supply ?c = (\<Sum>(a, b) \<leftarrow> cs_balances (sc_state ?c). unat b)"
    by (simp add: token_supply_def hm_total_def case_prod_unfold)
  ultimately show ?thesis using c(2) unfolding Let_def by metis
qed


section \<open>Allowances\<close>

lemma allowance_cong: "cs_allowances (sc_state c) = cs_allowances (sc_state c') \<Longrightarrow> allowance c o1 s = allowance c' o1 s"
  by (simp add: allowance_def)

lemma allowance_set: "allowance (set_allowance c o1 s a) o2 s2 = (if o2 = o1 \<and> s2 = s then a else allowance c o2 s2)"
  by (auto simp: allowance_def set_allowance_def Let_def split: option.splits)

lemma allowance_decrease:
  "a \<le> allowance c o1 s \<Longrightarrow>
   allowance (decrease_allowance c o1 s a) o2 s2 = (if o2 = o1 \<and> s2 = s then allowance c o1 s - a else allowance c o2 s2)"
  by (auto simp: decrease_allowance_def allowance_set split: option.splits) (auto simp: allowance_def)

fun spent_by :: "string \<Rightarrow> string \<Rightarrow> contract_function \<Rightarrow> string option \<Rightarrow> nat" where
  "spent_by owner spender (TransferFrom src dst amount) caller =
     (if src = owner \<and> caller = Some spender then unat amount else 0)"
| "spent_by owner spender f caller = 0"

fun approves :: "string \<Rightarrow> string \<Rightarrow> contract_function \<Rightarrow> string option \<Rightarrow> bool" where
  "approves owner spender (Approve s amount) caller \<longleftrightarrow> s = spender \<and> caller = Some owner"
| "approves owner spender f caller \<longleftrightarrow> False"

fun spent_in :: "smart_contract \<Rightarrow> (contract_env \<times> contract_function \<times> string option) list \<Rightarrow> string \<Rightarrow> string \<Rightarrow> nat" where
  "spent_in c [] owner spender = 0"
| "spent_in c ((env, f, caller) # calls) owner spender =
     (case execute env c f caller of
        (c', res) \<Rightarrow> (if isl res then 0 else spent_by owner spender f caller) + spent_in c' calls owner spender)"

lemma execute_allowance:
  assumes "execute env c f caller = (c', Inr ())" and "\<not> approves owner spender f caller"
  shows "unat (allowance c' owner spender) + spent_by owner spender f caller = unat (allowance c owner spender)"
proof (cases f)
  case (TransferFrom src dst a)
  with assms(1) obtain s where s: "caller = Some s" and le: "a \<le> allowance c src s"
    and eq: "c' = touch env (emit_transfer_event (decrease_allowance (move_balance c src dst a) src s a) src dst a)"
    by (auto simp: execute_defs checks_Inr split: option.splits sum.splits)
  have same: "allowance (move_balance c src dst a) o1 s1 = allowance c o1 s1" for o1 s1
    by (rule allowance_cong) simp
  have "allowance c' owner spender = allowance (decrease_allowance (move_balance c src dst a) src s a) owner spender"
    by (rule allowance_cong) (simp add: eq emit_defs)
  then show ?thesis
    using le s TransferFrom allowance_decrease [of a "move_balance c src dst a" src s owner spender]
    by (auto simp: same unat_sub_no_wrap word_le_nat_alt)
next
  case (Approve s a)
  with assms(1) obtain o1 where o1: "caller = Some o1"
    and eq: "c' = touch env (emit_approval_event (set_allowance c o1 s a) o1 s a)"
    by (auto simp: execute_defs split: option.splits sum.splits)
  have "allowance c' owner spender = allowance (set_allowance c o1 s a) owner spender"
    by (rule allowance_cong) (simp add: eq emit_defs)
  then show ?thesis using assms(2) Approve o1 by (auto simp: allowance_set)
qed (use assms(1) in \<open>auto simp: execute_defs emit_defs intro!: arg_cong [where f = unat] allowance_cong
      split: option.splits sum.splits\<close>)

text \<open>
  An allowance bounds what the spender can move. In any run of calls without a new approval by the
  owner for that spender, the amounts the spender moved out of the owner's account and the remaining
  allowance add up to the allowance at the start.
\<close>

theorem allowance_limits_spender:
  assumes "list_all (\<lambda>(env, f, caller). \<not> approves owner spender f caller) calls"
  shows "spent_in c calls owner spender + unat (allowance (run_calls c calls) owner spender) = unat (allowance c owner spender)"
  using assms
proof (induction calls arbitrary: c)
  case (Cons call calls)
  obtain env f caller where call: "call = (env, f, caller)" by (cases call)
  obtain c' res where step: "execute env c f caller = (c', res)" by (cases "execute env c f caller")
  have IH: "spent_in c' calls owner spender + unat (allowance (run_calls c' calls) owner spender) = unat (allowance c' owner spender)"
    using Cons by simp
  have no: "\<not> approves owner spender f caller" using Cons.prems call by simp
  show ?case
  proof (cases res)
    case (Inl e)
    then show ?thesis using IH call step execute_error [of env c f caller c' e] by (simp add: run_calls_def)
  next
    case (Inr u)
    then show ?thesis using IH call step execute_allowance [of env c f caller c', OF _ no] by (simp add: run_calls_def)
  qed
qed (simp add: run_calls_def)

definition demo_env :: contract_env where
  "demo_env = \<lparr>ce_now = 7, ce_uuid = ''u'', ce_sha_hex = (\<lambda>s. s), ce_addr_chars = (\<lambda>_. True), ce_json_amounts = (\<lambda>_. []),
     ce_json_allowances = (\<lambda>_. []), ce_json_tokens = (\<lambda>_. []), ce_json_metadata = (\<lambda>_. []), ce_json_owned = (\<lambda>_. []),
     ce_json_index = (\<lambda>_. []), ce_debug_str = (\<lambda>_. []), ce_debug_u64 = (\<lambda>_. []), ce_debug_u8 = (\<lambda>_. [])\<rparr>"

definition demo_address :: "char \<Rightarrow> string" where
  "demo_address ch = replicate 32 ch"

theorem allowance_limits_spender_witness:
  "let c = fst (approve demo_env (smart_contract_new demo_env (demo_address CHR ''a'') ''token'' ''T'' None None None)
             (demo_address CHR ''a'') (demo_address CHR ''b'') 40);
       calls = [(demo_env, Mint (demo_address CHR ''a'') 100, None),
                (demo_env, TransferFrom (demo_address CHR ''a'') (demo_address CHR ''c'') 30, Some (demo_address CHR ''b'')),
                (demo_env, TransferFrom (demo_address CHR ''a'') (demo_address CHR ''c'') 30, Some (demo_address CHR ''b''))] in
   spent_in c calls (demo_address CHR ''a'') (demo_address CHR ''b'') +
     unat (allowance (run_calls c calls) (demo_address CHR ''a'') (demo_address CHR ''b'')) =
   unat (allowance c (demo_address CHR ''a'') (demo_address CHR ''b''))"
  unfolding Let_def by (rule allowance_limits_spender) simp


section \<open>Consistency of the non-fungible token indices\<close>

text \<open>
  The counters and the sets of owned tokens agree with an ownership map; giving and taking a token
  keeps them in step with adding and removing it from the map.
\<close>

definition indexed :: "(u64 \<Rightarrow> string option) \<Rightarrow> contract_state \<Rightarrow> bool" where
  "indexed own st \<longleftrightarrow> hm_ok (cs_nft_balances st) \<and> hm_ok (cs_owner_to_tokens st) \<and>
     (\<forall>a. distinct (owned_by st a) \<and> set (owned_by st a) = {t. own t = Some a} \<and> unat (nft_count st a) = length (owned_by st a))"

lemma owned_by_give: "owned_by (give_token st to t) a = (if a = to then List.insert t (owned_by st to) else owned_by st a)"
  by (simp add: owned_by_def give_token_def)

lemma owned_by_take: "owned_by (take_token st src t) a = (if a = src then removeAll t (owned_by st src) else owned_by st a)"
  by (auto simp: owned_by_def take_token_def Let_def split: option.split)

lemma nft_count_give: "nft_count (give_token st to t) a = (if a = to then nft_count st to + 1 else nft_count st a)"
  by (simp add: nft_count_def give_token_def)

lemma nft_count_take:
  "nft_count (take_token st src t) a =
     (if a = src \<and> nft_count st src > 0 then nft_count st src - 1 else nft_count st a)"
  by (simp add: nft_count_def take_token_def)

lemma indexed_give:
  assumes "indexed own st" and "own t = None" and "length (owned_by st to) < 2 ^ 63"
  shows "indexed (own(t \<mapsto> to)) (give_token st to t)"
proof -
  have "hm_ok (cs_nft_balances (give_token st to t))" "hm_ok (cs_owner_to_tokens (give_token st to t))"
    using assms(1) by (simp_all add: indexed_def give_token_def)
  moreover have "distinct (owned_by (give_token st to t) a) \<and> set (owned_by (give_token st to t) a) = {x. (own(t \<mapsto> to)) x = Some a} \<and>
      unat (nft_count (give_token st to t) a) = length (owned_by (give_token st to t) a)" for a
  proof (cases "a = to")
    case True
    have "t \<notin> set (owned_by st to)" using assms(1,2) by (auto simp: indexed_def)
    moreover have "unat (nft_count st to + 1) = Suc (length (owned_by st to))"
      using assms(1,3) unat_add_no_wrap [of "nft_count st to" 1] by (simp add: indexed_def)
    ultimately show ?thesis using assms(1) True
      by (auto simp: indexed_def owned_by_give nft_count_give List.insert_def)
  next
    case False
    then show ?thesis using assms(1,2) by (auto simp: indexed_def owned_by_give nft_count_give)
  qed
  ultimately show ?thesis by (simp add: indexed_def)
qed

lemma indexed_take:
  assumes "indexed own st" and "own t = Some src"
  shows "indexed (own(t := None)) (take_token st src t)"
proof -
  have "hm_ok (cs_nft_balances (take_token st src t))" "hm_ok (cs_owner_to_tokens (take_token st src t))"
    using assms(1) by (auto simp: indexed_def take_token_def Let_def split: option.split)
  moreover have "distinct (owned_by (take_token st src t) a) \<and> set (owned_by (take_token st src t) a) = {x. (own(t := None)) x = Some a} \<and>
      unat (nft_count (take_token st src t) a) = length (owned_by (take_token st src t) a)" for a
  proof (cases "a = src")
    case True
    have mem: "t \<in> set (owned_by st src)" and dist: "distinct (owned_by st src)"
      and cnt: "unat (nft_count st src) = length (owned_by st src)"
      using assms by (auto simp: indexed_def)
    have pos: "0 < nft_count st src" using mem cnt by (auto simp: word_less_nat_alt intro: length_pos_if_in_set)
    then have "unat (nft_count st src - 1) = length (owned_by st src) - 1"
      using cnt by (simp add: unat_minus_one word_gt_0)
    moreover have "length (removeAll t (owned_by st src)) = length (owned_by st src) - 1"
      using mem dist by (simp add: distinct_remove1_removeAll [symmetric] length_remove1)
    moreover have "distinct (removeAll t (owned_by st src))" using dist by (simp add: distinct_removeAll)
    ultimately show ?thesis using assms(1) True pos by (auto simp: indexed_def owned_by_take nft_count_take)
  next
    case False
    then show ?thesis using assms by (auto simp: indexed_def owned_by_take nft_count_take)
  qed
  ultimately show ?thesis by (simp add: indexed_def)
qed

definition nft_ok :: "contract_state \<Rightarrow> bool" where
  "nft_ok st \<longleftrightarrow> hm_ok (cs_token_owners st) \<and> distinct (cs_token_index st) \<and>
     set (cs_token_index st) = fst ` set (cs_token_owners st) \<and> length (cs_token_index st) \<le> MAX_TOKENS_PER_CONTRACT \<and>
     indexed (map_of (cs_token_owners st)) st"

lemma indexed_cong:
  assumes "cs_nft_balances st = cs_nft_balances st'" and "cs_owner_to_tokens st = cs_owner_to_tokens st'"
  shows "indexed own st = indexed own st'"
  using assms by (simp add: indexed_def owned_by_def nft_count_def)

lemma nft_ok_cong:
  assumes "cs_nft_balances st = cs_nft_balances st'" and "cs_owner_to_tokens st = cs_owner_to_tokens st'"
    and "cs_token_owners st = cs_token_owners st'" and "cs_token_index st = cs_token_index st'"
  shows "nft_ok st = nft_ok st'"
  using assms indexed_cong [of st st'] by (simp add: nft_ok_def)

lemma nft_ok_log [simp]: "nft_ok (sc_state (log_event c k e)) = nft_ok (sc_state c)"
  by (rule nft_ok_cong) simp_all

lemma owned_small:
  assumes "nft_ok st"
  shows "length (owned_by st a) < 2 ^ 63"
proof -
  have "set (owned_by st a) \<subseteq> set (cs_token_index st)"
    using assms by (force simp: nft_ok_def indexed_def dest: map_of_SomeD)
  moreover have "distinct (owned_by st a)" using assms by (simp add: nft_ok_def indexed_def)
  then have "length (owned_by st a) = card (set (owned_by st a))" by (rule distinct_card [symmetric])
  ultimately have "length (owned_by st a) \<le> length (cs_token_index st)"
    by (metis List.finite_set card_length card_mono le_trans)
  then show ?thesis using assms by (simp add: nft_ok_def MAX_TOKENS_PER_CONTRACT_def)
qed


lemma nft_ok_mint:
  assumes "nft_ok st" and "\<not> hm_contains t (cs_token_owners st)" and "length (cs_token_index st) < MAX_TOKENS_PER_CONTRACT"
    and "cs_token_owners st' = hm_insert t to (cs_token_owners st)" and "cs_token_index st' = cs_token_index st @ [t]"
    and "cs_nft_balances st' = cs_nft_balances (give_token st to t)"
    and "cs_owner_to_tokens st' = cs_owner_to_tokens (give_token st to t)"
  shows "nft_ok st'"
proof -
  have none: "map_of (cs_token_owners st) t = None" using assms(2) by (simp add: hm_contains_def)
  have "indexed ((map_of (cs_token_owners st))(t \<mapsto> to)) st'"
    using indexed_give [of "map_of (cs_token_owners st)" st t to] none owned_small [OF assms(1), of to] assms(1)
      indexed_cong [OF assms(6,7)] by (simp add: nft_ok_def)
  moreover have "map_of (cs_token_owners st') = (map_of (cs_token_owners st))(t \<mapsto> to)" using assms(4) by auto
  moreover have "t \<notin> set (cs_token_index st)" using assms(1,2) by (simp add: nft_ok_def hm_contains_iff)
  ultimately show ?thesis using assms(1,3,4,5) by (simp add: nft_ok_def hm_keys_insert)
qed

lemma nft_ok_move:
  assumes "nft_ok st" and "map_of (cs_token_owners st) t = Some src"
  shows "nft_ok (move_token st src to t)"
proof -
  let ?own = "map_of (cs_token_owners st)"
  let ?st = "take_token (st\<lparr>cs_token_owners := hm_insert t to (cs_token_owners st)\<rparr>) src t"
  have "indexed ?own (st\<lparr>cs_token_owners := hm_insert t to (cs_token_owners st)\<rparr>)"
    using assms(1) indexed_cong [of "st\<lparr>cs_token_owners := hm_insert t to (cs_token_owners st)\<rparr>" st] by (simp add: nft_ok_def)
  from indexed_take [OF this assms(2)] have i: "indexed (?own(t := None)) ?st" .
  have "length (owned_by ?st to) \<le> length (owned_by st to)"
    by (simp add: owned_by_take) (simp add: owned_by_def)
  then have "length (owned_by ?st to) < 2 ^ 63" using owned_small [OF assms(1), of to] by simp
  from indexed_give [OF i _ this, of t] have "indexed (?own(t \<mapsto> to)) (move_token st src to t)"
    by (simp add: move_token_def)
  moreover have "map_of (cs_token_owners (move_token st src to t)) = ?own(t \<mapsto> to)" by auto
  moreover have "t \<in> fst ` set (cs_token_owners st)" using assms(2) by (force dest: map_of_SomeD)
  ultimately show ?thesis using assms(1) by (simp add: nft_ok_def hm_keys_insert insert_absorb)
qed

lemma nft_ok_burn:
  assumes "nft_ok st" and "map_of (cs_token_owners st) t = Some src"
    and "cs_token_owners st' = hm_remove t (cs_token_owners st)"
    and "cs_token_index st' = (case position_of (\<lambda>x. x = t) (cs_token_index st) of
                                 Some i \<Rightarrow> remove_at i (cs_token_index st) | None \<Rightarrow> cs_token_index st)"
    and "cs_nft_balances st' = cs_nft_balances (take_token st src t)"
    and "cs_owner_to_tokens st' = cs_owner_to_tokens (take_token st src t)"
  shows "nft_ok st'"
proof -
  let ?idx = "cs_token_index st"
  have "t \<in> set ?idx" using assms(1,2) by (force simp: nft_ok_def dest: map_of_SomeD)
  then obtain i where i: "position_of (\<lambda>x. x = t) ?idx = Some i"
    using position_of_None [of "\<lambda>x. x = t" ?idx] by blast
  then have i': "i < length ?idx" "?idx ! i = t" using position_of_Some [OF i] by auto
  have idx: "cs_token_index st' = remove_at i ?idx" using assms(4) i by simp
  have "set (cs_token_index st') = set ?idx - {t}" using set_remove_at [of i ?idx] i' assms(1) idx by (simp add: nft_ok_def)
  moreover have "distinct (cs_token_index st')" using idx assms(1) by (simp add: nft_ok_def distinct_remove_at)
  moreover have "length (cs_token_index st') \<le> length ?idx" using idx by (simp add: remove_at_def)
  moreover have "fst ` set (cs_token_owners st') = fst ` set (cs_token_owners st) - {t}"
    using assms(3) by (auto simp: hm_entries_remove image_iff)
  moreover have "indexed ((map_of (cs_token_owners st))(t := None)) st'"
    using indexed_take [of "map_of (cs_token_owners st)" st t src] assms(1,2) indexed_cong [OF assms(5,6)]
    by (simp add: nft_ok_def)
  moreover have "map_of (cs_token_owners st') = (map_of (cs_token_owners st))(t := None)" using assms(3) by auto
  moreover have "hm_ok (cs_token_owners st')" using assms(1,3) by (simp add: nft_ok_def)
  ultimately show ?thesis using assms(1) by (simp add: nft_ok_def)
qed


lemma nft_ok_execute:
  assumes "nft_ok (sc_state c)"
  shows "nft_ok (sc_state (fst (execute env c f caller)))"
proof (cases "execute env c f caller")
  case (Pair c' res)
  show ?thesis
  proof (cases res)
    case (Inl e)
    then show ?thesis using Pair execute_error [of env c f caller c' e] assms by simp
  next
    case (Inr u)
    then have step: "execute env c f caller = (c', Inr ())" using Pair by simp
    have "nft_ok (sc_state c')"
    proof (cases f)
      case (MintNFT to t uri)
      then show ?thesis using step
        by (auto simp: execute_defs checks_Inr emit_defs split: sum.splits intro!: nft_ok_mint [OF assms, of t _ to])
    next
      case (TransferNFT src to t)
      with step obtain a where own: "map_of (cs_token_owners (sc_state c)) t = Some src"
        and eq: "c' = touch env (emit_nft_transfer_event (c\<lparr>sc_state := move_token (if a \<noteq> src
          then (sc_state c)\<lparr>cs_token_approvals := hm_remove t (cs_token_approvals (sc_state c))\<rparr> else sc_state c) src to t\<rparr>) src to t)"
        by (auto simp: execute_defs checks_Inr owner_of_def split: option.splits sum.splits)
      let ?st = "if a \<noteq> src then (sc_state c)\<lparr>cs_token_approvals := hm_remove t (cs_token_approvals (sc_state c))\<rparr> else sc_state c"
      have "nft_ok ?st" using assms nft_ok_cong [of ?st "sc_state c"] by simp
      moreover have "map_of (cs_token_owners ?st) t = Some src" using own by simp
      ultimately show ?thesis using nft_ok_move [of ?st t src to] eq by (simp add: emit_defs)
    next
      case (TransferFromNFT src to t)
      let ?st = "(sc_state c)\<lparr>cs_token_approvals := hm_remove t (cs_token_approvals (sc_state c))\<rparr>"
      have "nft_ok ?st" using assms nft_ok_cong [of ?st "sc_state c"] by simp
      moreover have "map_of (cs_token_owners ?st) t = Some src" "nft_ok (sc_state c') = nft_ok (move_token ?st src to t)"
        using step TransferFromNFT by (auto simp: execute_defs checks_Inr emit_defs owner_of_def split: option.splits sum.splits)
      ultimately show ?thesis using nft_ok_move by simp
    next
      case (BurnNFT owner t)
      then show ?thesis using step
        by (auto simp: execute_defs checks_Inr emit_defs owner_of_def split: option.splits sum.splits
            intro!: nft_ok_burn [OF assms, of t owner])
    qed (use step assms in \<open>auto simp: execute_defs emit_defs split: option.splits sum.splits
          intro!: nft_ok_cong [THEN iffD1, OF _ _ _ _ assms]\<close>)
    then show ?thesis using step by simp
  qed
qed


lemma nft_ok_verifies:
  assumes "nft_ok (sc_state c)"
  shows "verify_nft_integrity c = Inr ()"
proof -
  let ?st = "sc_state c"
  have owner: "map_of (cs_token_owners ?st) t = Some a" if "(a, ts) \<in> set (cs_owner_to_tokens ?st)" "t \<in> set ts" for a ts t
  proof -
    have "map_of (cs_owner_to_tokens ?st) a = Some ts"
      using that(1) assms by (simp add: nft_ok_def indexed_def hm_entry_iff [symmetric])
    then have "t \<in> set (owned_by ?st a)" using that(2) by (simp add: owned_by_def)
    then show ?thesis using assms by (auto simp: nft_ok_def indexed_def)
  qed
  have count: "b = of_nat (length (owned_by ?st a))" if "(a, b) \<in> set (cs_nft_balances ?st)" for a b
  proof -
    have "nft_count ?st a = b"
      using that assms by (simp add: nft_ok_def indexed_def nft_count_def hm_entry_iff)
    moreover have "unat (nft_count ?st a) = length (owned_by ?st a)" using assms by (simp add: nft_ok_def indexed_def)
    ultimately show ?thesis by (simp add: word_unat_eq_iff unat_of_nat_lt [OF unsigned_less] del: of_nat_eq_iff)
  qed
  have index: "set (cs_token_index ?st) = fst ` set (cs_token_owners ?st)" using assms by (simp add: nft_ok_def)
  have "distinct (cs_token_index ?st)" using assms by (simp add: nft_ok_def)
  then have "length (cs_token_index ?st) = card (set (cs_token_index ?st))" by (rule distinct_card [symmetric])
  also have "\<dots> = length (map fst (cs_token_owners ?st))"
    using assms index distinct_card [of "map fst (cs_token_owners ?st)"] by (simp add: nft_ok_def hm_ok_def)
  finally have size: "length (cs_token_owners ?st) = length (cs_token_index ?st)" by simp
  have keys: "t \<in> set (cs_token_index ?st)" if "(t, a) \<in> set (cs_token_owners ?st)" for t a
    using that index by (metis fst_conv imageI)
  show ?thesis
    unfolding verify_nft_integrity_def Let_def checks_Inr
  proof (intro ballI, simp only: set_append Un_iff, elim disjE)
    fix r assume "r \<in> set (concat (map (\<lambda>(a, ts). map (\<lambda>t. case map_of (cs_token_owners ?st) t of
        Some w \<Rightarrow> require (w = a) (OwnerMismatch t w a) | None \<Rightarrow> Inl (OwnedWithoutOwner t a)) ts) (cs_owner_to_tokens ?st)))"
    then show "r = Inr ()" using owner by (auto simp: require_def)
  qed (use index count size keys in \<open>auto simp: hm_contains_iff require_def\<close>)
qed

text \<open>
  C15: the indices of a non-fungible token contract never drift apart: after any run of calls the
  contract passes its own integrity check, and for every account the counter and the enumeration of
  its tokens agree with the ownership map.
\<close>

theorem nft_indices_consistent:
  "let c = run_calls (smart_contract_new env owner ty name symbol cap dec) calls in
     verify_nft_integrity c = Inr () \<and>
     unat (balance_of_nft c a) = card {t. owner_of c t = Some a} \<and>
     sorted (tokens_of_owner c a) \<and> distinct (tokens_of_owner c a) \<and>
     set (tokens_of_owner c a) = {t. owner_of c t = Some a}"
proof -
  let ?c = "run_calls (smart_contract_new env owner ty name symbol cap dec) calls"
  have "nft_ok (sc_state (smart_contract_new env owner ty name symbol cap dec))"
    by (simp add: nft_ok_def indexed_def smart_contract_new_def contract_state_new_def owned_by_def nft_count_def Let_def)
  moreover have "nft_ok (sc_state c) \<Longrightarrow> nft_ok (sc_state (run_calls c calls))" for c
    by (induction calls arbitrary: c) (auto simp: run_calls_def nft_ok_execute)
  ultimately have ok: "nft_ok (sc_state ?c)" by blast
  have own: "distinct (owned_by (sc_state ?c) a)" "set (owned_by (sc_state ?c) a) = {t. owner_of ?c t = Some a}"
    "unat (balance_of_nft ?c a) = length (owned_by (sc_state ?c) a)"
    using ok by (simp_all add: nft_ok_def indexed_def owner_of_def balance_of_nft_def)
  have "unat (balance_of_nft ?c a) = card {t. owner_of ?c t = Some a}"
    using own distinct_card [of "owned_by (sc_state ?c) a"] by simp
  moreover have "sorted (tokens_of_owner ?c a)"
    unfolding tokens_of_owner_def by (rule sorted_sort_by) auto
  moreover have "distinct (tokens_of_owner ?c a)"
    using own(1) distinct_sort_by [of id "(\<le>)" "owned_by (sc_state ?c) a"] by (simp add: tokens_of_owner_def)
  ultimately show ?thesis using nft_ok_verifies [OF ok] own(2) by (simp add: tokens_of_owner_def)
qed

text \<open>
  A token changes hands only with authority: when a call ends the ownership of an account over a
  token, the caller was that owner or the address approved for the token, and a token is created only
  by minting it.
\<close>

theorem nft_moves_authorized:
  assumes "execute env c f caller = (c', Inr ())"
  shows "(owner_of c t = Some a \<and> owner_of c' t \<noteq> Some a \<longrightarrow>
      caller = Some a \<or> caller \<noteq> None \<and> caller = get_approved c t) \<and>
    (owner_of c t = None \<and> owner_of c' t \<noteq> None \<longrightarrow> (\<exists>to uri. f = MintNFT to t uri \<and> owner_of c' t = Some to))"
  using assms
  by (cases f) (auto simp: execute_defs checks_Inr emit_defs owner_of_def get_approved_def hm_contains_def
      split: option.splits sum.splits if_splits)

text \<open>
  An approval survives a transfer made by the owner: after the owner has given the token away, the
  address the old owner had approved can take it from the new owner.
\<close>

theorem stale_approval_moves_token:
  assumes "transfer_nft env c owner buyer t owner = (c', Inr ())" and "get_approved c t = Some thief"
    and "validate_address env thief = Inr ()" and "thief \<noteq> buyer"
  shows "\<exists>c''. transfer_from_nft env c' buyer thief t thief = (c'', Inr ()) \<and> owner_of c'' t = Some thief"
proof -
  have c': "c' = touch env (emit_nft_transfer_event (c\<lparr>sc_state := move_token (sc_state c) owner buyer t\<rparr>) owner buyer t)"
    and ok: "sc_contract_type c = ''nft''" "validate_address env buyer = Inr ()"
    using assms(1) by (auto simp: transfer_nft_def Let_def checks_Inr ensure_contract_type_def split: sum.splits)
  have "owner_of c' t = Some buyer" "get_approved c' t = Some thief" "sc_contract_type c' = ''nft''"
    using c' ok(1) assms(2) by (simp_all add: owner_of_def get_approved_def emit_defs)
  then show ?thesis
    using ok(2) assms(3,4)
    by (auto simp: transfer_from_nft_def Let_def checks_Inr ensure_contract_type_def owner_of_def hm_contains_def emit_defs
        split: sum.splits)
qed

text \<open>
  After every successful call the stored integrity hash is the hash of the contract.
\<close>

theorem integrity_hash_fresh:
  assumes "execute env c f caller = (c', Inr ())"
  shows "validate_integrity env c'"
proof -
  have "validate_integrity env (touch env x)" for x
    by (simp add: validate_integrity_def touch_def contract_hash_def Let_def)
  then show ?thesis using assms by (cases f) (auto simp: execute_defs split: option.splits sum.splits)
qed


definition demo_nft :: smart_contract where
  "demo_nft = fst (approve_nft demo_env (fst (mint_nft demo_env
     (smart_contract_new demo_env (demo_address CHR ''a'') ''nft'' ''N'' None None None) (demo_address CHR ''a'') 5 []))
     (demo_address CHR ''a'') (demo_address CHR ''m'') 5)"

lemma demo_address_simps [simp]:
  "validate_address demo_env (demo_address ch) = Inr ()" "demo_address a = demo_address b \<longleftrightarrow> a = b"
proof -
  have "replicate 32 ch \<noteq> ''0''" by (auto dest!: arg_cong [where f = length])
  then show "validate_address demo_env (demo_address ch) = Inr ()"
    by (simp add: validate_address_def demo_address_def demo_env_def MIN_ADDRESS_LENGTH_def MAX_ADDRESS_LENGTH_def)
qed (simp add: demo_address_def)

lemma demo_nft_facts:
  "sc_contract_type demo_nft = ''nft''" "map_of (cs_token_owners (sc_state demo_nft)) 5 = Some (demo_address CHR ''a'')"
  "get_approved demo_nft 5 = Some (demo_address CHR ''m'')"
  by (simp_all add: demo_nft_def approve_nft_def mint_nft_def ensure_contract_type_def smart_contract_new_def contract_state_new_def
      validate_token_id_def hm_contains_def owner_of_def get_approved_def owned_by_def emit_defs Let_def MAX_TOKEN_ID_def
      MAX_TOKENS_PER_CONTRACT_def MAX_TOKENS_PER_OWNER_def)

theorem stale_approval_moves_token_witness:
  "\<exists>c' c''. transfer_nft demo_env demo_nft (demo_address CHR ''a'') (demo_address CHR ''b'') 5 (demo_address CHR ''a'') = (c', Inr ()) \<and>
     transfer_from_nft demo_env c' (demo_address CHR ''b'') (demo_address CHR ''m'') 5 (demo_address CHR ''m'') = (c'', Inr ()) \<and>
     owner_of c'' 5 = Some (demo_address CHR ''m'')"
proof -
  let ?r = "transfer_nft demo_env demo_nft (demo_address CHR ''a'') (demo_address CHR ''b'') 5 (demo_address CHR ''a'')"
  have ok: "?r = (fst ?r, Inr ())"
    by (simp add: transfer_nft_def ensure_contract_type_def demo_nft_facts hm_contains_def owner_of_def Let_def)
  have "validate_address demo_env (demo_address CHR ''m'') = Inr ()" by simp
  from stale_approval_moves_token [OF ok demo_nft_facts(3) this] ok show ?thesis by auto
qed

theorem nft_moves_authorized_witness:
  "\<exists>c'. execute demo_env demo_nft (TransferNFT (demo_address CHR ''a'') (demo_address CHR ''b'') 5) (Some (demo_address CHR ''m'')) = (c', Inr ()) \<and>
     owner_of c' 5 \<noteq> Some (demo_address CHR ''a'') \<and> get_approved demo_nft 5 = Some (demo_address CHR ''m'')"
proof -
  let ?f = "TransferNFT (demo_address CHR ''a'') (demo_address CHR ''b'') 5"
  obtain c' where c': "execute demo_env demo_nft ?f (Some (demo_address CHR ''m'')) = (c', Inr ())"
    by (simp add: with_caller_def transfer_nft_def ensure_contract_type_def demo_nft_facts hm_contains_def owner_of_def Let_def)
  then have "owner_of c' 5 = Some (demo_address CHR ''b'')"
    by (auto simp: with_caller_def transfer_nft_def ensure_contract_type_def demo_nft_facts hm_contains_def owner_of_def emit_defs Let_def)
  then show ?thesis
    using nft_moves_authorized [OF c', of 5 "demo_address CHR ''a''"] c' demo_nft_facts(2) by (auto simp: owner_of_def)
qed

end
