(* ===== verification/Ledger.thy ===== *)
theory Ledger
  imports Cerulean_Prelude "HOL-Library.Sublist"
begin

text \<open>
  The proof-of-work ledger of \<open>blockchain.rs\<close> and the transactions, wallets and mempool of
  \<open>models.rs\<close>.

  SHA-256 in hexadecimal, hexadecimal decoding and the two signature schemes are parameters, as are the
  clock, fresh identifiers and fresh wallets. The floating-point ratio of the difficulty adjustment is an exact
  quotient, which agrees with the source for the block time and interval it sets. Mining is a loop that
  ends only if some nonce fits, so it is a partial function.
\<close>

section \<open>Transactions\<close>

record ledger_tx =
  lt_id :: string
  lt_from :: string
  lt_to :: string
  lt_amount :: u64
  lt_fee :: u64
  lt_data :: "string option"
  lt_timestamp :: u64
  lt_signature :: string

record ledger_env =
  le_sha_hex :: "string \<Rightarrow> string"
  le_hex_decode :: "string \<Rightarrow> bytes option"
  le_ed_verify :: "bytes \<Rightarrow> string \<Rightarrow> bytes \<Rightarrow> bool"
  le_ml_verify :: "bytes \<Rightarrow> string \<Rightarrow> bytes \<Rightarrow> bool"

definition new_with_fee :: "string \<Rightarrow> u64 \<Rightarrow> string \<Rightarrow> string \<Rightarrow> u64 \<Rightarrow> u64 \<Rightarrow> string option \<Rightarrow> ledger_tx" where
  "new_with_fee i now from to amount fee data =
     \<lparr>lt_id = i, lt_from = from, lt_to = to, lt_amount = amount, lt_fee = fee, lt_data = data, lt_timestamp = now,
      lt_signature = []\<rparr>"

definition tx_hash :: "ledger_env \<Rightarrow> ledger_tx \<Rightarrow> string" where
  "tx_hash env tx =
     le_sha_hex env (lt_id tx @ lt_from tx @ lt_to tx @ show_u64 (lt_amount tx) @ show_u64 (lt_fee tx) @
       (case lt_data tx of Some d \<Rightarrow> d | None \<Rightarrow> []) @ show_u64 (lt_timestamp tx))"

definition tx_is_valid :: "ledger_tx \<Rightarrow> bool" where
  "tx_is_valid tx \<longleftrightarrow> lt_from tx \<noteq> [] \<and> lt_to tx \<noteq> [] \<and> lt_amount tx > 0"

text \<open>
  Parsing a key or signature of the right length and verifying it is one parameter per scheme.
\<close>

definition has_valid_signature :: "ledger_env \<Rightarrow> ledger_tx \<Rightarrow> bytes \<Rightarrow> bool" where
  "has_valid_signature env tx pk \<longleftrightarrow>
     lt_signature tx \<noteq> [] \<and>
     (case le_hex_decode env (lt_signature tx) of
        None \<Rightarrow> False
      | Some sig \<Rightarrow>
          if length pk = 32 \<and> length sig = 64 then le_ed_verify env pk (tx_hash env tx) sig
          else if length pk = 1952 \<and> length sig = 3309 then le_ml_verify env pk (tx_hash env tx) sig
          else False)"

section \<open>Wallets\<close>

record wallet =
  wa_address :: string
  wa_balance :: u64
  wa_public_key :: bytes

definition add_balance :: "wallet \<Rightarrow> u64 \<Rightarrow> wallet" where
  "add_balance w amount = w\<lparr>wa_balance := wa_balance w + amount\<rparr>"

definition subtract_balance :: "wallet \<Rightarrow> u64 \<Rightarrow> wallet option" where
  "subtract_balance w amount =
     (if wa_balance w \<ge> amount then Some (w\<lparr>wa_balance := wa_balance w - amount\<rparr>) else None)"

type_synonym wallet_manager = "(string, wallet) hash_map"

text \<open>The fresh key pair and the hexadecimal encoding are arguments; the private key never leaves the wallet.\<close>

definition wallet_new :: "(bytes \<Rightarrow> string) \<Rightarrow> bytes \<Rightarrow> wallet" where
  "wallet_new hex public_key = \<lparr>wa_address = hex public_key, wa_balance = 0, wa_public_key = public_key\<rparr>"

definition create_wallet :: "(bytes \<Rightarrow> string) \<Rightarrow> bytes \<Rightarrow> wallet_manager \<Rightarrow> wallet_manager" where
  "create_wallet hex public_key wm = hm_insert (hex public_key) (wallet_new hex public_key) wm"

definition get_wallet :: "wallet_manager \<Rightarrow> string \<Rightarrow> wallet option" where
  "get_wallet wm a = map_of wm a"

datatype ledger_error =
    InvalidFields
  | WalletNotFound
  | BadTxSignature
  | LowFunds u64 u64
  | FeeRequired
  | DoubleSpend
  | NotCoinbase
  | CoinbaseRecipient
  | CoinbaseZero
  | CoinbaseTooLarge
  | CoinbaseSigned
  | CoinbaseAddressShort
  | EmptyBlock
  | BlockTooLarge nat
  | TooManyTxs nat
  | BadCoinbase ledger_error
  | BadTx ledger_error
  | ManyCoinbases
  | MempoolFull
  | MempoolDuplicate

text \<open>
  \<open>entry(..).or_default()\<close> puts a fresh wallet in place of a missing one, also when the payment then
  fails; \<open>fresh1\<close> and \<open>fresh2\<close> are the wallets it generates.
\<close>

definition process_transaction ::
    "wallet \<Rightarrow> wallet \<Rightarrow> wallet_manager \<Rightarrow> ledger_tx \<Rightarrow> wallet_manager \<times> (ledger_error + unit)" where
  "process_transaction fresh1 fresh2 wm tx =
     (if \<not> tx_is_valid tx then (wm, Inl InvalidFields)
      else
        let w = (case map_of wm (lt_from tx) of Some w \<Rightarrow> w | None \<Rightarrow> fresh1);
            total = lt_amount tx + lt_fee tx in
        (case subtract_balance w total of
           None \<Rightarrow> (hm_insert (lt_from tx) w wm, Inl (LowFunds (wa_balance w) total))
         | Some w' \<Rightarrow>
             let wm' = hm_insert (lt_from tx) w' wm;
                 v = (case map_of wm' (lt_to tx) of Some v \<Rightarrow> v | None \<Rightarrow> fresh2) in
             (hm_insert (lt_to tx) (add_balance v (lt_amount tx)) wm', Inr ())))"

definition process_coinbase_transaction ::
    "wallet \<Rightarrow> wallet_manager \<Rightarrow> ledger_tx \<Rightarrow> wallet_manager \<times> (ledger_error + unit)" where
  "process_coinbase_transaction fresh wm tx =
     (if lt_from tx \<noteq> ''0'' then (wm, Inl NotCoinbase)
      else if lt_amount tx = 0 then (wm, Inl CoinbaseZero)
      else if lt_to tx = [] then (wm, Inl CoinbaseRecipient)
      else
        let w = (case map_of wm (lt_to tx) of Some w \<Rightarrow> w | None \<Rightarrow> fresh\<lparr>wa_address := lt_to tx\<rparr>) in
        (hm_insert (lt_to tx) (add_balance w (lt_amount tx)) wm, Inr ()))"

section \<open>The mempool\<close>

record mempool =
  mp_transactions :: "ledger_tx list"
  mp_max_size :: nat

definition mempool_new :: mempool where
  "mempool_new = \<lparr>mp_transactions = [], mp_max_size = 1000\<rparr>"

definition calculate_pending_spent :: "mempool \<Rightarrow> string \<Rightarrow> u64" where
  "calculate_pending_spent p a =
     sum_list (map (\<lambda>tx. lt_amount tx + lt_fee tx) (filter (\<lambda>tx. lt_from tx = a) (mp_transactions p)))"

definition has_double_spend :: "mempool \<Rightarrow> ledger_tx \<Rightarrow> bool" where
  "has_double_spend p tx \<longleftrightarrow>
     list_ex (\<lambda>t. lt_from t = lt_from tx \<and> lt_id t \<noteq> lt_id tx \<and> lt_amount t = lt_amount tx \<and> lt_timestamp t = lt_timestamp tx)
       (mp_transactions p)"

definition mempool_add :: "mempool \<Rightarrow> ledger_tx \<Rightarrow> mempool \<times> (ledger_error + unit)" where
  "mempool_add p tx =
     (if length (mp_transactions p) \<ge> mp_max_size p then (p, Inl MempoolFull)
      else if list_ex (\<lambda>t. lt_id t = lt_id tx) (mp_transactions p) then (p, Inl MempoolDuplicate)
      else (p\<lparr>mp_transactions := mp_transactions p @ [tx]\<rparr>, Inr ()))"

definition get_transactions_for_block :: "mempool \<Rightarrow> nat \<Rightarrow> mempool \<times> ledger_tx list" where
  "get_transactions_for_block p limit =
     (let sorted = sort_by (\<lambda>a b. lt_fee a \<ge> lt_fee b) (mp_transactions p);
          count = min limit (length sorted) in
      (p\<lparr>mp_transactions := drop count sorted\<rparr>, take count sorted))"

definition mempool_remove :: "mempool \<Rightarrow> string \<Rightarrow> mempool \<times> bool" where
  "mempool_remove p i =
     (case position_of (\<lambda>t. lt_id t = i) (mp_transactions p) of
        Some k \<Rightarrow> (p\<lparr>mp_transactions := remove_at k (mp_transactions p)\<rparr>, True)
      | None \<Rightarrow> (p, False))"

definition mempool_clear :: "mempool \<Rightarrow> mempool" where
  "mempool_clear p = p\<lparr>mp_transactions := []\<rparr>"

section \<open>Blocks\<close>

record ledger_block =
  lb_index :: u64
  lb_timestamp :: u64
  lb_transactions :: "ledger_tx list"
  lb_previous_hash :: string
  lb_hash :: string
  lb_nonce :: u64
  lb_difficulty :: u8
  lb_merkle_root :: string

fun merkle_level :: "ledger_env \<Rightarrow> string list \<Rightarrow> string list" where
  "merkle_level env (a # b # hs) = le_sha_hex env (a @ b) # merkle_level env hs"
| "merkle_level env hs = hs"

lemma length_merkle_level: "length (merkle_level env hs) = (length hs + 1) div 2"
  by (induction env hs rule: merkle_level.induct) auto

function merkle_up :: "ledger_env \<Rightarrow> string list \<Rightarrow> string list" where
  "merkle_up env hs = (if length hs > 1 then merkle_up env (merkle_level env hs) else hs)"
  by auto
termination
  by (relation "measure (\<lambda>(env, hs). length hs)") (auto simp: length_merkle_level)

declare merkle_up.simps [simp del]

definition calculate_merkle_root :: "ledger_env \<Rightarrow> ledger_tx list \<Rightarrow> string" where
  "calculate_merkle_root env txs =
     (if txs = [] then []
      else (case merkle_up env (map (tx_hash env) txs) of h # _ \<Rightarrow> h | [] \<Rightarrow> []))"

definition block_data :: "ledger_block \<Rightarrow> string" where
  "block_data b =
     show_u64 (lb_index b) @ show_u64 (lb_timestamp b) @ lb_merkle_root b @ lb_previous_hash b @
     show_u64 (lb_nonce b) @ show_u64 (of_nat (length (lb_transactions b)))"

definition block_hash :: "ledger_env \<Rightarrow> ledger_block \<Rightarrow> string" where
  "block_hash env b = le_sha_hex env (block_data b)"

definition ledger_block_new :: "ledger_env \<Rightarrow> u64 \<Rightarrow> u64 \<Rightarrow> ledger_tx list \<Rightarrow> string \<Rightarrow> u8 \<Rightarrow> ledger_block" where
  "ledger_block_new env now idx txs prev difficulty =
     \<lparr>lb_index = idx, lb_timestamp = now, lb_transactions = txs, lb_previous_hash = prev, lb_hash = [], lb_nonce = 0,
      lb_difficulty = difficulty, lb_merkle_root = calculate_merkle_root env txs\<rparr>"

definition meets_target :: "u8 \<Rightarrow> string \<Rightarrow> bool" where
  "meets_target difficulty h \<longleftrightarrow> prefix (replicate (unat difficulty) CHR ''0'') h"

partial_function (option) mine_sequential :: "ledger_env \<Rightarrow> ledger_block \<Rightarrow> ledger_block option" where
  "mine_sequential env b =
     (let b' = b\<lparr>lb_hash := block_hash env b\<rparr> in
      if meets_target (lb_difficulty b') (lb_hash b') then Some b'
      else mine_sequential env (b'\<lparr>lb_nonce := lb_nonce b' + 1\<rparr>))"

definition block_is_valid :: "ledger_env \<Rightarrow> ledger_block \<Rightarrow> bool" where
  "block_is_valid env b \<longleftrightarrow>
     lb_hash b = block_hash env b \<and> meets_target (lb_difficulty b) (lb_hash b) \<and>
     lb_merkle_root b = calculate_merkle_root env (lb_transactions b)"


section \<open>The chain\<close>

definition GENESIS_TIMESTAMP :: u64 where "GENESIS_TIMESTAMP = 1700000000"
definition GENESIS_NONCE_LIMIT :: nat where "GENESIS_NONCE_LIMIT = 10000000"
definition GENESIS_FALLBACK_NONCE :: nat where "GENESIS_FALLBACK_NONCE = 12345"
definition MAX_COINBASE_AMOUNT :: u64 where "MAX_COINBASE_AMOUNT = 1000000000"

record blockchain =
  bc_chain :: "ledger_block list"
  bc_difficulty :: u8
  bc_target_block_time :: u64
  bc_difficulty_adjustment_interval :: u64
  bc_max_transactions_per_block :: nat
  bc_max_block_size_bytes :: nat

text \<open>
  The search for the nonce of the genesis block: the nonce is advanced after each hash, and the search
  gives up after ten million attempts. The result is the nonce that is stored and the hash.
\<close>

function genesis_search :: "ledger_env \<Rightarrow> ledger_block \<Rightarrow> nat \<Rightarrow> string \<Rightarrow> nat \<times> string" where
  "genesis_search env b nonce final_hash =
     (if meets_target (lb_difficulty b) final_hash then (nonce, final_hash)
      else
        let final_hash' = block_hash env (b\<lparr>lb_nonce := of_nat nonce\<rparr>) in
        if Suc nonce > GENESIS_NONCE_LIMIT
        then (GENESIS_FALLBACK_NONCE, block_hash env (b\<lparr>lb_nonce := of_nat GENESIS_FALLBACK_NONCE\<rparr>))
        else genesis_search env b (Suc nonce) final_hash')"
  by pat_completeness auto
termination
  by (relation "measure (\<lambda>(env, b, nonce, h). Suc GENESIS_NONCE_LIMIT - nonce)") auto

declare genesis_search.simps [simp del]

definition genesis_tx :: "string \<Rightarrow> u64 \<Rightarrow> ledger_tx" where
  "genesis_tx i now = new_with_fee i now ''0'' ''genesis'' 0 0 (Some ''Genesis Block - Rust Blockchain'')"

definition create_genesis_block :: "ledger_env \<Rightarrow> string \<Rightarrow> u64 \<Rightarrow> blockchain \<Rightarrow> blockchain" where
  "create_genesis_block env i now bc =
     (if bc_chain bc \<noteq> [] then bc
      else
        let b = \<lparr>lb_index = 0, lb_timestamp = GENESIS_TIMESTAMP, lb_transactions = [genesis_tx i now],
                 lb_previous_hash = ''0'', lb_hash = [], lb_nonce = 0, lb_difficulty = bc_difficulty bc,
                 lb_merkle_root = calculate_merkle_root env [genesis_tx i now]\<rparr> in
        case genesis_search env b 0 [] of
          (nonce, h) \<Rightarrow> bc\<lparr>bc_chain := [b\<lparr>lb_hash := h, lb_nonce := of_nat nonce\<rparr>]\<rparr>)"

definition blockchain_new :: "ledger_env \<Rightarrow> string \<Rightarrow> u64 \<Rightarrow> u8 \<Rightarrow> blockchain" where
  "blockchain_new env i now difficulty =
     create_genesis_block env i now
       \<lparr>bc_chain = [], bc_difficulty = difficulty, bc_target_block_time = 60, bc_difficulty_adjustment_interval = 10,
        bc_max_transactions_per_block = 1000, bc_max_block_size_bytes = 1000000\<rparr>"

text \<open>
  The floating-point ratio of expected and observed time is compared exactly: \<open>ratio < 0.8\<close> and
  \<open>ratio > 1.2\<close> are read as inequalities of fractions. The interval is never 0, as \<open>new\<close> sets it to 10.
\<close>

definition adjust_difficulty :: "blockchain \<Rightarrow> blockchain \<times> bool" where
  "adjust_difficulty bc =
     (let n = length (bc_chain bc);
          interval = unat (bc_difficulty_adjustment_interval bc);
          recent = drop (n - interval) (bc_chain bc) in
      if n < 2 \<or> \<not> interval dvd n \<or> length recent < 2 then (bc, False)
      else
        let time_span = sat_sub (lb_timestamp (last recent)) (lb_timestamp (hd recent));
            expected_time = bc_target_block_time bc * bc_difficulty_adjustment_interval bc;
            old = bc_difficulty bc;
            d = (if time_span = 0 then old
                 else if 5 * unat expected_time < 4 * unat time_span then (if old = 255 then 255 else old + 1)
                 else if 5 * unat expected_time > 6 * unat time_span then (if old = 0 then 0 else old - 1)
                 else old);
            d' = (if d < 1 then 1 else if d > 20 then 20 else d) in
        (bc\<lparr>bc_difficulty := d'\<rparr>, old \<noteq> d'))"

definition calculate_cumulative_difficulty :: "blockchain \<Rightarrow> u64 option \<Rightarrow> u64" where
  "calculate_cumulative_difficulty bc block_index =
     (let n = length (bc_chain bc);
          end_index = (case block_index of Some i \<Rightarrow> unat i | None \<Rightarrow> n - 1) in
      sum_list (map (\<lambda>b. 2 ^ unat (lb_difficulty b)) (take (Suc (min end_index (n - 1))) (bc_chain bc))))"

definition calculate_block_size :: "ledger_tx list \<Rightarrow> nat" where
  "calculate_block_size txs =
     200 + sum_list (map (\<lambda>tx. length (lt_from tx) + length (lt_to tx) + length (lt_signature tx) + 50) txs)"

definition chain_txs :: "blockchain \<Rightarrow> ledger_tx list" where
  "chain_txs bc = concat (map lb_transactions (bc_chain bc))"

definition balance_step :: "string \<Rightarrow> u64 \<Rightarrow> ledger_tx \<Rightarrow> u64" where
  "balance_step a balance tx =
     (if lt_from tx = ''0'' \<and> lt_to tx = a then balance + lt_amount tx
      else if lt_from tx = a then sat_sub balance (lt_amount tx + lt_fee tx)
      else if lt_to tx = a then balance + lt_amount tx
      else balance)"

definition calculate_balance :: "blockchain \<Rightarrow> string \<Rightarrow> u64" where
  "calculate_balance bc a = foldl (balance_step a) 0 (chain_txs bc)"

definition is_double_spend :: "blockchain \<Rightarrow> ledger_tx \<Rightarrow> bool" where
  "is_double_spend bc tx \<longleftrightarrow> list_ex (\<lambda>t. lt_id t = lt_id tx) (chain_txs bc)"

definition validate_coinbase_transaction :: "ledger_tx \<Rightarrow> ledger_error + unit" where
  "validate_coinbase_transaction tx =
     checks [require (lt_from tx = ''0'') NotCoinbase, require (lt_to tx \<noteq> []) CoinbaseRecipient,
             require (lt_amount tx \<noteq> 0) CoinbaseZero, require (lt_amount tx \<le> MAX_COINBASE_AMOUNT) CoinbaseTooLarge,
             require (lt_signature tx = []) CoinbaseSigned, require (32 \<le> length (lt_to tx)) CoinbaseAddressShort]"

definition validate_transaction ::
    "ledger_env \<Rightarrow> blockchain \<Rightarrow> ledger_tx \<Rightarrow> wallet_manager \<Rightarrow> ledger_error + unit" where
  "validate_transaction env bc tx wm =
     (if \<not> tx_is_valid tx then Inl InvalidFields
      else if lt_from tx = ''STAKING'' then Inr ()
      else if lt_from tx = ''0'' then Inr ()
      else (case get_wallet wm (lt_from tx) of
              None \<Rightarrow> Inl WalletNotFound
            | Some w \<Rightarrow>
                let balance = calculate_balance bc (lt_from tx);
                    total = lt_amount tx + lt_fee tx in
                checks [require (has_valid_signature env tx (wa_public_key w)) BadTxSignature,
                        require (total \<le> balance) (LowFunds balance total),
                        require (lt_fee tx \<noteq> 0) FeeRequired,
                        require (\<not> is_double_spend bc tx) DoubleSpend]))"

text \<open>The loop of \<open>add_block\<close> over the transactions of the new block; the result counts the coinbases.\<close>

fun check_transactions ::
    "ledger_env \<Rightarrow> blockchain \<Rightarrow> wallet_manager \<Rightarrow> ledger_tx list \<Rightarrow> nat \<Rightarrow> ledger_error + nat" where
  "check_transactions env bc wm [] coinbase_count = Inr coinbase_count"
| "check_transactions env bc wm (tx # txs) coinbase_count =
     (if lt_from tx = ''0'' then
        (case validate_coinbase_transaction tx of
           Inl e \<Rightarrow> Inl (BadCoinbase e)
         | Inr _ \<Rightarrow> check_transactions env bc wm txs (Suc coinbase_count))
      else if lt_from tx = ''STAKING'' then check_transactions env bc wm txs coinbase_count
      else
        (case validate_transaction env bc tx wm of
           Inl e \<Rightarrow> Inl (BadTx e)
         | Inr _ \<Rightarrow> check_transactions env bc wm txs coinbase_count))"

text \<open>\<open>None\<close> stands for a mining loop that does not end.\<close>

definition ledger_add_block ::
    "ledger_env \<Rightarrow> u64 \<Rightarrow> blockchain \<Rightarrow> ledger_tx list \<Rightarrow> wallet_manager \<Rightarrow> (blockchain \<times> (ledger_error + string)) option" where
  "ledger_add_block env now bc txs wm =
     (if txs = [] then Some (bc, Inl EmptyBlock)
      else if calculate_block_size txs > bc_max_block_size_bytes bc
      then Some (bc, Inl (BlockTooLarge (calculate_block_size txs)))
      else if length txs > bc_max_transactions_per_block bc then Some (bc, Inl (TooManyTxs (length txs)))
      else (case check_transactions env bc wm txs 0 of
              Inl e \<Rightarrow> Some (bc, Inl e)
            | Inr coinbase_count \<Rightarrow>
                if coinbase_count > 1 then Some (bc, Inl ManyCoinbases)
                else
                  let bc' = fst (adjust_difficulty bc);
                      prev = lb_hash (last (bc_chain bc'));
                      idx = of_nat (length (bc_chain bc')) in
                  (case mine_sequential env (ledger_block_new env now idx txs prev (bc_difficulty bc')) of
                     None \<Rightarrow> None
                   | Some b \<Rightarrow> Some (bc'\<lparr>bc_chain := bc_chain bc' @ [b]\<rparr>, Inr (lb_hash b)))))"

definition calculate_mining_reward :: "blockchain \<Rightarrow> u64" where
  "calculate_mining_reward bc =
     (let halvings = length (bc_chain bc) div 210000 in drop_bit (min halvings 64 mod 64) 50)"

definition create_coinbase_transaction :: "string \<Rightarrow> u64 \<Rightarrow> string \<Rightarrow> u64 option \<Rightarrow> ledger_tx" where
  "create_coinbase_transaction i now miner reward =
     new_with_fee i now ''0'' miner (case reward of Some r \<Rightarrow> r | None \<Rightarrow> 50) 0 (Some ''Coinbase - Mining Reward'')"

abbreviation burn_address :: string where
  "burn_address \<equiv> ''BURN_ADDRESS_00000000000000000000''"

definition mine_block_with_reward ::
    "ledger_env \<Rightarrow> string \<Rightarrow> string \<Rightarrow> u64 \<Rightarrow> blockchain \<Rightarrow> string \<Rightarrow> ledger_tx list \<Rightarrow> wallet_manager
      \<Rightarrow> (blockchain \<times> (ledger_error + string)) option" where
  "mine_block_with_reward env i1 i2 now bc miner txs wm =
     (let total_fees = sum_list (map lt_fee txs);
          fees_to_burn = total_fees * 80 div 100;
          fees_to_miner = total_fees * 20 div 100;
          coinbase = create_coinbase_transaction i1 now miner (Some (calculate_mining_reward bc + fees_to_miner));
          burns = (if fees_to_burn > 0 then [create_coinbase_transaction i2 now burn_address (Some fees_to_burn)] else []) in
      ledger_add_block env now bc (coinbase # burns @ txs) wm)"

text \<open>
  \<open>is_chain_valid\<close> also looks for repeated indices, \<open>is_valid_chain_static\<close> does not.
\<close>

fun links_valid :: "ledger_env \<Rightarrow> ledger_block \<Rightarrow> ledger_block list \<Rightarrow> bool" where
  "links_valid env p [] \<longleftrightarrow> True"
| "links_valid env p (b # bs) \<longleftrightarrow>
     block_is_valid env b \<and> lb_previous_hash b = lb_hash p \<and> lb_index b = lb_index p + 1 \<and> links_valid env b bs"

definition is_valid_chain_static :: "ledger_env \<Rightarrow> ledger_block list \<Rightarrow> bool" where
  "is_valid_chain_static env bs = (case bs of [] \<Rightarrow> False | g # rest \<Rightarrow> block_is_valid env g \<and> links_valid env g rest)"

definition is_chain_valid :: "ledger_env \<Rightarrow> blockchain \<Rightarrow> bool" where
  "is_chain_valid env bc \<longleftrightarrow>
     is_valid_chain_static env (bc_chain bc) \<and> distinct (0 # map lb_index (tl (bc_chain bc)))"

definition resolve_conflict :: "ledger_env \<Rightarrow> blockchain \<Rightarrow> ledger_block list \<Rightarrow> wallet_manager \<Rightarrow> blockchain \<times> bool" where
  "resolve_conflict env bc other wm =
     (if length other \<le> length (bc_chain bc) then (bc, False)
      else if \<not> is_valid_chain_static env other then (bc, False)
      else if list_ex (\<lambda>b. list_ex (\<lambda>tx. lt_from tx \<noteq> ''0'' \<and> isl (validate_transaction env bc tx wm)) (lb_transactions b)) other
      then (bc, False)
      else (bc\<lparr>bc_chain := other\<rparr>, True))"

text \<open>\<open>WalletManager::sync_from_blockchain\<close>: balances recomputed from all transactions of a chain.\<close>

definition sync_step :: "(string, u64) hash_map \<Rightarrow> ledger_tx \<Rightarrow> (string, u64) hash_map" where
  "sync_step m tx =
     (let get = (\<lambda>m a. case map_of m a of Some x \<Rightarrow> x | None \<Rightarrow> 0) in
      if lt_from tx = ''0'' then hm_insert (lt_to tx) (get m (lt_to tx) + lt_amount tx) m
      else
        let m' = hm_insert (lt_from tx) (sat_sub (get m (lt_from tx)) (lt_amount tx)) m in
        hm_insert (lt_to tx) (get m' (lt_to tx) + lt_amount tx) m')"

definition sync_from_blockchain :: "(string \<Rightarrow> wallet) \<Rightarrow> wallet_manager \<Rightarrow> ledger_block list \<Rightarrow> wallet_manager" where
  "sync_from_blockchain fresh wm blocks =
     foldl (\<lambda>wm (a, balance).
        if balance > 0 \<or> hm_contains a wm then
          let w = (case map_of wm a of Some w \<Rightarrow> w | None \<Rightarrow> (fresh a)\<lparr>wa_address := a\<rparr>) in
          hm_insert a (w\<lparr>wa_balance := balance\<rparr>) wm
        else wm)
       wm (foldl sync_step [] (concat (map lb_transactions blocks)))"


section \<open>Mining\<close>

definition with_nonce :: "ledger_block \<Rightarrow> nat \<Rightarrow> ledger_block" where
  "with_nonce b k = b\<lparr>lb_nonce := lb_nonce b + of_nat k\<rparr>"

definition solves :: "ledger_env \<Rightarrow> ledger_block \<Rightarrow> nat \<Rightarrow> bool" where
  "solves env b k \<longleftrightarrow> meets_target (lb_difficulty b) (block_hash env (with_nonce b k))"

lemma block_hash_cong [simp]: "block_hash env (b\<lparr>lb_hash := h\<rparr>) = block_hash env b"
  by (simp add: block_hash_def block_data_def)

lemma solves_0: "solves env b 0 \<longleftrightarrow> meets_target (lb_difficulty b) (block_hash env b)"
  by (simp add: solves_def with_nonce_def)

lemma solves_Suc: "solves env b (Suc k) \<longleftrightarrow> solves env (b\<lparr>lb_hash := h, lb_nonce := lb_nonce b + 1\<rparr>) k"
  by (simp add: solves_def with_nonce_def block_hash_def block_data_def add_ac)

lemma mine_found:
  assumes "solves env b k" and "\<forall>j < k. \<not> solves env b j"
  shows "mine_sequential env b = Some ((with_nonce b k)\<lparr>lb_hash := block_hash env (with_nonce b k)\<rparr>)"
  using assms
proof (induction k arbitrary: b)
  case 0
  then show ?case by (subst mine_sequential.simps) (simp add: solves_0 with_nonce_def Let_def)
next
  case (Suc k)
  let ?b = "b\<lparr>lb_hash := block_hash env b, lb_nonce := lb_nonce b + 1\<rparr>"
  have "\<not> meets_target (lb_difficulty b) (block_hash env b)" using Suc.prems(2) solves_0 by blast
  then have "mine_sequential env b = mine_sequential env ?b" by (subst mine_sequential.simps) (simp add: Let_def)
  moreover have "solves env ?b k" "\<forall>j < k. \<not> solves env ?b j"
    using Suc.prems solves_Suc [of env b _ "block_hash env b"] by auto
  ultimately show ?case using Suc.IH [of ?b] by (simp add: with_nonce_def block_hash_def block_data_def add_ac)
qed

lemma mine_solves: "mine_sequential env b = Some b' \<Longrightarrow> \<exists>k. solves env b k"
proof (induction rule: mine_sequential.raw_induct [rotated 1, consumes 1])
  case (1 mine env b b')
  show ?case
  proof (cases "meets_target (lb_difficulty b) (block_hash env b)")
    case True
    then show ?thesis using solves_0 by blast
  next
    case False
    then have "mine env (b\<lparr>lb_hash := block_hash env b, lb_nonce := lb_nonce b + 1\<rparr>) = Some b'"
      using 1(2) by (simp add: Let_def)
    from 1(1) [OF this] show ?thesis using solves_Suc by blast
  qed
qed

text \<open>
  C34: mining returns exactly when some nonce, counted from the starting one, gives a hash with the
  required zeros, and then it returns the block with the first such nonce and its hash; otherwise it
  runs forever.
\<close>

theorem mining_finds_first_nonce:
  "mine_sequential env b =
     (if \<exists>k. solves env b k
      then let b' = with_nonce b (LEAST k. solves env b k) in Some (b'\<lparr>lb_hash := block_hash env b'\<rparr>)
      else None)"
proof (cases "\<exists>k. solves env b k")
  case True
  have "\<forall>j < (LEAST k. solves env b k). \<not> solves env b j" by (metis not_less_Least)
  from mine_found [OF LeastI_ex [OF True] this] show ?thesis unfolding Let_def if_P [OF True] .
next
  case False
  then have "mine_sequential env b = None" using mine_solves [of env b] by (metis not_None_eq)
  then show ?thesis unfolding if_not_P [OF False] .
qed

lemma mine_valid:
  assumes "mine_sequential env b = Some b'" and "lb_merkle_root b = calculate_merkle_root env (lb_transactions b)"
  shows "block_is_valid env b'" and "lb_previous_hash b' = lb_previous_hash b" and "lb_index b' = lb_index b"
    and "lb_transactions b' = lb_transactions b"
proof -
  obtain k where k: "solves env b k" "b' = (with_nonce b k)\<lparr>lb_hash := block_hash env (with_nonce b k)\<rparr>"
  proof -
    have least: "solves env b (LEAST k. solves env b k)" "\<forall>j < (LEAST k. solves env b k). \<not> solves env b j"
      using LeastI_ex [OF mine_solves [OF assms(1)]] by (simp, metis not_less_Least)
    from that [OF least(1)] mine_found [OF least] assms(1) show thesis by simp
  qed
  then show "block_is_valid env b'" "lb_previous_hash b' = lb_previous_hash b" "lb_index b' = lb_index b"
    "lb_transactions b' = lb_transactions b"
    using assms(2) by (simp_all add: block_is_valid_def solves_def with_nonce_def)
qed

section \<open>The chain invariant\<close>

inductive ledger_reach :: "ledger_env \<Rightarrow> blockchain \<Rightarrow> bool" for env where
  start: "ledger_reach env (blockchain_new env i now d)"
| mined: "ledger_reach env bc \<Longrightarrow> ledger_add_block env now bc txs wm = Some (bc', res) \<Longrightarrow> ledger_reach env bc'"

lemma adjust_chain [simp]: "bc_chain (fst (adjust_difficulty bc)) = bc_chain bc"
  by (simp add: adjust_difficulty_def Let_def)

lemma ledger_add_block_cases:
  assumes "ledger_add_block env now bc txs wm = Some (bc', res)"
  obtains (failed) e where "bc' = bc" "res = Inl e"
  | (added) b k where "bc_chain bc' = bc_chain bc @ [b]" "check_transactions env bc wm txs 0 = Inr k" "k \<le> 1"
      "block_is_valid env b" "lb_previous_hash b = lb_hash (last (bc_chain bc))" "lb_index b = of_nat (length (bc_chain bc))"
      "lb_transactions b = txs" "txs \<noteq> []" "res = Inr (lb_hash b)"
proof -
  let ?new = "ledger_block_new env now (of_nat (length (bc_chain bc))) txs (lb_hash (last (bc_chain bc)))
    (bc_difficulty (fst (adjust_difficulty bc)))"
  have root: "lb_merkle_root ?new = calculate_merkle_root env (lb_transactions ?new)" by (simp add: ledger_block_new_def)
  consider (a) e where "bc' = bc" "res = Inl e"
    | (b) b k where "mine_sequential env ?new = Some b" "check_transactions env bc wm txs 0 = Inr k" "k \<le> 1"
        "bc' = (fst (adjust_difficulty bc))\<lparr>bc_chain := bc_chain bc @ [b]\<rparr>" "txs \<noteq> []" "res = Inr (lb_hash b)"
    using assms by (fastforce simp: ledger_add_block_def Let_def split: if_splits sum.splits option.splits)
  then show thesis
  proof cases
    case a
    then show ?thesis using failed by blast
  next
    case b
    from mine_valid [OF b(1) root] show ?thesis
      using b by (intro added [of b k]) (simp_all add: ledger_block_new_def)
  qed
qed

lemma links_valid_snoc:
  "links_valid env p (bs @ [b]) \<longleftrightarrow> links_valid env p bs \<and> block_is_valid env b \<and>
     lb_previous_hash b = lb_hash (last (p # bs)) \<and> lb_index b = lb_index (last (p # bs)) + 1"
  by (induction bs arbitrary: p) auto

lemma genesis_chain:
  "\<exists>g. bc_chain (blockchain_new env i now d) = [g] \<and> lb_index g = 0 \<and> lb_transactions g = [genesis_tx i now]"
  by (simp add: blockchain_new_def create_genesis_block_def Let_def split: prod.split)

text \<open>
  C17: in every chain reached by mining blocks on a fresh one, each block after the first has a correct
  hash with the required zeros, the Merkle root of its own transactions, the hash of its predecessor
  and an index equal to its position.
\<close>

theorem ledger_chain_linked:
  assumes "ledger_reach env bc"
  shows "\<exists>g rest. bc_chain bc = g # rest \<and> links_valid env g rest \<and>
    (\<forall>i < length (bc_chain bc). lb_index (bc_chain bc ! i) = of_nat i)"
  using assms
proof induction
  case (start i now d)
  then show ?case using genesis_chain [of env i now d] by auto
next
  case (mined bc now txs wm bc' res)
  from mined.IH obtain g rest where g: "bc_chain bc = g # rest" "links_valid env g rest"
    and idx: "\<forall>i < length (bc_chain bc). lb_index (bc_chain bc ! i) = of_nat i" by auto
  from mined.hyps(2) show ?case
  proof (cases rule: ledger_add_block_cases)
    case failed
    then show ?thesis using g idx by auto
  next
    case (added b k)
    have "lb_index (last (g # rest)) = of_nat (length rest)"
      using idx g(1) by (metis last_conv_nth length_Cons lessI list.distinct(1) diff_Suc_1)
    then have "links_valid env g (rest @ [b])"
      using added g by (simp add: links_valid_snoc add.commute)
    moreover have "\<forall>i < length (bc_chain bc'). lb_index (bc_chain bc' ! i) = of_nat i"
      using idx added by (auto simp: nth_append less_Suc_eq)
    ultimately show ?thesis using added g by auto
  qed
qed


section \<open>Balances\<close>



definition cost_fits :: "ledger_tx \<Rightarrow> bool" where
  "cost_fits tx \<longleftrightarrow> unat (lt_amount tx) + unat (lt_fee tx) < 2 ^ 64"





lemma validate_transaction_iff:
  assumes "lt_from tx \<notin> {''0'', ''STAKING''}"
  shows "validate_transaction env bc tx wm = Inr () \<longleftrightarrow>
    tx_is_valid tx \<and> (\<exists>w. get_wallet wm (lt_from tx) = Some w \<and> has_valid_signature env tx (wa_public_key w)) \<and>
    lt_amount tx + lt_fee tx \<le> calculate_balance bc (lt_from tx) \<and> lt_fee tx \<noteq> 0 \<and> \<not> is_double_spend bc tx"
  using assms by (auto simp: validate_transaction_def checks_Inr Let_def split: option.splits simp del: checks.simps)


section \<open>Gaps in the validation of blocks\<close>

text \<open>
  Transactions of a block are validated one by one against the chain before the block, so any number of
  copies of one valid transaction pass the validation of a block together.
\<close>

theorem copies_pass_validation:
  assumes "validate_transaction env bc tx wm = Inr ()" and "lt_from tx \<notin> {''0'', ''STAKING''}"
  shows "check_transactions env bc wm (replicate n tx) 0 = Inr 0"
  using assms by (induction n) auto

text \<open>
  The sum of amount and fee wraps around: a signed transaction whose amount and fee sum up to
  \<open>2 ^ 64\<close> passes validation whatever the balance of its sender.
\<close>

theorem overflowing_cost_passes:
  assumes "unat (lt_amount tx) + unat (lt_fee tx) = 2 ^ 64" and "lt_from tx \<notin> {[], ''0'', ''STAKING''}" and "lt_to tx \<noteq> []"
    and "get_wallet wm (lt_from tx) = Some w" and "has_valid_signature env tx (wa_public_key w)" and "\<not> is_double_spend bc tx"
  shows "validate_transaction env bc tx wm = Inr ()"
proof -
  have "lt_amount tx + lt_fee tx = 0" using assms(1) by (simp add: unat_eq_zero [symmetric] unat_word_ariths del: unat_eq_zero)
  moreover have "lt_amount tx \<noteq> 0" "lt_fee tx \<noteq> 0"
    using assms(1) u64_bound [of "lt_amount tx"] u64_bound [of "lt_fee tx"] by (auto simp del: u64_bound)
  ultimately show ?thesis using assms by (simp add: validate_transaction_def tx_is_valid_def word_gt_0)
qed

lemma check_transactions_count:
  "check_transactions env bc wm txs k = Inr n \<Longrightarrow> n = k + length (filter (\<lambda>tx. lt_from tx = ''0'') txs)"
  by (induction txs arbitrary: k) (fastforce split: if_splits sum.splits)+

text \<open>
  A block with fees cannot be mined with a reward: the burned share of the fees is a second coinbase
  transaction, and a block with two coinbases is always refused.
\<close>

theorem fees_block_reward:
  assumes "2 \<le> sum_list (map lt_fee txs)" and "unat (sum_list (map lt_fee txs)) * 80 < 2 ^ 64"
  shows "\<exists>e. mine_block_with_reward env i1 i2 now bc miner txs wm = Some (bc, Inl e)"
proof -
  let ?f = "sum_list (map lt_fee txs)"
  have "unat (?f * 80 div 100) = unat ?f * 80 div 100" using assms(2) by (simp add: unat_div unat_mul_no_wrap)
  moreover have "1 \<le> unat ?f * 80 div 100" using assms(1) by (simp add: word_le_nat_alt)
  ultimately have burn: "?f * 80 div 100 > 0" by (simp add: word_less_nat_alt)
  let ?all = "create_coinbase_transaction i1 now miner (Some (calculate_mining_reward bc + ?f * 20 div 100)) #
    create_coinbase_transaction i2 now burn_address (Some (?f * 80 div 100)) # txs"
  have "n > 1" if "check_transactions env bc wm ?all 0 = Inr n" for n
    using check_transactions_count [OF that] by (simp add: create_coinbase_transaction_def new_with_fee_def)
  then have "\<exists>e. ledger_add_block env now bc ?all wm = Some (bc, Inl e)"
    by (cases "check_transactions env bc wm ?all 0") (auto simp: ledger_add_block_def Let_def)
  then show ?thesis using burn by (simp add: mine_block_with_reward_def Let_def)
qed

text \<open>
  Conflict resolution validates the transactions of the other chain against its own chain, so a longer
  valid chain that shares a confirmed payment with it is never adopted.
\<close>

theorem shared_history_never_adopted:
  assumes "tx \<in> set (chain_txs bc)" and "b \<in> set other" and "tx \<in> set (lb_transactions b)"
    and "lt_from tx \<notin> {''0'', ''STAKING''}"
  shows "resolve_conflict env bc other wm = (bc, False)"
proof -
  have "is_double_spend bc tx" using assms(1) by (auto simp: is_double_spend_def list_ex_iff)
  then have "isl (validate_transaction env bc tx wm)"
    using validate_transaction_iff [OF assms(4), of env bc wm] by (cases "validate_transaction env bc tx wm") auto
  then show ?thesis using assms by (auto simp: resolve_conflict_def list_ex_iff)
qed


section \<open>The genesis block\<close>

lemma genesis_search_result:
  assumes "(nonce = 0 \<and> h = []) \<or> (\<exists>m. nonce = Suc m \<and> h = block_hash env (b\<lparr>lb_nonce := of_nat m\<rparr>))"
    and "\<forall>j. Suc j < nonce \<longrightarrow> \<not> meets_target (lb_difficulty b) (block_hash env (b\<lparr>lb_nonce := of_nat j\<rparr>))"
    and "genesis_search env b nonce h = (m, r)"
  shows "(m = 0 \<and> r = []) \<or> (\<exists>k. m = Suc k \<and> r = block_hash env (b\<lparr>lb_nonce := of_nat k\<rparr>)) \<or> \<not> meets_target (lb_difficulty b) r"
  using assms
proof (induction env b nonce h rule: genesis_search.induct)
  case (1 env b nonce h)
  let ?hash = "\<lambda>n. block_hash env (b\<lparr>lb_nonce := of_nat n\<rparr>)"
  show ?case
  proof (cases "meets_target (lb_difficulty b) h")
    case True
    then have "m = nonce" "r = h" using 1(4) by (simp_all add: genesis_search.simps [of env b nonce h])
    then show ?thesis using 1(2) by auto
  next
    case False
    then have below: "\<forall>j < nonce. \<not> meets_target (lb_difficulty b) (?hash j)" using 1(2,3) by (auto simp: less_Suc_eq)
    show ?thesis
    proof (cases "Suc nonce > GENESIS_NONCE_LIMIT")
      case True
      then have "r = ?hash GENESIS_FALLBACK_NONCE"
        using 1(4) False by (simp add: genesis_search.simps [of env b nonce h] Let_def)
      moreover have "GENESIS_FALLBACK_NONCE < nonce"
        using True by (simp add: GENESIS_FALLBACK_NONCE_def GENESIS_NONCE_LIMIT_def)
      ultimately show ?thesis using below by blast
    next
      case more: False
      have "genesis_search env b (Suc nonce) (?hash nonce) = (m, r)"
        using 1(4) False more by (simp add: genesis_search.simps [of env b nonce h] Let_def)
      then show ?thesis using 1(1) [OF False refl more] below by auto
    qed
  qed
qed

text \<open>
  The genesis block never passes the validity check of its own chain: the stored nonce is one past the
  nonce that was hashed, at difficulty zero no hash is computed, and the fallback nonce misses the target.
  So a fresh chain is never valid, and no chain that starts with it is ever adopted.
\<close>

theorem fresh_chain_invalid:
  assumes "\<And>s. le_sha_hex env s \<noteq> []"
    and "g = hd (bc_chain (blockchain_new env i now d))"
    and "inj_on (le_sha_hex env) (range (\<lambda>n. block_data (g\<lparr>lb_nonce := n\<rparr>)))"
  shows "\<not> is_chain_valid env (blockchain_new env i now d) \<and> resolve_conflict env bc (g # rest) wm = (bc, False)"
proof -
  define b where "b = \<lparr>lb_index = 0, lb_timestamp = GENESIS_TIMESTAMP, lb_transactions = [genesis_tx i now],
     lb_previous_hash = ''0'', lb_hash = [], lb_nonce = 0, lb_difficulty = d,
     lb_merkle_root = calculate_merkle_root env [genesis_tx i now]\<rparr>"
  obtain m r where search: "genesis_search env b 0 [] = (m, r)" by (cases "genesis_search env b 0 []")
  have chain: "bc_chain (blockchain_new env i now d) = [b\<lparr>lb_hash := r, lb_nonce := of_nat m\<rparr>]"
    using search by (simp add: blockchain_new_def create_genesis_block_def b_def Let_def)
  then have g: "g = b\<lparr>lb_hash := r, lb_nonce := of_nat m\<rparr>" using assms(2) by simp
  have data: "block_data (g\<lparr>lb_nonce := n\<rparr>) = block_data (b\<lparr>lb_nonce := n\<rparr>)" for n by (simp add: g block_data_def)
  have ne: "block_hash env (b\<lparr>lb_nonce := of_nat (Suc k)\<rparr>) \<noteq> block_hash env (b\<lparr>lb_nonce := of_nat k\<rparr>)" for k
  proof
    assume "block_hash env (b\<lparr>lb_nonce := of_nat (Suc k)\<rparr>) = block_hash env (b\<lparr>lb_nonce := of_nat k\<rparr>)"
    then have "block_data (g\<lparr>lb_nonce := of_nat (Suc k)\<rparr>) = block_data (g\<lparr>lb_nonce := of_nat k\<rparr>)"
      using assms(3) data by (auto simp: block_hash_def inj_on_def)
    then show False by (simp add: block_data_def)
  qed
  have "\<not> block_is_valid env g"
  proof
    assume valid: "block_is_valid env g"
    have "block_hash env g = block_hash env (b\<lparr>lb_nonce := of_nat m\<rparr>)" "lb_hash g = r" "lb_difficulty g = lb_difficulty b"
      by (simp_all add: g block_hash_def block_data_def)
    with valid have r: "r = block_hash env (b\<lparr>lb_nonce := of_nat m\<rparr>)" "meets_target (lb_difficulty b) r"
      unfolding block_is_valid_def by metis+
    with genesis_search_result [OF _ _ search] assms(1) obtain k where "m = Suc k" "r = block_hash env (b\<lparr>lb_nonce := of_nat k\<rparr>)"
      by (auto simp: block_hash_def)
    then show False using r(1) ne by metis
  qed
  then show ?thesis
    using chain g by (simp add: is_chain_valid_def is_valid_chain_static_def resolve_conflict_def)
qed

section \<open>The mempool and wallets\<close>

text \<open>
  Taking transactions for a block splits the mempool: as many as asked for, or all, are taken, in order
  of descending fee, none that stays behind pays more than one that is taken, and together they are exactly
  the transactions that were there.
\<close>

theorem mempool_prefers_fees:
  "case get_transactions_for_block p limit of
     (p', taken) \<Rightarrow>
       length taken = min limit (length (mp_transactions p)) \<and>
       sorted_wrt (\<lambda>a b. lt_fee a \<ge> lt_fee b) (taken @ mp_transactions p') \<and>
       mset taken + mset (mp_transactions p') = mset (mp_transactions p)"
proof -
  let ?le = "\<lambda>a b. lt_fee a \<ge> lt_fee b"
  let ?s = "sort_by ?le (mp_transactions p)"
  have "sorted_wrt ?le ?s" by (rule sorted_sort_by) auto
  moreover have "mset (take n ?s) + mset (drop n ?s) = mset ?s" for n
    by (metis append_take_drop_id mset_append)
  ultimately show ?thesis
    by (simp add: get_transactions_for_block_def Let_def mset_sort_by min_def)
qed

text \<open>
  A payment moves exactly its amount: a successful payment between wallets, whether or not they are the
  same, lowers the sum of all balances by the fee and nothing else, and it succeeds only if the payer had
  amount and fee.
\<close>

theorem payment_conserves:
  assumes "hm_ok wm" and "hm_total (\<lambda>w. unat (wa_balance w)) wm < 2 ^ 64" and "cost_fits tx"
    and "wa_balance fresh1 = 0" and "wa_balance fresh2 = 0" and "process_transaction fresh1 fresh2 wm tx = (wm', Inr ())"
  shows "hm_total (\<lambda>w. unat (wa_balance w)) wm' + unat (lt_fee tx) = hm_total (\<lambda>w. unat (wa_balance w)) wm \<and>
    (\<exists>w. get_wallet wm (lt_from tx) = Some w \<and> unat (lt_amount tx) + unat (lt_fee tx) \<le> unat (wa_balance w))"
proof -
  let ?tot = "hm_total (\<lambda>w. unat (wa_balance w))"
  let ?cost = "lt_amount tx + lt_fee tx"
  have cost: "unat ?cost = unat (lt_amount tx) + unat (lt_fee tx)" using assms(3) by (simp add: cost_fits_def unat_add_no_wrap)
  define w where "w = (case map_of wm (lt_from tx) of Some w \<Rightarrow> w | None \<Rightarrow> fresh1)"
  define m where "m = hm_insert (lt_from tx) (w\<lparr>wa_balance := wa_balance w - ?cost\<rparr>) wm"
  define v where "v = (case map_of m (lt_to tx) of Some v \<Rightarrow> v | None \<Rightarrow> fresh2)"
  have valid: "lt_amount tx > 0" and le: "?cost \<le> wa_balance w"
    and wm': "wm' = hm_insert (lt_to tx) (add_balance v (lt_amount tx)) m"
    using assms(6) by (auto simp: process_transaction_def subtract_balance_def tx_is_valid_def w_def m_def v_def Let_def
        split: if_splits)
  have oldw: "hm_old (\<lambda>w. unat (wa_balance w)) wm (lt_from tx) = unat (wa_balance w)"
    using assms(4) by (simp add: hm_old_def w_def split: option.split)
  have oldv: "hm_old (\<lambda>w. unat (wa_balance w)) m (lt_to tx) = unat (wa_balance v)"
    using assms(5) by (simp add: hm_old_def v_def split: option.split)
  have m: "?tot m + unat ?cost = ?tot wm"
    using hm_total_insert [OF assms(1), of "\<lambda>w. unat (wa_balance w)" "lt_from tx" "w\<lparr>wa_balance := wa_balance w - ?cost\<rparr>"] oldw le
    by (simp add: m_def unat_sub_no_wrap word_le_nat_alt)
  have "unat (wa_balance v) \<le> ?tot m" using hm_old_le_total [of "\<lambda>w. unat (wa_balance w)" m "lt_to tx"] oldv by simp
  then have "unat (wa_balance v + lt_amount tx) = unat (wa_balance v) + unat (lt_amount tx)"
    using m cost assms(2) by (intro unat_add_no_wrap) simp
  then have "?tot wm' = ?tot m + unat (lt_amount tx)"
    using hm_total_insert [of m "\<lambda>w. unat (wa_balance w)" "lt_to tx" "add_balance v (lt_amount tx)"] oldv assms(1)
    by (simp add: wm' m_def add_balance_def)
  moreover have "unat ?cost \<le> unat (wa_balance w)" using le by (simp add: word_le_nat_alt)
  moreover have "map_of wm (lt_from tx) \<noteq> None"
    using valid le assms(4) cost by (auto simp: w_def word_le_nat_alt word_less_nat_alt split: option.splits)
  ultimately show ?thesis using m cost by (auto simp: get_wallet_def w_def)
qed


section \<open>A concrete chain\<close>

definition demo_ledger :: ledger_env where
  "demo_ledger = \<lparr>le_sha_hex = (\<lambda>s. CHR ''x'' # s), le_hex_decode = (\<lambda>_. Some (replicate 64 0)),
     le_ed_verify = (\<lambda>_ _ _. True), le_ml_verify = (\<lambda>_ _ _. False)\<rparr>"

definition demo_bc :: blockchain where
  "demo_bc = blockchain_new demo_ledger ''g'' 5 0"

definition alice :: string where
  "alice = ''alice_0000000000000000000000000000''"

definition demo_coinbase :: ledger_tx where
  "demo_coinbase = create_coinbase_transaction ''c1'' 9 alice (Some 100)"

definition demo_payment :: ledger_tx where
  "demo_payment = (new_with_fee ''p1'' 12 alice ''bob'' 60 5 None)\<lparr>lt_signature := ''aa''\<rparr>"

definition demo_wallets :: wallet_manager where
  "demo_wallets = [(alice, \<lparr>wa_address = alice, wa_balance = 100, wa_public_key = replicate 32 0\<rparr>)]"

definition demo_bc1 :: blockchain where
  "demo_bc1 = fst (the (ledger_add_block demo_ledger 9 demo_bc [demo_coinbase] demo_wallets))"

lemmas demo_tx_defs = demo_coinbase_def demo_payment_def create_coinbase_transaction_def new_with_fee_def alice_def

lemma mine_zero_difficulty:
  "lb_difficulty b = 0 \<Longrightarrow> mine_sequential env b = Some (b\<lparr>lb_hash := block_hash env b\<rparr>)"
  by (subst mine_sequential.simps) (simp add: Let_def meets_target_def)

lemma demo_bc_fields:
  "bc_difficulty demo_bc = 0" "bc_max_block_size_bytes demo_bc = 1000000" "bc_max_transactions_per_block demo_bc = 1000"
  "length (bc_chain demo_bc) = 1" "chain_txs demo_bc = [genesis_tx ''g'' 5]"
  by (simp_all add: demo_bc_def blockchain_new_def create_genesis_block_def Let_def chain_txs_def split: prod.split)

lemma demo_block_added:
  "\<exists>b. ledger_add_block demo_ledger 9 demo_bc [demo_coinbase] demo_wallets = Some (demo_bc\<lparr>bc_chain := bc_chain demo_bc @ [b]\<rparr>, Inr (lb_hash b)) \<and>
     lb_transactions b = [demo_coinbase]"
proof -
  let ?n = "ledger_block_new demo_ledger 9 1 [demo_coinbase] (lb_hash (last (bc_chain demo_bc))) 0"
  have "check_transactions demo_ledger demo_bc demo_wallets [demo_coinbase] 0 = Inr 1" "calculate_block_size [demo_coinbase] \<le> 1000000"
    by (simp_all add: validate_coinbase_transaction_def calculate_block_size_def demo_tx_defs MAX_COINBASE_AMOUNT_def)
  moreover have "mine_sequential demo_ledger ?n = Some (?n\<lparr>lb_hash := block_hash demo_ledger ?n\<rparr>)"
    by (rule mine_zero_difficulty) (simp add: ledger_block_new_def)
  ultimately have "ledger_add_block demo_ledger 9 demo_bc [demo_coinbase] demo_wallets =
      Some (demo_bc\<lparr>bc_chain := bc_chain demo_bc @ [?n\<lparr>lb_hash := block_hash demo_ledger ?n\<rparr>]\<rparr>, Inr (block_hash demo_ledger ?n))"
    by (simp add: ledger_add_block_def demo_bc_fields adjust_difficulty_def Let_def del: check_transactions.simps)
  then show ?thesis by (intro exI [of _ "?n\<lparr>lb_hash := block_hash demo_ledger ?n\<rparr>"]) (simp add: ledger_block_new_def)
qed

lemma demo_bc1_facts:
  "ledger_reach demo_ledger demo_bc1" "chain_txs demo_bc1 = [genesis_tx ''g'' 5, demo_coinbase]"
  "\<exists>b. bc_chain demo_bc1 = bc_chain demo_bc @ [b] \<and> lb_transactions b = [demo_coinbase]"
proof -
  obtain b where b: "ledger_add_block demo_ledger 9 demo_bc [demo_coinbase] demo_wallets =
      Some (demo_bc\<lparr>bc_chain := bc_chain demo_bc @ [b]\<rparr>, Inr (lb_hash b))" "lb_transactions b = [demo_coinbase]"
    using demo_block_added by blast
  then have eq: "demo_bc1 = demo_bc\<lparr>bc_chain := bc_chain demo_bc @ [b]\<rparr>" by (simp add: demo_bc1_def)
  have "ledger_reach demo_ledger demo_bc" unfolding demo_bc_def by (rule ledger_reach.start)
  then show "ledger_reach demo_ledger demo_bc1" using b(1) unfolding eq by (rule ledger_reach.mined)
  show "chain_txs demo_bc1 = [genesis_tx ''g'' 5, demo_coinbase]"
    using demo_bc_fields(5) b(2) by (simp add: eq chain_txs_def)
  show "\<exists>b. bc_chain demo_bc1 = bc_chain demo_bc @ [b] \<and> lb_transactions b = [demo_coinbase]"
    by (intro exI [of _ b]) (simp add: eq b(2))
qed

lemma demo_payment_valid: "validate_transaction demo_ledger demo_bc1 demo_payment demo_wallets = Inr ()"
  by (subst validate_transaction_iff)
    (simp_all add: demo_bc1_facts demo_tx_defs tx_is_valid_def get_wallet_def demo_wallets_def has_valid_signature_def demo_ledger_def
      calculate_balance_def is_double_spend_def genesis_tx_def balance_step_def word_le_nat_alt)

theorem ledger_chain_linked_witness:
  "\<exists>g rest. bc_chain demo_bc1 = g # rest \<and> rest \<noteq> [] \<and> links_valid demo_ledger g rest"
proof -
  have "length (bc_chain demo_bc1) = 2" using demo_bc1_facts(3) demo_bc_fields(4) by auto
  then show ?thesis using ledger_chain_linked [OF demo_bc1_facts(1)] by auto
qed


theorem copies_pass_validation_witness:
  "check_transactions demo_ledger demo_bc1 demo_wallets [demo_payment, demo_payment] 0 = Inr 0 \<and>
   calculate_balance demo_bc1 alice = 100 \<and> lt_amount demo_payment = 60"
proof -
  have "lt_from demo_payment \<notin> {''0'', ''STAKING''}" by (simp add: demo_tx_defs)
  from copies_pass_validation [OF demo_payment_valid this, of 2] show ?thesis
    by (simp add: numeral_2_eq_2 calculate_balance_def demo_bc1_facts(2) balance_step_def genesis_tx_def demo_tx_defs)
qed

theorem overflowing_cost_passes_witness:
  "validate_transaction demo_ledger demo_bc (demo_payment\<lparr>lt_amount := - 5\<rparr>) demo_wallets = Inr () \<and>
   calculate_balance demo_bc alice = 0"
proof -
  have "unat (- 5 :: u64) + 5 = 2 ^ 64" by simp
  then have "validate_transaction demo_ledger demo_bc (demo_payment\<lparr>lt_amount := - 5\<rparr>) demo_wallets = Inr ()"
    by (intro overflowing_cost_passes [where w = "\<lparr>wa_address = alice, wa_balance = 100, wa_public_key = replicate 32 0\<rparr>"])
      (simp_all add: demo_tx_defs demo_wallets_def get_wallet_def has_valid_signature_def demo_ledger_def is_double_spend_def
        demo_bc_fields(5) genesis_tx_def)
  then show ?thesis
    by (simp add: calculate_balance_def demo_bc_fields(5) balance_step_def genesis_tx_def demo_tx_defs)
qed

theorem fees_block_reward_witness:
  "\<exists>e. mine_block_with_reward demo_ledger ''c2'' ''c3'' 13 demo_bc1 alice [demo_payment] demo_wallets = Some (demo_bc1, Inl e)"
  by (rule fees_block_reward) (simp_all add: demo_tx_defs)

theorem shared_history_never_adopted_witness:
  "resolve_conflict demo_ledger (demo_bc1\<lparr>bc_chain := [\<lparr>lb_index = 0, lb_timestamp = 0, lb_transactions = [demo_payment],
      lb_previous_hash = [], lb_hash = [], lb_nonce = 0, lb_difficulty = 0, lb_merkle_root = []\<rparr>]\<rparr>)
     (replicate 3 \<lparr>lb_index = 0, lb_timestamp = 0, lb_transactions = [demo_payment], lb_previous_hash = [], lb_hash = [],
        lb_nonce = 0, lb_difficulty = 0, lb_merkle_root = []\<rparr>) demo_wallets =
   (demo_bc1\<lparr>bc_chain := [\<lparr>lb_index = 0, lb_timestamp = 0, lb_transactions = [demo_payment],
      lb_previous_hash = [], lb_hash = [], lb_nonce = 0, lb_difficulty = 0, lb_merkle_root = []\<rparr>]\<rparr>, False)"
  by (rule shared_history_never_adopted [where tx = demo_payment and b = "\<lparr>lb_index = 0, lb_timestamp = 0,
      lb_transactions = [demo_payment], lb_previous_hash = [], lb_hash = [], lb_nonce = 0, lb_difficulty = 0, lb_merkle_root = []\<rparr>"])
    (simp_all add: chain_txs_def demo_tx_defs)

theorem fresh_chain_invalid_witness:
  "\<not> is_chain_valid demo_ledger (blockchain_new demo_ledger ''g'' 5 3)"
proof -
  have "inj_on (le_sha_hex demo_ledger) A" for A by (simp add: demo_ledger_def inj_on_def)
  from fresh_chain_invalid [OF _ refl this] show ?thesis by (simp add: demo_ledger_def)
qed

theorem payment_conserves_witness:
  "\<exists>wm'. process_transaction \<lparr>wa_address = [], wa_balance = 0, wa_public_key = []\<rparr> \<lparr>wa_address = [], wa_balance = 0, wa_public_key = []\<rparr>
       demo_wallets demo_payment = (wm', Inr ()) \<and>
     hm_total (\<lambda>w. unat (wa_balance w)) wm' + 5 = 100"
proof -
  let ?f = "\<lparr>wa_address = [], wa_balance = 0, wa_public_key = []\<rparr> :: wallet"
  obtain wm' where wm': "process_transaction ?f ?f demo_wallets demo_payment = (wm', Inr ())"
    by (simp add: process_transaction_def tx_is_valid_def demo_wallets_def demo_tx_defs subtract_balance_def word_le_nat_alt Let_def
        split: option.split)
  have "hm_total (\<lambda>w. unat (wa_balance w)) wm' + unat (lt_fee demo_payment) = hm_total (\<lambda>w. unat (wa_balance w)) demo_wallets"
    using payment_conserves [OF _ _ _ _ _ wm'] by (simp add: demo_wallets_def hm_ok_def cost_fits_def demo_tx_defs)
  then show ?thesis using wm' by (simp add: demo_wallets_def demo_tx_defs)
qed

end
