(* ===== verification/Staking.thy ===== *)
theory Staking
  imports Weighted_Choice
begin

text \<open>
  The staking manager of \<open>staking.rs\<close>: validators and their stakes, the delayed withdrawal, the choice of a
  validator weighted by stake and the slashing of double signatures. The clock and SHA-256 are
  parameters.
\<close>

record validator =
  va_address :: string
  va_staked_amount :: u64
  va_is_active :: bool
  va_total_rewards :: u64
  va_created_at :: u64
  va_last_validated_block :: u64
  va_validation_count :: u64
  va_slash_count :: u64
  va_unstaking_requested :: bool
  va_unstaking_timestamp :: "u64 option"

definition validator_new :: "u64 \<Rightarrow> string \<Rightarrow> u64 \<Rightarrow> validator" where
  "validator_new now address staked_amount =
     \<lparr>va_address = address, va_staked_amount = staked_amount, va_is_active = True, va_total_rewards = 0,
      va_created_at = now, va_last_validated_block = 0, va_validation_count = 0, va_slash_count = 0,
      va_unstaking_requested = False, va_unstaking_timestamp = None\<rparr>"

definition slash :: "validator \<Rightarrow> u64 \<Rightarrow> validator \<times> u64" where
  "slash v slash_amount =
     (let actual = min slash_amount (va_staked_amount v);
          v' = v\<lparr>va_slash_count := va_slash_count v + 1, va_staked_amount := va_staked_amount v - actual\<rparr> in
      (if va_staked_amount v' < 1000 then v'\<lparr>va_is_active := False\<rparr> else v', actual))"

record staking_manager =
  sm_validators :: "(string, validator) hash_map"
  sm_min_stake :: u64
  sm_unstaking_period :: u64
  sm_slash_percentage :: u8

definition staking_manager_new :: "u64 option \<Rightarrow> u64 option \<Rightarrow> u8 option \<Rightarrow> staking_manager" where
  "staking_manager_new min_stake period percentage =
     \<lparr>sm_validators = [], sm_min_stake = (case min_stake of Some x \<Rightarrow> x | None \<Rightarrow> 1000),
      sm_unstaking_period = (case period of Some x \<Rightarrow> x | None \<Rightarrow> 604800),
      sm_slash_percentage = (case percentage of Some x \<Rightarrow> x | None \<Rightarrow> 5)\<rparr>"

datatype staking_error =
    BelowMinimumStake u64 u64
  | NoWallet
  | UnstakePending
  | NotValidator
  | MoreThanStaked
  | NoUnstakePending
  | NoTimestamp
  | StillLocked u64

definition put_validator :: "staking_manager \<Rightarrow> string \<Rightarrow> validator \<Rightarrow> staking_manager" where
  "put_validator m a v = m\<lparr>sm_validators := hm_insert a v (sm_validators m)\<rparr>"

definition stake :: "u64 \<Rightarrow> staking_manager \<Rightarrow> string \<Rightarrow> u64 \<Rightarrow> bool \<Rightarrow> staking_manager \<times> (staking_error + unit)" where
  "stake now m address amount wallet_exists =
     (if amount < sm_min_stake m then (m, Inl (BelowMinimumStake (sm_min_stake m) amount))
      else if \<not> wallet_exists then (m, Inl NoWallet)
      else (case map_of (sm_validators m) address of
              Some v \<Rightarrow>
                if va_unstaking_requested v then (m, Inl UnstakePending)
                else (put_validator m address (v\<lparr>va_staked_amount := va_staked_amount v + amount\<rparr>), Inr ())
            | None \<Rightarrow> (put_validator m address (validator_new now address amount), Inr ())))"

definition request_unstake :: "u64 \<Rightarrow> staking_manager \<Rightarrow> string \<Rightarrow> u64 option \<Rightarrow> staking_manager \<times> (staking_error + u64)" where
  "request_unstake now m address amount =
     (case map_of (sm_validators m) address of
        None \<Rightarrow> (m, Inl NotValidator)
      | Some v \<Rightarrow>
          if va_unstaking_requested v then (m, Inl UnstakePending)
          else
            let unstake_amount = (case amount of Some x \<Rightarrow> x | None \<Rightarrow> va_staked_amount v) in
            if unstake_amount > va_staked_amount v then (m, Inl MoreThanStaked)
            else
              let v' = (if va_staked_amount v - unstake_amount < sm_min_stake m then v\<lparr>va_is_active := False\<rparr> else v) in
              (put_validator m address (v'\<lparr>va_unstaking_requested := True, va_unstaking_timestamp := Some now\<rparr>),
               Inr unstake_amount))"

text \<open>The amount withdrawn is the whole stake, so the other branch of the source is never taken.\<close>

definition complete_unstake :: "u64 \<Rightarrow> staking_manager \<Rightarrow> string \<Rightarrow> staking_manager \<times> (staking_error + u64)" where
  "complete_unstake now m address =
     (case map_of (sm_validators m) address of
        None \<Rightarrow> (m, Inl NotValidator)
      | Some v \<Rightarrow>
          if \<not> va_unstaking_requested v then (m, Inl NoUnstakePending)
          else (case va_unstaking_timestamp v of
                  None \<Rightarrow> (m, Inl NoTimestamp)
                | Some t \<Rightarrow>
                    if now < t + sm_unstaking_period m then (m, Inl (StillLocked ((t + sm_unstaking_period m) - now)))
                    else
                      let unstake_amount = va_staked_amount v in
                      (if unstake_amount \<ge> va_staked_amount v
                       then m\<lparr>sm_validators := hm_remove address (sm_validators m)\<rparr>
                       else put_validator m address (v\<lparr>va_staked_amount := va_staked_amount v - unstake_amount,
                              va_unstaking_requested := False, va_unstaking_timestamp := None\<rparr>),
                       Inr unstake_amount)))"

definition is_eligible :: "staking_manager \<Rightarrow> validator \<Rightarrow> bool" where
  "is_eligible m v \<longleftrightarrow> va_is_active v \<and> \<not> va_unstaking_requested v \<and> va_staked_amount v \<ge> sm_min_stake m"

definition get_active_validators :: "staking_manager \<Rightarrow> validator list" where
  "get_active_validators m = filter (is_eligible m) (map snd (sm_validators m))"

fun pick_validator :: "u64 \<Rightarrow> u64 \<Rightarrow> (string \<times> validator) list \<Rightarrow> string option" where
  "pick_validator random_stake cumulative [] = None"
| "pick_validator random_stake cumulative ((address, v) # vs) =
     (let cumulative' = cumulative + va_staked_amount v in
      if random_stake < cumulative' then Some address else pick_validator random_stake cumulative' vs)"

definition random_value :: "bytes \<Rightarrow> u64" where
  "random_value bs = foldl (\<lambda>r b. push_bit 8 r OR ucast b) 0 (take 8 bs)"

definition select_validator :: "(bytes \<Rightarrow> bytes) \<Rightarrow> staking_manager \<Rightarrow> string \<Rightarrow> string option" where
  "select_validator sha m block_hash =
     (let active = filter (\<lambda>(_, v). is_eligible m v) (sm_validators m);
          total_stake = sum_list (map (\<lambda>(_, v). va_staked_amount v) active) in
      if active = [] \<or> total_stake = 0 then None
      else
        let random_stake = random_value (sha (str_bytes block_hash)) mod total_stake in
        (case pick_validator random_stake 0 active of Some a \<Rightarrow> Some a | None \<Rightarrow> Some (fst (hd active))))"

definition get_validator :: "staking_manager \<Rightarrow> string \<Rightarrow> validator option" where
  "get_validator m a = map_of (sm_validators m) a"

definition load_validators :: "staking_manager \<Rightarrow> validator list \<Rightarrow> staking_manager" where
  "load_validators m vs = foldl (\<lambda>m v. put_validator m (va_address v) v) m vs"


definition detect_and_slash_double_sign :: "staking_manager \<Rightarrow> string \<Rightarrow> u64 \<Rightarrow> staking_manager \<times> bool" where
  "detect_and_slash_double_sign m address block_index =
     (case map_of (sm_validators m) address of
        None \<Rightarrow> (m, False)
      | Some v \<Rightarrow>
          if va_last_validated_block v = block_index then
            let slash_amount = va_staked_amount v * ucast (sm_slash_percentage m) div 100 in
            (put_validator m address (fst (slash v slash_amount)), True)
          else (m, False))"

section \<open>The weighted choice\<close>

interpretation validators: weighted_choice "\<lambda>e. va_staked_amount (snd e)" fst pick_validator
  by unfold_locales (auto simp: Let_def split: prod.splits)

lemma select_validator_None:
  "select_validator sha m bh = None \<longleftrightarrow>
     sum_list (map (\<lambda>(_, v). va_staked_amount v) (filter (\<lambda>(_, v). is_eligible m v) (sm_validators m))) = 0"
proof -
  obtain active where "active = filter (\<lambda>(_, v). is_eligible m v) (sm_validators m)" by simp
  then show ?thesis
    unfolding select_validator_def Let_def by (fold \<open>active = _\<close>) (cases active; simp split: option.split)
qed

lemma select_validator_Some:
  assumes "t = sum_list (map (\<lambda>(_, v). va_staked_amount v) active)" and "t \<noteq> 0"
    and "active = filter (\<lambda>(_, v). is_eligible m v) (sm_validators m)"
    and "pick_validator (random_value (sha (str_bytes bh)) mod t) 0 active = Some a"
  shows "select_validator sha m bh = Some a"
proof -
  have "active \<noteq> []" using assms(1,2) by auto
  then show ?thesis using assms(2,4) unfolding select_validator_def Let_def assms(3) [symmetric] assms(1) [symmetric] by simp
qed

text \<open>
  The choice of a validator is sound and proportional. Whatever the block hash, a chosen validator is
  active, not withdrawing and holds the minimum stake; a validator is chosen unless there is no such
  validator or their stake is zero; and of the positions below the total stake that the hash may select,
  every eligible validator owns exactly as many as it has stake.
\<close>

theorem validator_choice_proportional:
  assumes "hm_ok (sm_validators m)"
    and "(\<Sum>(a, v) \<leftarrow> filter (\<lambda>(_, v). is_eligible m v) (sm_validators m). unat (va_staked_amount v)) < 2 ^ 64"
  shows "(\<forall>a. select_validator sha m bh = Some a \<longrightarrow> (\<exists>v. get_validator m a = Some v \<and> is_eligible m v)) \<and>
    (select_validator sha m bh = None \<longleftrightarrow> (\<forall>v \<in> set (get_active_validators m). va_staked_amount v = 0)) \<and>
    (\<forall>a v. get_validator m a = Some v \<and> is_eligible m v \<longrightarrow>
       card {p \<in> {0..<(\<Sum>(a, v) \<leftarrow> filter (\<lambda>(_, v). is_eligible m v) (sm_validators m). unat (va_staked_amount v))}.
         pick_validator (of_nat p) 0 (filter (\<lambda>(_, v). is_eligible m v) (sm_validators m)) = Some a} = unat (va_staked_amount v))"
proof -
  let ?act = "filter (\<lambda>(_, v). is_eligible m v) (sm_validators m)"
  let ?T = "validators.stake_sum ?act"
  have T: "?T < 2 ^ 64" using assms(2) by (simp add: case_prod_unfold)
  have total: "unat (sum_list (map (\<lambda>(_, v). va_staked_amount v) ?act)) = ?T"
    using validators.total_stake [OF T] by (simp add: case_prod_unfold)
  have dist: "distinct (map fst ?act)" using assms(1) by (simp add: hm_ok_def distinct_map_filter)
  have mem: "(a, v) \<in> set ?act \<longleftrightarrow> get_validator m a = Some v \<and> is_eligible m v" for a v
    using hm_entry_iff [OF assms(1), of a v] by (auto simp: get_validator_def)
  have zero: "sum_list (map (\<lambda>(_, v). va_staked_amount v) ?act) = 0 \<longleftrightarrow> (\<forall>e \<in> set ?act. va_staked_amount (snd e) = 0)"
    using total by (subst unat_eq_zero [symmetric]) (simp add: unat_eq_zero)
  have act: "set (get_active_validators m) = snd ` set ?act" by (force simp: get_active_validators_def)
  have "select_validator sha m bh = None \<longleftrightarrow> sum_list (map (\<lambda>(_, v). va_staked_amount v) ?act) = 0"
    by (rule select_validator_None)
  then have none: "select_validator sha m bh = None \<longleftrightarrow> (\<forall>v \<in> set (get_active_validators m). va_staked_amount v = 0)"
    unfolding zero act by simp
  have some: "\<exists>v. get_validator m a = Some v \<and> is_eligible m v" if "select_validator sha m bh = Some a" for a
  proof -
    let ?p = "random_value (sha (str_bytes bh)) mod sum_list (map (\<lambda>(_, v). va_staked_amount v) ?act)"
    have ne: "sum_list (map (\<lambda>(_, v). va_staked_amount v) ?act) \<noteq> 0"
      using that by (simp only: select_validator_None [of sha m bh, symmetric]) simp
    then have "unat (sum_list (map (\<lambda>(_, v). va_staked_amount v) ?act)) \<noteq> 0" by (simp only: unat_eq_zero simp_thms)
    then have "unat ?p < ?T" unfolding unat_mod total [symmetric] by (rule mod_less_divisor [OF neq0_conv [THEN iffD1]])
    then obtain e where e: "e \<in> set ?act" "pick_validator ?p 0 ?act = Some (fst e)"
      using validators.pick_found [of 0 ?act "unat ?p"] T by auto
    then have "a = fst e" using select_validator_Some [OF refl ne refl] that by force
    then show ?thesis using e(1) mem [of "fst e" "snd e"] by auto
  qed
  have share: "card {p \<in> {0..<?T}. pick_validator (of_nat p) 0 ?act = Some a} = unat (va_staked_amount v)"
    if "get_validator m a = Some v" "is_eligible m v" for a v
    using validators.pick_share [OF T dist mem [THEN iffD2, OF conjI [OF that]]] by simp
  show ?thesis using some none share by (simp add: case_prod_unfold)
qed


definition demo_staking :: staking_manager where
  "demo_staking = fst (stake 1 (fst (stake 0 (staking_manager_new None None None) ''a'' 1000 True)) ''b'' 3000 True)"

lemma demo_staking_validators:
  "sm_validators demo_staking = [(''a'', validator_new 0 ''a'' 1000), (''b'', validator_new 1 ''b'' 3000)]"
  "sm_min_stake demo_staking = 1000"
  by (simp_all add: demo_staking_def stake_def staking_manager_new_def put_validator_def hm_insert_def)

theorem validator_choice_proportional_witness:
  "card {p \<in> {0..<4000}. pick_validator (of_nat p) 0 (sm_validators demo_staking) = Some ''b''} = 3000"
proof -
  have all: "filter (\<lambda>(_, v). is_eligible demo_staking v) (sm_validators demo_staking) = sm_validators demo_staking"
    by (simp add: demo_staking_validators is_eligible_def validator_new_def)
  have v: "get_validator demo_staking ''b'' = Some (validator_new 1 ''b'' 3000)" "is_eligible demo_staking (validator_new 1 ''b'' 3000)"
    by (simp_all add: demo_staking_validators get_validator_def is_eligible_def validator_new_def)
  have sum: "(\<Sum>(a, v) \<leftarrow> sm_validators demo_staking. unat (va_staked_amount v)) = 4000"
    by (simp add: demo_staking_validators validator_new_def)
  have "hm_ok (sm_validators demo_staking)" by (simp add: demo_staking_validators hm_ok_def)
  from validator_choice_proportional [OF this, unfolded all sum] v show ?thesis by (simp add: validator_new_def)
qed

section \<open>Where the stake goes\<close>











lemma hm_ok_put [simp]: "hm_ok (sm_validators m) \<Longrightarrow> hm_ok (sm_validators (put_validator m a v))"
  by (simp add: put_validator_def)










text \<open>
  A withdrawal of part of the stake pays out all of it: whatever amount was requested, completing the
  withdrawal after the unstaking period removes the validator and pays the entire stake.
\<close>

theorem partial_unstake_pays_all:
  assumes "request_unstake t m a (Some x) = (m', Inr y)" and "t + sm_unstaking_period m \<le> now"
  shows "y = x \<and> (\<exists>v. get_validator m a = Some v \<and> snd (complete_unstake now m' a) = Inr (va_staked_amount v) \<and>
           get_validator (fst (complete_unstake now m' a)) a = None)"
  using assms
  by (auto simp: request_unstake_def complete_unstake_def get_validator_def put_validator_def Let_def not_less
      split: option.splits if_splits)

theorem partial_unstake_pays_all_witness:
  "snd (complete_unstake 604800 (fst (request_unstake 0 demo_staking ''b'' (Some 1))) ''b'') = Inr 3000"
proof -
  have p: "sm_unstaking_period demo_staking = 604800"
    by (simp add: demo_staking_def stake_def staking_manager_new_def put_validator_def hm_insert_def)
  have "snd (request_unstake 0 demo_staking ''b'' (Some 1)) = Inr 1"
    by (simp add: request_unstake_def demo_staking_validators validator_new_def Let_def)
  then have "request_unstake 0 demo_staking ''b'' (Some 1) = (fst (request_unstake 0 demo_staking ''b'' (Some 1)), Inr 1)"
    by (metis prod.collapse)
  from partial_unstake_pays_all [OF this, of 604800] p show ?thesis
    by (auto simp: get_validator_def demo_staking_validators validator_new_def)
qed

text \<open>
  A validator that never signed anything is slashed for double signing at height 0: registering stores
  0 as its last validated block, and the check compares only the heights.
\<close>

theorem fresh_validator_slashed:
  assumes "stake now m a x True = (m', Inr ())" and "get_validator m a = None"
  shows "snd (detect_and_slash_double_sign m' a 0) \<and>
    get_validator (fst (detect_and_slash_double_sign m' a 0)) a =
      Some (fst (slash (validator_new now a x) (x * ucast (sm_slash_percentage m) div 100)))"
  using assms
  by (auto simp: stake_def detect_and_slash_double_sign_def get_validator_def put_validator_def validator_new_def
      split: if_splits)

theorem fresh_validator_slashed_witness:
  "snd (detect_and_slash_double_sign (fst (stake 7 (staking_manager_new None None None) ''a'' 1000 True)) ''a'' 0)"
proof -
  have "stake 7 (staking_manager_new None None None) ''a'' 1000 True =
      (fst (stake 7 (staking_manager_new None None None) ''a'' 1000 True), Inr ())"
    by (simp add: stake_def staking_manager_new_def)
  from fresh_validator_slashed [OF this] show ?thesis by (simp add: get_validator_def staking_manager_new_def)
qed

end
