(* ===== verification/Light_Client.thy ===== *)
theory Light_Client
  imports Bft_Quorum Merkle
begin

text \<open>
  The light client (\<open>src/light_client/header.rs\<close> and \<open>client.rs\<close>): block headers, the chain of verified
  headers, the check of commit certificates on synced headers and the verification of state proofs.
  It relies on the quorum validator of \<open>Bft_Quorum\<close> and the Merkle verifier of \<open>Merkle\<close>. SHA-256 is the
  parameter \<open>sha\<close>; a client owns no other code of the node.
\<close>

section \<open>Headers\<close>

record block_header =
  lh_height :: u64
  lh_hash :: hash32
  lh_parent_hash :: hash32
  lh_tx_merkle_root :: hash32
  lh_state_root :: hash32
  lh_timestamp :: u64
  lh_proposer :: string
  lh_tx_count :: "32 word"
  lh_commit_qc :: "quorum_certificate option"

definition header_bytes :: "block_header \<Rightarrow> bytes" where
  "header_bytes h =
     to_le_bytes (lh_height h) @ hash_bytes (lh_parent_hash h) @ hash_bytes (lh_tx_merkle_root h) @
     hash_bytes (lh_state_root h) @ to_le_bytes (lh_timestamp h) @ str_bytes (lh_proposer h)"

abbreviation compute_hash :: "sha256_fn \<Rightarrow> block_header \<Rightarrow> hash32" where
  "compute_hash sha h \<equiv> sha (header_bytes h)"

definition verify_hash :: "sha256_fn \<Rightarrow> block_header \<Rightarrow> bool" where
  "verify_hash sha h \<longleftrightarrow> lh_hash h = compute_hash sha h"

definition verify_parent :: "block_header \<Rightarrow> block_header \<Rightarrow> bool" where
  "verify_parent h parent \<longleftrightarrow> lh_parent_hash h = lh_hash parent \<and> lh_height h = lh_height parent + 1"

datatype header_error =
    InvalidHash u64
  | InvalidParent u64
  | InvalidGenesis

definition header_append :: "sha256_fn \<Rightarrow> block_header list \<Rightarrow> block_header \<Rightarrow> header_error + block_header list" where
  "header_append sha headers h =
     (if \<not> verify_hash sha h then Inl (InvalidHash (lh_height h))
      else if headers \<noteq> [] \<and> \<not> verify_parent h (last headers) then Inl (InvalidParent (lh_height h))
      else if headers = [] \<and> lh_height h \<noteq> 0 then Inl InvalidGenesis
      else Inr (headers @ [h]))"

definition header_get :: "block_header list \<Rightarrow> u64 \<Rightarrow> block_header option" where
  "header_get headers height = (if unat height < length headers then Some (headers ! unat height) else None)"

section \<open>The client\<close>

record state_proof =
  sp_key :: string
  sp_value :: bytes
  sp_exists :: bool
  sp_height :: u64
  sp_proof :: inclusion_proof

datatype light_client_error =
    HeaderError header_error
  | HeightNotFound u64
  | ProofRootMismatch u64
  | ProofFailed string
  | WrongPhase bft_phase
  | WrongBlock
  | BftFailed qc_error
  | MissingQc u64

record light_client =
  lc_chain :: "block_header list"
  lc_quorum_validator :: "quorum_validator option"

abbreviation light_client_new :: light_client where
  "light_client_new \<equiv> \<lparr>lc_chain = [], lc_quorum_validator = None\<rparr>"

definition client_with_bft :: "string list \<Rightarrow> verifier \<Rightarrow> light_client" where
  "client_with_bft validators ver = \<lparr>lc_chain = [], lc_quorum_validator = Some (quorum_validator_new validators ver)\<rparr>"

definition check_commit_qc :: "quorum_validator option \<Rightarrow> block_header \<Rightarrow> light_client_error + unit" where
  "check_commit_qc validator h =
     (if lh_height h > 0 then
        (case validator of
           None \<Rightarrow> Inr ()
         | Some qv \<Rightarrow>
             (case lh_commit_qc h of
                None \<Rightarrow> Inl (MissingQc (lh_height h))
              | Some qc \<Rightarrow>
                  if qc_phase qc \<noteq> Commit then Inl (WrongPhase (qc_phase qc))
                  else if qc_block_hash qc \<noteq> lh_hash h then Inl WrongBlock
                  else (case validate_qc qv qc of Inl e \<Rightarrow> Inl (BftFailed e) | Inr _ \<Rightarrow> Inr ())))
      else Inr ())"

definition sync_header :: "sha256_fn \<Rightarrow> light_client \<Rightarrow> block_header \<Rightarrow> light_client \<times> (light_client_error + unit)" where
  "sync_header sha c h =
     (case check_commit_qc (lc_quorum_validator c) h of
        Inl e \<Rightarrow> (c, Inl e)
      | Inr _ \<Rightarrow>
          (case header_append sha (lc_chain c) h of
             Inl e \<Rightarrow> (c, Inl (HeaderError e))
           | Inr chain \<Rightarrow> (c\<lparr>lc_chain := chain\<rparr>, Inr ())))"

definition verify_state_proof :: "sha256_fn \<Rightarrow> light_client \<Rightarrow> state_proof \<Rightarrow> light_client_error + bool" where
  "verify_state_proof sha c proof =
     (case header_get (lc_chain c) (sp_height proof) of
        None \<Rightarrow> Inl (HeightNotFound (sp_height proof))
      | Some h \<Rightarrow>
          if ip_root (sp_proof proof) \<noteq> lh_state_root h then Inl (ProofRootMismatch (sp_height proof))
          else
            let leaf_data = (if sp_exists proof then str_bytes (sp_key proof) @ sp_value proof else str_bytes (sp_key proof)) in
            if \<not> verify_merkle_proof sha leaf_data (sp_proof proof) then Inl (ProofFailed (sp_key proof))
            else Inr (sp_exists proof))"

text \<open>The clients that syncing headers produces; a rejected header changes nothing.\<close>

inductive client_reach :: "sha256_fn \<Rightarrow> quorum_validator option \<Rightarrow> light_client \<Rightarrow> bool" for sha where
  plain: "client_reach sha None light_client_new"
| bft: "client_reach sha (lc_quorum_validator (client_with_bft vs ver)) (client_with_bft vs ver)"
| sync: "client_reach sha q c \<Longrightarrow> client_reach sha q (fst (sync_header sha c h))"

section \<open>The header chain\<close>

definition chain_ok :: "sha256_fn \<Rightarrow> block_header list \<Rightarrow> bool" where
  "chain_ok sha hs \<longleftrightarrow> (\<forall>i < length hs. lh_hash (hs ! i) = compute_hash sha (hs ! i) \<and> lh_height (hs ! i) = of_nat i \<and>
     (\<forall>j. i = Suc j \<longrightarrow> lh_parent_hash (hs ! i) = lh_hash (hs ! j)))"

definition certified :: "quorum_validator option \<Rightarrow> block_header \<Rightarrow> bool" where
  "certified q h \<longleftrightarrow> (\<forall>qv. q = Some qv \<and> lh_height h > 0 \<longrightarrow>
     (\<exists>qc. lh_commit_qc h = Some qc \<and> qc_phase qc = Commit \<and> qc_block_hash qc = lh_hash h \<and> validate_qc qv qc = Inr ()))"

lemma check_commit_qc_ok: "check_commit_qc q h = Inr u \<longleftrightarrow> certified q h"
  by (auto simp: check_commit_qc_def certified_def split: option.splits sum.splits)

lemma header_append_ok:
  "header_append sha hs h = Inr hs' \<longleftrightarrow>
     hs' = hs @ [h] \<and> verify_hash sha h \<and> (if hs = [] then lh_height h = 0 else verify_parent h (last hs))"
  by (auto simp: header_append_def)

lemma chain_ok_append:
  assumes "chain_ok sha hs" and "header_append sha hs h = Inr hs'"
  shows "chain_ok sha hs'"
proof -
  have h: "hs' = hs @ [h]" "verify_hash sha h" "if hs = [] then lh_height h = 0 else verify_parent h (last hs)"
    using assms(2) by (simp_all add: header_append_ok)
  have new: "lh_height h = of_nat (length hs) \<and> (\<forall>j. length hs = Suc j \<longrightarrow> lh_parent_hash h = lh_hash (hs ! j))"
  proof (cases hs rule: rev_cases)
    case (snoc ys y)
    have "lh_height y = of_nat (length ys)"
      using assms(1) [unfolded chain_ok_def, rule_format, of "length ys"] snoc by (simp add: nth_append)
    then show ?thesis using h(3) snoc by (simp add: verify_parent_def nth_append)
  qed (use h(3) in simp)
  show ?thesis
    using assms(1) h(1,2) new by (auto simp: chain_ok_def verify_hash_def nth_append less_Suc_eq)
qed

lemma sync_header_cases:
  obtains "fst (sync_header sha c h) = c"
  | "header_append sha (lc_chain c) h = Inr (lc_chain c @ [h])" "certified (lc_quorum_validator c) h"
    "fst (sync_header sha c h) = c\<lparr>lc_chain := lc_chain c @ [h]\<rparr>"
proof (cases "check_commit_qc (lc_quorum_validator c) h")
  case (Inl e)
  then show ?thesis using that(1) by (simp add: sync_header_def)
next
  case (Inr u)
  then show ?thesis
    using that check_commit_qc_ok [of _ h u] header_append_ok [of sha "lc_chain c" h]
    by (cases "header_append sha (lc_chain c) h") (auto simp: sync_header_def)
qed

lemma client_reach_ok:
  assumes "client_reach sha q c"
  shows "lc_quorum_validator c = q \<and> (\<forall>qv. q = Some qv \<longrightarrow> qv_ok qv) \<and> chain_ok sha (lc_chain c) \<and> (\<forall>h \<in> set (lc_chain c). certified q h)"
  using assms
proof induction
  case (sync q c h)
  show ?case
    by (rule sync_header_cases [of sha c h]) (use sync.IH chain_ok_append [of sha "lc_chain c" h] in auto)
qed (auto simp: chain_ok_def client_with_bft_def)

text \<open>What the hash of a header covers: everything but the transaction count and the certificate.\<close>

definition header_core :: "block_header \<Rightarrow> block_header" where
  "header_core h = h\<lparr>lh_tx_count := 0, lh_commit_qc := None\<rparr>"

lemma header_core_eq: "header_core h = header_core h' \<longleftrightarrow> header_bytes h = header_bytes h' \<and> lh_hash h = lh_hash h'"
  by (cases h; cases h') (auto simp: header_core_def header_bytes_def)

lemma chain_binding:
  assumes ok: "chain_ok sha hs" "chain_ok sha hs'" and inj: "inj_on sha (header_bytes ` (set hs \<union> set hs'))"
    and small: "length hs \<le> 2 ^ 64" "length hs' \<le> 2 ^ 64" and ne: "hs \<noteq> []" "hs' \<noteq> []"
    and tip: "lh_hash (last hs) = lh_hash (last hs')"
  shows "map header_core hs = map header_core hs'"
proof -
  have bytes: "header_bytes (hs ! i) = header_bytes (hs' ! j)"
    if "i < length hs" "j < length hs'" "lh_hash (hs ! i) = lh_hash (hs' ! j)" for i j
    using that ok by (intro inj_onD [OF inj]) (auto simp: chain_ok_def)
  have len: "length hs = length hs'"
  proof -
    have "header_bytes (hs ! (length hs - 1)) = header_bytes (hs' ! (length hs' - 1))"
      using bytes ne tip by (simp add: last_conv_nth)
    then have "lh_height (hs ! (length hs - 1)) = lh_height (hs' ! (length hs' - 1))" by (simp add: header_bytes_def)
    then have "(of_nat (length hs - 1) :: u64) = of_nat (length hs' - 1)"
      using ok ne unfolding chain_ok_def by (metis diff_less length_greater_0_conv zero_less_one)
    moreover have "unat (of_nat n :: u64) = n" if "n < 2 ^ 64" for n using that by (intro unat_of_nat_lt) simp
    moreover have "length hs - 1 < 2 ^ 64" "length hs' - 1 < 2 ^ 64" "0 < length hs" "0 < length hs'" using small ne by auto
    ultimately have "length hs - 1 = length hs' - 1" by metis
    then show ?thesis using \<open>0 < length hs\<close> \<open>0 < length hs'\<close> by linarith
  qed
  have below: "d < length hs \<Longrightarrow> lh_hash (hs ! (length hs - 1 - d)) = lh_hash (hs' ! (length hs - 1 - d))" for d
  proof (induction d)
    case 0
    then show ?case using tip ne len by (simp add: last_conv_nth)
  next
    case (Suc d)
    let ?i = "length hs - 1 - Suc d"
    have i: "length hs - 1 - d = Suc ?i" "Suc ?i < length hs" using Suc.prems by auto
    have "header_bytes (hs ! Suc ?i) = header_bytes (hs' ! Suc ?i)" using Suc i len by (intro bytes) auto
    then have "lh_parent_hash (hs ! Suc ?i) = lh_parent_hash (hs' ! Suc ?i)" by (simp add: header_bytes_def)
    then show ?case using ok i(2) len unfolding chain_ok_def by metis
  qed
  show ?thesis
  proof (rule nth_equalityI)
    fix i
    assume "i < length (map header_core hs)"
    then have i: "i < length hs" by simp
    then have hash: "lh_hash (hs ! i) = lh_hash (hs' ! i)" using below [of "length hs - 1 - i"] by simp
    then show "map header_core hs ! i = map header_core hs' ! i"
      using i len bytes by (simp add: header_core_eq)
  qed (simp add: len)
qed

text \<open>
  After any sequence of synced headers the client holds a hash chain from height 0: the header at
  position \<open>i\<close> has height \<open>i\<close>, its hash is the hash of its contents, it names the hash of the header before
  it, and with BFT verification every header above height 0 carries an accepted commit certificate for
  its hash.
\<close>

theorem light_chain_invariant:
  assumes "client_reach sha q c" and "header_get (lc_chain c) n = Some h"
  shows "lh_height h = n \<and> lh_hash h = compute_hash sha h \<and>
    (\<forall>p. 0 < n \<and> header_get (lc_chain c) (n - 1) = Some p \<longrightarrow> lh_parent_hash h = lh_hash p) \<and>
    (0 < n \<longrightarrow> header_get (lc_chain c) (n - 1) \<noteq> None) \<and>
    (\<forall>qv. q = Some qv \<and> 0 < n \<longrightarrow> (\<exists>qc. lh_commit_qc h = Some qc \<and> qc_phase qc = Commit \<and>
       qc_block_hash qc = lh_hash h \<and> validate_qc qv qc = Inr ()))"
proof -
  have h: "unat n < length (lc_chain c)" "h = lc_chain c ! unat n"
    using assms(2) by (simp_all add: header_get_def split: if_splits)
  note ok = client_reach_ok [OF assms(1)]
  have height: "lh_height h = n" using ok h by (simp add: chain_ok_def)
  have prev: "unat n = Suc (unat (n - 1))" if "0 < n"
  proof -
    have "0 < unat n" using that by (simp add: unat_gt_0)
    moreover have "unat (n - 1) = unat n - 1" using that by (intro unat_minus_one) auto
    ultimately show ?thesis by linarith
  qed
  have cert: "certified q h" using ok h nth_mem by blast
  have parent: "lh_parent_hash h = lh_hash (lc_chain c ! unat (n - 1))" "unat (n - 1) < length (lc_chain c)" if "0 < n"
    using ok h prev [OF that] unfolding chain_ok_def by (metis, linarith)
  have hash: "lh_hash h = compute_hash sha h" using ok h unfolding chain_ok_def by blast
  show ?thesis
    using parent hash height cert by (simp add: header_get_def certified_def)
qed

text \<open>
  C3: light clients agree: take two clients with BFT verification over the same \<open>3 f + 1\<close> validators, at
  most \<open>f\<close> of them faulty, whose tips carry well-formed commit certificates of the same round. Then
  the clients hold the same chain, header by header, up to the transaction counts and certificates
  that no hash covers, unless SHA-256 collides on two of their headers.
\<close>

theorem light_clients_agree:
  fixes voted :: "string \<Rightarrow> (bft_phase \<times> hash32 \<times> u64) set"
  assumes reach: "client_reach sha (Some qv) c" "client_reach sha (Some qv) c'"
    and n: "total_validators qv mod 3 = 1" and "finite faulty" and "card faulty \<le> max_faulty qv"
    and unforgeable: "\<And>v payload sig. v \<notin> faulty \<Longrightarrow> qv_verifier qv v payload sig \<Longrightarrow>
      \<exists>p h r. (p, h, r) \<in> voted v \<and> payload = signing_payload p h r"
    and no_equivocation: "\<And>v p r h h'. v \<notin> faulty \<Longrightarrow> (p, h, r) \<in> voted v \<Longrightarrow> (p, h', r) \<in> voted v \<Longrightarrow> h = h'"
    and tips: "lc_chain c = hs @ [h]" "lc_chain c' = hs' @ [h']" "0 < lh_height h" "0 < lh_height h'"
    and certs: "lh_commit_qc h = Some qc" "lh_commit_qc h' = Some qc'" "qc_round qc = qc_round qc'"
    and made: "quorum_certificate_new (qc_phase qc) (qc_block_hash qc) (qc_round qc) (qc_votes qc) = Inr qc"
      "quorum_certificate_new (qc_phase qc') (qc_block_hash qc') (qc_round qc') (qc_votes qc') = Inr qc'"
    and inj: "inj_on sha (header_bytes ` (set (lc_chain c) \<union> set (lc_chain c')))"
    and small: "length (lc_chain c) \<le> 2 ^ 64" "length (lc_chain c') \<le> 2 ^ 64"
  shows "map header_core (lc_chain c) = map header_core (lc_chain c')"
proof -
  note ok = client_reach_ok [OF reach(1)] client_reach_ok [OF reach(2)]
  have qc: "qc_phase qc = Commit" "qc_block_hash qc = lh_hash h" "validate_qc qv qc = Inr ()"
    using ok(1) tips(1,3) certs(1) by (auto simp: certified_def)
  have qc': "qc_phase qc' = Commit" "qc_block_hash qc' = lh_hash h'" "validate_qc qv qc' = Inr ()"
    using ok(2) tips(2,4) certs(2) by (auto simp: certified_def)
  have "qv_ok qv" using ok(1) by simp
  from accepted_certificates_agree [OF this n assms(4,5) unforgeable no_equivocation
      made(1) [unfolded qc(1,2)] qc(3) made(2) [unfolded qc'(1,2) certs(3) [symmetric]] qc'(3)]
  have "lh_hash h = lh_hash h'" by simp
  then show ?thesis using chain_binding [OF _ _ inj small] ok tips(1,2) by simp
qed

section \<open>State proofs\<close>

text \<open>
  C27: a light client accepts what a full node proves: if the state root of a synced header is the root of
  the tree over the entries of the state, each hashed as its key followed by its value, then the proof
  that the tree builder returns for an entry is accepted as a proof that it exists.
\<close>

theorem node_proofs_accepted:
  assumes "header_get (lc_chain c) n = Some h" and "entries \<noteq> []" and "length entries < 2 ^ 64"
    and "build_merkle_tree sha (map (\<lambda>(k, v). str_bytes k @ v) entries) = Some (Some (lh_state_root h), proofs)"
    and "i < length entries" and "entries ! i = (k, v)"
  shows "verify_state_proof sha c \<lparr>sp_key = k, sp_value = v, sp_exists = True, sp_height = n, sp_proof = proofs ! i\<rparr> = Inr True"
proof -
  let ?ls = "map (\<lambda>(k, v). str_bytes k @ v) entries"
  have "?ls \<noteq> []" "length ?ls < 2 ^ 64" using assms(2,3) by simp_all
  from merkle_proofs_verify [OF this, of sha] assms(4-6)
  have "ip_root (proofs ! i) = lh_state_root h" "verify_merkle_proof sha (str_bytes k @ v) (proofs ! i)" by auto
  then show ?thesis using assms(1) by (simp add: verify_state_proof_def)
qed

text \<open>
  An accepted state proof does not determine the entry: it is accepted as well for every other split of
  the same bytes into key and value, and where the value is empty also as a proof that the key does not
  exist.
\<close>

theorem state_proof_ambiguous:
  assumes "verify_state_proof sha c p = Inr True" and "str_bytes k @ v = str_bytes (sp_key p) @ sp_value p"
  shows "verify_state_proof sha c (p\<lparr>sp_key := k, sp_value := v\<rparr>) = Inr True \<and>
    verify_state_proof sha c (p\<lparr>sp_key := k, sp_value := v, sp_exists := False\<rparr>) = (if v = [] then Inr False else
      verify_state_proof sha c (p\<lparr>sp_key := k, sp_value := [], sp_exists := False\<rparr>))"
  using assms by (auto simp: verify_state_proof_def Let_def split: option.splits if_splits)

section \<open>Replayed votes\<close>

text \<open>
  The votes of any certificate vouch for any header: validation checks each vote against the vote's own
  block, so with the votes of one accepted certificate a client accepts every well-hashed successor of
  its tip, although nobody voted for it.
\<close>

theorem client_accepts_replayed_votes:
  assumes "lc_quorum_validator c = Some qv" and "validate_qc qv qc = Inr ()"
    and "lc_chain c \<noteq> []" and "verify_parent h (last (lc_chain c))" and "verify_hash sha h"
  shows "snd (sync_header sha c (h\<lparr>lh_commit_qc := Some \<lparr>qc_block_hash = lh_hash h, qc_round = qc_round qc,
    qc_phase = Commit, qc_votes = qc_votes qc\<rparr>\<rparr>)) = Inr ()"
proof -
  let ?qc = "\<lparr>qc_block_hash = lh_hash h, qc_round = qc_round qc, qc_phase = Commit, qc_votes = qc_votes qc\<rparr>"
  have "validate_qc qv ?qc = Inr ()" using assms(2) by (simp add: validate_qc_ok)
  moreover have "header_bytes (h\<lparr>lh_commit_qc := Some ?qc\<rparr>) = header_bytes h" by (simp add: header_bytes_def)
  ultimately show ?thesis
    using assms by (simp add: sync_header_def check_commit_qc_def header_append_def verify_hash_def verify_parent_def)
qed


section \<open>An example\<close>

definition client_verifier :: verifier where
  "client_verifier v payload sig = (sig = payload \<and> sig = signing_payload Commit 113 1)"

definition header0 :: block_header where
  "header0 = \<lparr>lh_height = 0, lh_hash = 112, lh_parent_hash = 0, lh_tx_merkle_root = 0, lh_state_root = 3,
     lh_timestamp = 0, lh_proposer = [], lh_tx_count = 0, lh_commit_qc = None\<rparr>"

definition commit1 :: quorum_certificate where
  "commit1 = \<lparr>qc_block_hash = 113, qc_round = 1, qc_phase = Commit,
     qc_votes = map (demo_vote Commit 113 1) [''v0'', ''v1'', ''v2'']\<rparr>"

definition header1 :: block_header where
  "header1 = \<lparr>lh_height = 1, lh_hash = 113, lh_parent_hash = 112, lh_tx_merkle_root = 0, lh_state_root = 0,
     lh_timestamp = 0, lh_proposer = ''p'', lh_tx_count = 0, lh_commit_qc = Some commit1\<rparr>"

abbreviation client_validator :: quorum_validator where
  "client_validator \<equiv> quorum_validator_new demo_validators client_verifier"

definition demo_client :: light_client where
  "demo_client = fst (sync_header demo_sha (fst (sync_header demo_sha (client_with_bft demo_validators client_verifier) header0)) header1)"

lemma header_hashes: "demo_sha (header_bytes header0) = 112" "demo_sha (header_bytes header1) = 113"
  by (simp_all add: demo_sha_def header_bytes_def header0_def header1_def)

lemma commit1_valid: "validate_qc client_validator commit1 = Inr ()"
  by (simp add: validate_qc_ok commit1_def demo_vote_def vote_ok_def quorum_validator_new_def demo_validators_def
      client_verifier_def vote_payload_def quorum_threshold_def max_faulty_def Let_def)

lemma demo_client: "demo_client = \<lparr>lc_chain = [header0, header1], lc_quorum_validator = Some client_validator\<rparr>"
proof -
  have "verify_hash demo_sha header0" "verify_hash demo_sha header1"
    unfolding verify_hash_def header_hashes by (simp_all add: header0_def header1_def)
  moreover have "verify_parent header1 header0" by (simp add: verify_parent_def header0_def header1_def)
  moreover have "check_commit_qc q header0 = Inr ()" "check_commit_qc (Some client_validator) header1 = Inr ()" for q
    using commit1_valid by (simp_all add: check_commit_qc_def header0_def header1_def commit1_def)
  moreover have "lh_height header0 = 0" by (simp add: header0_def)
  ultimately show ?thesis
    by (simp add: demo_client_def sync_header_def header_append_def client_with_bft_def)
qed

lemma demo_client_reach: "client_reach demo_sha (Some client_validator) demo_client"
  using client_reach.sync [OF client_reach.sync [OF client_reach.bft]]
  by (simp add: demo_client_def client_with_bft_def)

theorem light_chain_invariant_witness: "lh_parent_hash header1 = lh_hash header0 \<and> validate_qc client_validator commit1 = Inr ()"
proof -
  have "header_get (lc_chain demo_client) 1 = Some header1" "header_get (lc_chain demo_client) (1 - 1) = Some header0"
    by (simp_all add: header_get_def demo_client)
  from light_chain_invariant [OF demo_client_reach this(1)] this(2) show ?thesis by (simp add: header1_def commit1_valid)
qed

theorem light_clients_agree_witness:
  "lc_chain demo_client = [header0, header1] \<and> map header_core (lc_chain demo_client) = map header_core [header0, header1]"
proof -
  have inj: "inj_on demo_sha (header_bytes ` (set (lc_chain demo_client) \<union> set (lc_chain demo_client)))"
    by (auto simp: demo_client inj_on_def header_hashes)
  have tip: "lc_chain demo_client = [header0] @ [header1]" by (simp add: demo_client)
  have made: "quorum_certificate_new (qc_phase commit1) (qc_block_hash commit1) (qc_round commit1) (qc_votes commit1) = Inr commit1"
    by (simp add: quorum_certificate_new_ok commit1_def demo_vote_def)
  have qc: "lh_commit_qc header1 = Some commit1" "0 < lh_height header1" by (simp_all add: header1_def)
  have n: "total_validators client_validator mod 3 = 1"
    by (simp add: total_validators_def quorum_validator_new_def demo_validators_def)
  have "map header_core (lc_chain demo_client) = map header_core (lc_chain demo_client)"
    by (rule light_clients_agree [where faulty = "{}" and voted = "\<lambda>_. {(Commit, 113, 1)}",
          OF demo_client_reach demo_client_reach n _ _ _ _ tip tip qc(2) qc(2) qc(1) qc(1) refl made made inj])
      (auto simp: quorum_validator_new_def client_verifier_def demo_client)
  then show ?thesis by (simp add: demo_client)
qed

theorem node_proofs_accepted_witness:
  "\<exists>p. verify_state_proof demo_sha demo_client
     \<lparr>sp_key = ''k'', sp_value = [1, 2], sp_exists = True, sp_height = 0, sp_proof = p\<rparr> = Inr True"
proof -
  have "header_get (lc_chain demo_client) 0 = Some header0" by (simp add: header_get_def demo_client)
  moreover have "build_merkle_tree demo_sha (map (\<lambda>(k, v). str_bytes k @ v) [(''k'', [1, 2])]) =
      Some (Some (lh_state_root header0), snd (the (build_merkle_tree demo_sha (map (\<lambda>(k, v). str_bytes k @ v) [(''k'', [1, 2])]))))"
    by (simp add: build_merkle_tree_def padded_leaves_def next_power_of_two_def pow2_from.simps build_layers.simps
        demo_sha_def str_bytes_def header0_def Let_def)
  ultimately show ?thesis
    using node_proofs_accepted [of demo_client 0 header0 "[(''k'', [1, 2])]" demo_sha _ 0 "''k''" "[1, 2]"] by auto
qed

theorem state_proof_ambiguous_witness:
  "let p = \<lparr>sp_key = ''key'', sp_value = [], sp_exists = True, sp_height = 0,
       sp_proof = \<lparr>ip_merkle_path = [], ip_leaf_index = 0, ip_root = 3, ip_block_hash = 0, ip_block_height = 0\<rparr>\<rparr> in
   verify_state_proof demo_sha demo_client p = Inr True \<and>
   verify_state_proof demo_sha demo_client (p\<lparr>sp_exists := False\<rparr>) = Inr False"
proof -
  let ?p = "\<lparr>sp_key = ''key'', sp_value = [], sp_exists = True, sp_height = 0,
    sp_proof = \<lparr>ip_merkle_path = [], ip_leaf_index = 0, ip_root = 3, ip_block_hash = 0, ip_block_height = 0\<rparr>\<rparr>"
  have "verify_state_proof demo_sha demo_client ?p = Inr True"
    by (simp add: verify_state_proof_def demo_client header_get_def header0_def verify_merkle_proof_def demo_sha_def)
  with state_proof_ambiguous [OF this, of "''key''" "[]"] show ?thesis by simp
qed

theorem client_accepts_replayed_votes_witness:
  "snd (sync_header demo_sha demo_client
     \<lparr>lh_height = 2, lh_hash = 114, lh_parent_hash = 113, lh_tx_merkle_root = 0, lh_state_root = 0, lh_timestamp = 0,
      lh_proposer = ''zz'', lh_tx_count = 0, lh_commit_qc = Some (commit1\<lparr>qc_block_hash := 114\<rparr>)\<rparr>) = Inr ()"
proof -
  let ?h = "\<lparr>lh_height = 2, lh_hash = 114, lh_parent_hash = 113, lh_tx_merkle_root = 0, lh_state_root = 0, lh_timestamp = 0,
      lh_proposer = ''zz'', lh_tx_count = 0, lh_commit_qc = None\<rparr>"
  have "verify_hash demo_sha ?h" by (simp add: verify_hash_def demo_sha_def header_bytes_def)
  moreover have "verify_parent ?h header1" by (simp add: verify_parent_def header1_def)
  ultimately show ?thesis
    using client_accepts_replayed_votes [of demo_client client_validator commit1 ?h demo_sha] commit1_valid
    by (simp add: demo_client commit1_def)
qed

end
