(* ===== verification/Multisig.thy ===== *)
theory Multisig
  imports Cerulean_Prelude
begin

text \<open>
  Multi-signature contracts (\<open>src/multisig_contracts.rs\<close>): operations proposed by the owner, signed by the
  members and executed once enough have signed. An executed operation is reported and changes nothing
  else in the contract, so its result is the operation itself. Sums of block heights wrap at 64 bits.
\<close>

datatype multisig_operation =
    TransferOp string u64
  | ConfigUpdateOp string string
  | MemberAddOp string
  | MemberRemoveOp string
  | ThresholdChangeOp u8
  | CustomOp string "string list"

record multisig_signature =
  mg_signer :: string
  mg_signed_at :: u64
  mg_signature_hash :: string

record pending_operation =
  po_id :: u64
  po_operation :: multisig_operation
  po_created_block :: u64
  po_timeout_blocks :: u64
  po_signatures :: "(string, multisig_signature) hash_map"
  po_executed :: bool

definition pending_operation_new :: "u64 \<Rightarrow> multisig_operation \<Rightarrow> u64 \<Rightarrow> u64 \<Rightarrow> pending_operation" where
  "pending_operation_new i operation created_block timeout_blocks =
     \<lparr>po_id = i, po_operation = operation, po_created_block = created_block, po_timeout_blocks = timeout_blocks,
      po_signatures = [], po_executed = False\<rparr>"

definition op_is_expired :: "pending_operation \<Rightarrow> u64 \<Rightarrow> bool" where
  "op_is_expired p current_block \<longleftrightarrow> current_block > po_created_block p + po_timeout_blocks p"

definition op_is_approved :: "pending_operation \<Rightarrow> u8 \<Rightarrow> bool" where
  "op_is_approved p threshold \<longleftrightarrow> length (po_signatures p) \<ge> unat threshold"

datatype multisig_error =
    AlreadySigned
  | NoMembers
  | BadThreshold u8 nat
  | OnlyOwner
  | NotMember
  | OperationNotFound
  | AlreadyExecuted
  | OperationExpired
  | NotEnoughSignatures nat u8
  | NotSigned
  | MemberExists
  | CannotRemoveOwner
  | MemberNotFound

definition add_signature :: "pending_operation \<Rightarrow> string \<Rightarrow> string \<Rightarrow> u64 \<Rightarrow> multisig_error + pending_operation" where
  "add_signature p signer signature_hash signed_at =
     (if hm_contains signer (po_signatures p) then Inl AlreadySigned
      else Inr (p\<lparr>po_signatures := hm_insert signer
             \<lparr>mg_signer = signer, mg_signed_at = signed_at, mg_signature_hash = signature_hash\<rparr> (po_signatures p)\<rparr>))"

record multisig_contract =
  mc_contract_address :: string
  mc_owner :: string
  mc_members :: "string list"
  mc_signature_threshold :: u8
  mc_pending_operations :: "(u64, pending_operation) hash_map"
  mc_next_operation_id :: u64
  mc_timeout_blocks :: u64
  mc_executed_count :: u64

definition multisig_contract_new ::
    "string \<Rightarrow> string \<Rightarrow> string list \<Rightarrow> u8 \<Rightarrow> u64 \<Rightarrow> multisig_error + multisig_contract" where
  "multisig_contract_new contract_address owner members threshold timeout_blocks =
     (if members = [] then Inl NoMembers
      else if threshold = 0 \<or> unat threshold > length members then Inl (BadThreshold threshold (length members))
      else Inr \<lparr>mc_contract_address = contract_address, mc_owner = owner, mc_members = members,
                mc_signature_threshold = threshold, mc_pending_operations = [], mc_next_operation_id = 1,
                mc_timeout_blocks = timeout_blocks, mc_executed_count = 0\<rparr>)"

definition put_operation :: "multisig_contract \<Rightarrow> u64 \<Rightarrow> pending_operation \<Rightarrow> multisig_contract" where
  "put_operation c i p = c\<lparr>mc_pending_operations := hm_insert i p (mc_pending_operations c)\<rparr>"

definition propose_operation ::
    "multisig_contract \<Rightarrow> string \<Rightarrow> multisig_operation \<Rightarrow> u64 \<Rightarrow> multisig_contract \<times> (multisig_error + u64)" where
  "propose_operation c caller operation current_block =
     (if caller \<noteq> mc_owner c then (c, Inl OnlyOwner)
      else
        let op_id = mc_next_operation_id c in
        ((put_operation c op_id (pending_operation_new op_id operation current_block (mc_timeout_blocks c)))
           \<lparr>mc_next_operation_id := mc_next_operation_id c + 1\<rparr>, Inr op_id))"

definition sign_operation ::
    "multisig_contract \<Rightarrow> u64 \<Rightarrow> string \<Rightarrow> string \<Rightarrow> u64 \<Rightarrow> multisig_contract \<times> (multisig_error + unit)" where
  "sign_operation c operation_id signer signature_hash current_block =
     (if signer \<notin> set (mc_members c) then (c, Inl NotMember)
      else (case map_of (mc_pending_operations c) operation_id of
              None \<Rightarrow> (c, Inl OperationNotFound)
            | Some p \<Rightarrow>
                if po_executed p then (c, Inl AlreadyExecuted)
                else if op_is_expired p current_block then (c, Inl OperationExpired)
                else (case add_signature p signer signature_hash current_block of
                        Inl e \<Rightarrow> (c, Inl e)
                      | Inr p' \<Rightarrow> (put_operation c operation_id p', Inr ()))))"

definition execute_operation ::
    "multisig_contract \<Rightarrow> u64 \<Rightarrow> u64 \<Rightarrow> multisig_contract \<times> (multisig_error + multisig_operation)" where
  "execute_operation c operation_id current_block =
     (case map_of (mc_pending_operations c) operation_id of
        None \<Rightarrow> (c, Inl OperationNotFound)
      | Some p \<Rightarrow>
          if po_executed p then (c, Inl AlreadyExecuted)
          else if op_is_expired p current_block then (c, Inl OperationExpired)
          else if \<not> op_is_approved p (mc_signature_threshold c)
          then (c, Inl (NotEnoughSignatures (length (po_signatures p)) (mc_signature_threshold c)))
          else ((put_operation c operation_id (p\<lparr>po_executed := True\<rparr>))\<lparr>mc_executed_count := mc_executed_count c + 1\<rparr>,
                Inr (po_operation p)))"

definition revoke_signature :: "multisig_contract \<Rightarrow> u64 \<Rightarrow> string \<Rightarrow> multisig_contract \<times> (multisig_error + unit)" where
  "revoke_signature c operation_id signer =
     (case map_of (mc_pending_operations c) operation_id of
        None \<Rightarrow> (c, Inl OperationNotFound)
      | Some p \<Rightarrow>
          if po_executed p then (c, Inl AlreadyExecuted)
          else if \<not> hm_contains signer (po_signatures p) then (c, Inl NotSigned)
          else (put_operation c operation_id (p\<lparr>po_signatures := hm_remove signer (po_signatures p)\<rparr>), Inr ()))"

definition add_member :: "multisig_contract \<Rightarrow> string \<Rightarrow> string \<Rightarrow> multisig_contract \<times> (multisig_error + unit)" where
  "add_member c caller new_member =
     (if caller \<noteq> mc_owner c then (c, Inl OnlyOwner)
      else if new_member \<in> set (mc_members c) then (c, Inl MemberExists)
      else (c\<lparr>mc_members := mc_members c @ [new_member]\<rparr>, Inr ()))"

definition remove_member :: "multisig_contract \<Rightarrow> string \<Rightarrow> string \<Rightarrow> multisig_contract \<times> (multisig_error + unit)" where
  "remove_member c caller member =
     (if caller \<noteq> mc_owner c then (c, Inl OnlyOwner)
      else if member = mc_owner c then (c, Inl CannotRemoveOwner)
      else (case position_of (\<lambda>x. x = member) (mc_members c) of
              None \<Rightarrow> (c, Inl MemberNotFound)
            | Some pos \<Rightarrow>
                let ms = remove_at pos (mc_members c) in
                (c\<lparr>mc_members := ms,
                   mc_signature_threshold :=
                     (if unat (mc_signature_threshold c) > length ms then of_nat (length ms) else mc_signature_threshold c)\<rparr>,
                 Inr ())))"

definition change_threshold :: "multisig_contract \<Rightarrow> string \<Rightarrow> u8 \<Rightarrow> multisig_contract \<times> (multisig_error + unit)" where
  "change_threshold c caller new_threshold =
     (if caller \<noteq> mc_owner c then (c, Inl OnlyOwner)
      else if new_threshold = 0 \<or> unat new_threshold > length (mc_members c)
      then (c, Inl (BadThreshold new_threshold (length (mc_members c))))
      else (c\<lparr>mc_signature_threshold := new_threshold\<rparr>, Inr ()))"

definition get_pending_operations :: "multisig_contract \<Rightarrow> pending_operation list" where
  "get_pending_operations c = filter (\<lambda>p. \<not> po_executed p) (map snd (mc_pending_operations c))"

definition cleanup_expired :: "multisig_contract \<Rightarrow> u64 \<Rightarrow> multisig_contract \<times> u64" where
  "cleanup_expired c current_block =
     (let expired_ids = map fst (filter (\<lambda>(_, p). op_is_expired p current_block \<and> \<not> po_executed p) (mc_pending_operations c)) in
      (c\<lparr>mc_pending_operations := fold hm_remove expired_ids (mc_pending_operations c)\<rparr>, of_nat (length expired_ids)))"

section \<open>Authority of an execution\<close>

text \<open>
  The contracts that calls reach, with what happened on the way: \<open>S\<close> holds the accepted signatures, each with
  the members at that moment, and \<open>X\<close> the identifiers of the executed operations. The counter of
  identifiers is assumed not to wrap.
\<close>

inductive multisig_reach ::
    "multisig_contract \<Rightarrow> (u64 \<times> string \<times> string list) set \<Rightarrow> u64 set \<Rightarrow> multisig_contract \<Rightarrow> bool" for c0 where
  start: "multisig_reach c0 {} {} c0"
| propose: "multisig_reach c0 S X c \<Longrightarrow> unat (mc_next_operation_id c) + 1 < 2 ^ 64 \<Longrightarrow>
    multisig_reach c0 S X (fst (propose_operation c caller operation blk))"
| sign: "multisig_reach c0 S X c \<Longrightarrow> sign_operation c i signer h blk = (c', Inr ()) \<Longrightarrow>
    multisig_reach c0 (insert (i, signer, mc_members c) S) X c'"
| execute: "multisig_reach c0 S X c \<Longrightarrow> execute_operation c i blk = (c', Inr operation) \<Longrightarrow>
    multisig_reach c0 S (insert i X) c'"
| revoke: "multisig_reach c0 S X c \<Longrightarrow> multisig_reach c0 S X (fst (revoke_signature c i signer))"
| add: "multisig_reach c0 S X c \<Longrightarrow> multisig_reach c0 S X (fst (add_member c caller m))"
| remove: "multisig_reach c0 S X c \<Longrightarrow> multisig_reach c0 S X (fst (remove_member c caller m))"
| threshold: "multisig_reach c0 S X c \<Longrightarrow> multisig_reach c0 S X (fst (change_threshold c caller t))"
| cleanup: "multisig_reach c0 S X c \<Longrightarrow> multisig_reach c0 S X (fst (cleanup_expired c blk))"

definition op_ok :: "(u64 \<times> string \<times> string list) set \<Rightarrow> u64 \<Rightarrow> pending_operation \<Rightarrow> bool" where
  "op_ok S i p \<longleftrightarrow> hm_ok (po_signatures p) \<and> (\<forall>s \<in> fst ` set (po_signatures p). \<exists>ms. (i, s, ms) \<in> S \<and> s \<in> set ms)"

definition multisig_ok :: "(u64 \<times> string \<times> string list) set \<Rightarrow> u64 set \<Rightarrow> multisig_contract \<Rightarrow> bool" where
  "multisig_ok S X c \<longleftrightarrow> hm_ok (mc_pending_operations c) \<and>
     (\<forall>i p. map_of (mc_pending_operations c) i = Some p \<longrightarrow> i < mc_next_operation_id c \<and> op_ok S i p) \<and>
     (\<forall>i \<in> X. \<exists>p. map_of (mc_pending_operations c) i = Some p \<and> po_executed p)"

lemma op_ok_mono: "op_ok S i p \<Longrightarrow> S \<subseteq> T \<Longrightarrow> op_ok T i p"
  by (fastforce simp: op_ok_def)

lemma multisig_ok_cong:
  "multisig_ok S X c \<Longrightarrow> mc_pending_operations c' = mc_pending_operations c \<Longrightarrow>
     mc_next_operation_id c' = mc_next_operation_id c \<Longrightarrow> multisig_ok S X c'"
  by (simp add: multisig_ok_def)

lemma multisig_ok_put:
  assumes "multisig_ok S X c" and "op_ok T i p" and "S \<subseteq> T" and "i < mc_next_operation_id c"
    and "i \<in> X \<longrightarrow> po_executed p"
  shows "multisig_ok T X (put_operation c i p)"
  using assms op_ok_mono [OF _ assms(3)] by (auto simp: multisig_ok_def put_operation_def)

lemma fold_remove_get:
  "map_of (fold hm_remove is m) i = (if i \<in> set is then None else map_of m i)"
  by (induction "is" arbitrary: m) auto

lemma fold_remove_ok: "hm_ok m \<Longrightarrow> hm_ok (fold hm_remove is m)"
  by (induction "is" arbitrary: m) auto

lemma multisig_ok_cleanup:
  assumes ok: "multisig_ok S X c"
  shows "multisig_ok S X (fst (cleanup_expired c blk))"
proof -
  have kept: "i \<notin> fst ` {e \<in> set (mc_pending_operations c). case e of (_, p) \<Rightarrow> op_is_expired p blk \<and> \<not> po_executed p}"
    if "map_of (mc_pending_operations c) i = Some p" "po_executed p" for i p
    using that ok hm_entry_iff [of "mc_pending_operations c" i] by (auto simp: multisig_ok_def)
  show ?thesis
    using ok kept
    by (fastforce simp: multisig_ok_def cleanup_expired_def Let_def fold_remove_get fold_remove_ok)
qed

lemma sign_operation_cases:
  assumes "sign_operation c i signer h blk = (c', Inr ())"
  obtains p where "map_of (mc_pending_operations c) i = Some p" "\<not> po_executed p" "signer \<in> set (mc_members c)"
    "c' = put_operation c i (p\<lparr>po_signatures := hm_insert signer
       \<lparr>mg_signer = signer, mg_signed_at = blk, mg_signature_hash = h\<rparr> (po_signatures p)\<rparr>)"
  using assms by (auto simp: sign_operation_def add_signature_def split: if_splits option.splits)

lemma execute_operation_cases:
  assumes "execute_operation c i blk = (c', Inr operation)"
  obtains p where "map_of (mc_pending_operations c) i = Some p" "\<not> po_executed p" "\<not> op_is_expired p blk"
    "op_is_approved p (mc_signature_threshold c)" "operation = po_operation p"
    "c' = (put_operation c i (p\<lparr>po_executed := True\<rparr>))\<lparr>mc_executed_count := mc_executed_count c + 1\<rparr>"
  using assms by (auto simp: execute_operation_def split: if_splits option.splits)

lemma multisig_reach_ok:
  assumes "multisig_reach c0 S X c" and "multisig_ok {} {} c0"
  shows "multisig_ok S X c"
  using assms
proof induction
  case (propose S X c caller operation blk)
  let ?i = "mc_next_operation_id c"
  have ok: "multisig_ok S X c" using propose by simp
  have next': "unat (?i + 1) = unat ?i + 1" using propose.hyps(2) by (simp add: unat_add_no_wrap)
  then have "?i < ?i + 1" by (simp add: word_less_nat_alt)
  then have grow: "j < ?i + 1" if "j < ?i" for j using that by (rule order.strict_trans [rotated])
  have fresh: "?i \<notin> X" using ok by (fastforce simp: multisig_ok_def)
  show ?case
    using ok \<open>?i < ?i + 1\<close> grow fresh
    by (auto simp: propose_operation_def multisig_ok_def put_operation_def Let_def pending_operation_new_def op_ok_def)
next
  case (sign S X c i signer h blk c')
  have ok: "multisig_ok S X c" using sign by simp
  from sign.hyps(2) show ?case
  proof (rule sign_operation_cases)
    fix p
    assume p: "map_of (mc_pending_operations c) i = Some p" "\<not> po_executed p" "signer \<in> set (mc_members c)"
      and c': "c' = put_operation c i (p\<lparr>po_signatures := hm_insert signer
        \<lparr>mg_signer = signer, mg_signed_at = blk, mg_signature_hash = h\<rparr> (po_signatures p)\<rparr>)"
    have "op_ok S i p" "i < mc_next_operation_id c" "i \<notin> X" using ok p by (auto simp: multisig_ok_def)
    then show ?thesis unfolding c'
      using p(3) by (intro multisig_ok_put [OF ok]) (fastforce simp: op_ok_def hm_keys_insert)+
  qed
next
  case (execute S X c i blk c' operation)
  have ok: "multisig_ok S X c" using execute by simp
  from execute.hyps(2) show ?case
    by (rule execute_operation_cases) (use ok in \<open>auto simp: multisig_ok_def put_operation_def op_ok_def\<close>)
next
  case (revoke S X c i signer)
  then have ok: "multisig_ok S X c" by simp
  show ?case
  proof (cases "fst (revoke_signature c i signer) = c")
    case False
    then obtain p where p: "map_of (mc_pending_operations c) i = Some p" "\<not> po_executed p"
        "fst (revoke_signature c i signer) = put_operation c i (p\<lparr>po_signatures := hm_remove signer (po_signatures p)\<rparr>)"
      by (auto simp: revoke_signature_def split: option.splits if_splits)
    have "op_ok S i p" "i < mc_next_operation_id c" "i \<notin> X" using ok p by (auto simp: multisig_ok_def)
    then show ?thesis unfolding p(3)
      by (intro multisig_ok_put [OF ok]) (auto simp: op_ok_def hm_entries_remove)
  qed (use ok in simp)
next
  case (cleanup S X c blk)
  then show ?case by (simp add: multisig_ok_cleanup)
qed (auto elim!: multisig_ok_cong simp: add_member_def remove_member_def change_threshold_def Let_def split: option.split)

text \<open>
  C13: an operation is executed only with authority: at any point of any run, an execution that succeeds is the
  first of its operation, comes before the timeout, and carries the signatures of at least as many distinct
  signers as the threshold says at that moment, each accepted for this very operation while the signer
  was a member.
\<close>

theorem multisig_execution_authorized:
  assumes new: "multisig_contract_new a w ms t k = Inr c0" and reach: "multisig_reach c0 S X c"
    and run: "execute_operation c i blk = (c', Inr operation)"
  shows "i \<notin> X \<and> (\<exists>p signers. map_of (mc_pending_operations c) i = Some p \<and> po_operation p = operation \<and>
    \<not> op_is_expired p blk \<and> distinct signers \<and> unat (mc_signature_threshold c) \<le> length signers \<and>
    (\<forall>s \<in> set signers. \<exists>members. (i, s, members) \<in> S \<and> s \<in> set members))"
proof -
  have "multisig_ok {} {} c0"
    using new by (auto simp: multisig_contract_new_def multisig_ok_def split: if_splits)
  then have ok: "multisig_ok S X c" by (rule multisig_reach_ok [OF reach])
  from run show ?thesis
  proof (rule execute_operation_cases)
    fix p
    assume p: "map_of (mc_pending_operations c) i = Some p" "\<not> po_executed p" "\<not> op_is_expired p blk"
      "op_is_approved p (mc_signature_threshold c)" "operation = po_operation p"
    have "op_ok S i p" "i \<notin> X" using ok p by (auto simp: multisig_ok_def)
    then show ?thesis
      using p by (intro conjI exI [of _ p] exI [of _ "map fst (po_signatures p)"])
        (auto simp: op_ok_def op_is_approved_def hm_ok_def)
  qed
qed

definition demo_multisig :: multisig_contract where
  "demo_multisig = \<lparr>mc_contract_address = ''c'', mc_owner = ''o'', mc_members = [''m'', ''n''], mc_signature_threshold = 1,
     mc_pending_operations = [], mc_next_operation_id = 1, mc_timeout_blocks = 10, mc_executed_count = 0\<rparr>"

theorem multisig_execution_authorized_witness:
  "snd (execute_operation (fst (sign_operation (fst (propose_operation demo_multisig ''o'' (TransferOp ''x'' 5) 0)) 1 ''n'' ''h'' 1)) 1 2) =
     Inr (TransferOp ''x'' 5) \<and> (1 :: u64) \<notin> {}"
proof -
  let ?c1 = "fst (propose_operation demo_multisig ''o'' (TransferOp ''x'' 5) 0)"
  let ?c2 = "fst (sign_operation ?c1 1 ''n'' ''h'' 1)"
  note defs = demo_multisig_def propose_operation_def sign_operation_def execute_operation_def add_signature_def
    put_operation_def pending_operation_new_def op_is_expired_def op_is_approved_def hm_insert_def hm_contains_def
  have new: "multisig_contract_new ''c'' ''o'' [''m'', ''n''] 1 10 = Inr demo_multisig"
    by (simp add: multisig_contract_new_def demo_multisig_def)
  have "multisig_reach demo_multisig {} {} ?c1"
    by (rule multisig_reach.propose [OF multisig_reach.start]) (simp add: demo_multisig_def)
  moreover have "sign_operation ?c1 1 ''n'' ''h'' 1 = (?c2, Inr ())" by (simp add: defs Let_def)
  ultimately have r: "multisig_reach demo_multisig (insert (1, ''n'', mc_members ?c1) {}) {} ?c2" by (rule multisig_reach.sign)
  have e: "execute_operation ?c2 1 2 = (fst (execute_operation ?c2 1 2), Inr (TransferOp ''x'' 5))" by (simp add: defs Let_def)
  then have "snd (execute_operation ?c2 1 2) = Inr (TransferOp ''x'' 5)" by (metis snd_conv)
  then show ?thesis using multisig_execution_authorized [OF new r e] by blast
qed

text \<open>
  The threshold can fall to zero: when the owner is not a member and the last member is removed, the threshold
  follows the number of members, and from then on the owner executes operations that nobody signed.
\<close>

theorem multisig_without_signatures:
  assumes "multisig_contract_new a w [m] t k = Inr c" and "m \<noteq> w" and "b \<le> b + k" and "c' = fst (remove_member c w m)"
  shows "mc_signature_threshold c' = 0 \<and>
    snd (execute_operation (fst (propose_operation c' w operation b)) (mc_next_operation_id c') b) = Inr operation"
proof -
  have t: "t \<noteq> 0"
    and c: "c = \<lparr>mc_contract_address = a, mc_owner = w, mc_members = [m], mc_signature_threshold = t, mc_pending_operations = [],
      mc_next_operation_id = 1, mc_timeout_blocks = k, mc_executed_count = 0\<rparr>"
    using assms(1) by (auto simp: multisig_contract_new_def split: if_splits)
  have "c' = c\<lparr>mc_members := [], mc_signature_threshold := 0\<rparr>"
    using assms(2,4) t by (simp add: c remove_member_def remove_at_def Let_def unat_gt_0 word_neq_0_conv)
  then show ?thesis
    using assms(3) by (simp add: c propose_operation_def execute_operation_def put_operation_def pending_operation_new_def
        op_is_expired_def op_is_approved_def Let_def not_less)
qed

end
