(* ===== verification/Oracle.thy ===== *)
theory Oracle
  imports Cerulean_Prelude
begin

text \<open>
  The price oracle (\<open>src/oracle_system.rs\<close>): registered nodes with reputation and fees, signed price reports
  and their aggregation by median, outlier filter and average. HMAC-SHA256 with the built-in key is the
  parameter \<open>hmac\<close>, the clock an argument. Differences of times that the source writes with \<open>-\<close> wrap.
\<close>

record oracle_data =
  od_symbol :: string
  od_data_point :: u64
  od_timestamp :: u64
  od_source_id :: string
  od_signature :: bytes
  od_confidence :: u8

record oracle_node =
  on_address :: string
  on_reputation_score :: u64
  on_total_reports :: u64
  on_correct_reports :: u64
  on_last_update :: u64
  on_fee_balance :: u64

definition oracle_node_new :: "string \<Rightarrow> oracle_node" where
  "oracle_node_new address =
     \<lparr>on_address = address, on_reputation_score = 100, on_total_reports = 0, on_correct_reports = 0, on_last_update = 0,
      on_fee_balance = 0\<rparr>"

definition accuracy_rate :: "oracle_node \<Rightarrow> u64" where
  "accuracy_rate n = (if on_total_reports n = 0 then 0 else on_correct_reports n * 100 div on_total_reports n)"

definition update_reputation :: "oracle_node \<Rightarrow> bool \<Rightarrow> oracle_node" where
  "update_reputation n was_correct =
     (let n' = n\<lparr>on_total_reports := on_total_reports n + 1\<rparr> in
      if was_correct then
        n'\<lparr>on_correct_reports := on_correct_reports n + 1,
           on_reputation_score :=
             (if on_reputation_score n < 1000 then min (on_reputation_score n + 10) 1000 else on_reputation_score n)\<rparr>
      else
        n'\<lparr>on_reputation_score := (if on_reputation_score n \<ge> 20 then on_reputation_score n - 20 else 0)\<rparr>)"

definition add_fee :: "oracle_node \<Rightarrow> u64 \<Rightarrow> oracle_node" where
  "add_fee n amount = n\<lparr>on_fee_balance := on_fee_balance n + amount\<rparr>"

definition withdraw_fee :: "oracle_node \<Rightarrow> u64 \<Rightarrow> oracle_node \<times> u64 option" where
  "withdraw_fee n amount =
     (if on_fee_balance n \<ge> amount then (n\<lparr>on_fee_balance := on_fee_balance n - amount\<rparr>, Some amount) else (n, None))"

record price_data =
  pd_symbol :: string
  pd_price :: u64
  pd_timestamp :: u64
  pd_source_count :: u64
  pd_confidence :: u8

definition is_fresh :: "price_data \<Rightarrow> u64 \<Rightarrow> u64 \<Rightarrow> bool" where
  "is_fresh p current_time max_age_ms \<longleftrightarrow> current_time - pd_timestamp p \<le> max_age_ms"

record oracle_registry =
  or_nodes :: "(string, oracle_node) hash_map"
  or_price_cache :: "(string, price_data) hash_map"
  or_pending_reports :: "oracle_data list"
  or_voting_threshold :: u64
  or_max_data_age_ms :: u64
  or_outlier_threshold_percent :: u64

datatype oracle_error =
    OracleExists
  | OracleNotRegistered
  | TimestampInFuture u64
  | TimestampTooOld u64
  | InvalidReportSignature
  | NoReports
  | AllOutliers
  | PriceNotFound
  | PriceStale
  | OracleNotFound
  | ThresholdTooLarge

definition oracle_registry_new :: "u64 \<Rightarrow> u64 \<Rightarrow> oracle_registry" where
  "oracle_registry_new voting_threshold max_data_age_ms =
     \<lparr>or_nodes = [], or_price_cache = [], or_pending_reports = [], or_voting_threshold = voting_threshold,
      or_max_data_age_ms = max_data_age_ms, or_outlier_threshold_percent = 10\<rparr>"

definition register_oracle :: "oracle_registry \<Rightarrow> string \<Rightarrow> oracle_registry \<times> (oracle_error + unit)" where
  "register_oracle r address =
     (if hm_contains address (or_nodes r) then (r, Inl OracleExists)
      else (r\<lparr>or_nodes := hm_insert address (oracle_node_new address) (or_nodes r)\<rparr>, Inr ()))"

definition report_bytes :: "string \<Rightarrow> u64 \<Rightarrow> u64 \<Rightarrow> bytes" where
  "report_bytes oracle_id price timestamp = str_bytes oracle_id @ to_le_bytes price @ to_le_bytes timestamp"

definition validate_timestamp :: "u64 \<Rightarrow> u64 \<Rightarrow> oracle_error + unit" where
  "validate_timestamp timestamp current_time =
     (if timestamp > current_time \<and> timestamp - current_time > 300000
      then Inl (TimestampInFuture (timestamp - current_time))
      else if current_time > timestamp \<and> current_time - timestamp > 3600000
      then Inl (TimestampTooOld (current_time - timestamp))
      else Inr ())"

definition submit_price_report ::
    "(bytes \<Rightarrow> bytes) \<Rightarrow> u64 \<Rightarrow> oracle_registry \<Rightarrow> string \<Rightarrow> string \<Rightarrow> u64 \<Rightarrow> u64 \<Rightarrow> bytes \<Rightarrow> u8
      \<Rightarrow> oracle_registry \<times> (oracle_error + unit)" where
  "submit_price_report hmac now r oracle_id symbol price timestamp signature confidence =
     (if \<not> hm_contains oracle_id (or_nodes r) then (r, Inl OracleNotRegistered)
      else (case validate_timestamp timestamp now of
              Inl e \<Rightarrow> (r, Inl e)
            | Inr _ \<Rightarrow>
                if hmac (report_bytes oracle_id price timestamp) \<noteq> signature then (r, Inl InvalidReportSignature)
                else
                  let report = \<lparr>od_symbol = symbol, od_data_point = price, od_timestamp = timestamp, od_source_id = oracle_id,
                                od_signature = signature, od_confidence = confidence\<rparr>;
                      kept = (if length (or_pending_reports r) \<ge> 10000 then tl (or_pending_reports r) else or_pending_reports r) in
                  (r\<lparr>or_pending_reports := kept @ [report]\<rparr>, Inr ())))"

definition calculate_median :: "u64 list \<Rightarrow> u64" where
  "calculate_median prices = (if prices = [] then 0 else sort prices ! (length prices div 2))"

definition calculate_average :: "u64 list \<Rightarrow> u64" where
  "calculate_average prices =
     (if prices = [] then 0 else of_nat (sum_list (map unat prices) div length prices))"

definition abs_diff :: "u64 \<Rightarrow> u64 \<Rightarrow> u64" where
  "abs_diff a b = (if a < b then b - a else a - b)"

definition is_outlier :: "oracle_registry \<Rightarrow> u64 \<Rightarrow> u64 \<Rightarrow> bool" where
  "is_outlier r price median \<longleftrightarrow> abs_diff price median > sat_mul (median div 100) (or_outlier_threshold_percent r)"

definition settle_report :: "oracle_registry \<Rightarrow> u64 \<Rightarrow> u64 \<Rightarrow> (string, oracle_node) hash_map \<Rightarrow> oracle_data \<Rightarrow> (string, oracle_node) hash_map" where
  "settle_report r median current_time nodes report =
     (let was_correct = \<not> is_outlier r (od_data_point report) median in
      case map_of nodes (od_source_id report) of
        None \<Rightarrow> nodes
      | Some n \<Rightarrow>
          let n' = (update_reputation n was_correct)\<lparr>on_last_update := current_time\<rparr> in
          hm_insert (od_source_id report) (if was_correct then add_fee n' 10 else n') nodes)"

definition aggregate_reports :: "oracle_registry \<Rightarrow> string \<Rightarrow> u64 \<Rightarrow> oracle_registry \<times> (oracle_error + price_data)" where
  "aggregate_reports r symbol current_time =
     (let reports = filter (\<lambda>d. od_symbol d = symbol) (or_pending_reports r) in
      if reports = [] then (r, Inl NoReports)
      else
        let prices = map od_data_point reports;
            median = calculate_median prices;
            valid_prices = filter (\<lambda>p. \<not> is_outlier r p median) prices in
        if valid_prices = [] then (r, Inl AllOutliers)
        else
          let consensus_price = calculate_average valid_prices;
              agreement_rate = (of_nat (length valid_prices * 100 div length reports) :: u64);
              confidence = min (ucast agreement_rate :: u8) 100;
              price = \<lparr>pd_symbol = symbol, pd_price = consensus_price, pd_timestamp = current_time,
                       pd_source_count = of_nat (length valid_prices), pd_confidence = confidence\<rparr> in
          (r\<lparr>or_nodes := foldl (settle_report r median current_time) (or_nodes r) reports,
             or_price_cache := hm_insert symbol price (or_price_cache r),
             or_pending_reports := filter (\<lambda>d. od_symbol d \<noteq> symbol) (or_pending_reports r)\<rparr>, Inr price))"

definition get_price :: "oracle_registry \<Rightarrow> string \<Rightarrow> oracle_error + price_data" where
  "get_price r symbol = (case map_of (or_price_cache r) symbol of Some p \<Rightarrow> Inr p | None \<Rightarrow> Inl PriceNotFound)"

definition get_price_if_fresh :: "oracle_registry \<Rightarrow> string \<Rightarrow> u64 \<Rightarrow> oracle_error + price_data" where
  "get_price_if_fresh r symbol current_time =
     (case get_price r symbol of
        Inl e \<Rightarrow> Inl e
      | Inr p \<Rightarrow> if is_fresh p current_time (or_max_data_age_ms r) then Inr p else Inl PriceStale)"

definition validate_freshness :: "oracle_registry \<Rightarrow> string \<Rightarrow> u64 \<Rightarrow> u64 \<Rightarrow> bool" where
  "validate_freshness r symbol current_time max_age_ms \<longleftrightarrow>
     (case map_of (or_price_cache r) symbol of Some p \<Rightarrow> is_fresh p current_time max_age_ms | None \<Rightarrow> False)"

definition penalize_oracle :: "oracle_registry \<Rightarrow> string \<Rightarrow> u64 \<Rightarrow> oracle_registry \<times> (oracle_error + unit)" where
  "penalize_oracle r oracle_id amount =
     (case map_of (or_nodes r) oracle_id of
        None \<Rightarrow> (r, Inl OracleNotFound)
      | Some n \<Rightarrow>
          (r\<lparr>or_nodes := hm_insert oracle_id
               (n\<lparr>on_reputation_score := (if on_reputation_score n \<ge> amount then on_reputation_score n - amount else 0)\<rparr>)
               (or_nodes r)\<rparr>, Inr ()))"

definition reward_oracle :: "oracle_registry \<Rightarrow> string \<Rightarrow> u64 \<Rightarrow> oracle_registry \<times> (oracle_error + unit)" where
  "reward_oracle r oracle_id reward =
     (case map_of (or_nodes r) oracle_id of
        None \<Rightarrow> (r, Inl OracleNotFound)
      | Some n \<Rightarrow>
          let n' = add_fee n reward in
          (r\<lparr>or_nodes := hm_insert oracle_id
               (if on_reputation_score n' < 1000
                then n'\<lparr>on_reputation_score := min (on_reputation_score n' + reward div 10) 1000\<rparr> else n')
               (or_nodes r)\<rparr>, Inr ()))"

definition set_voting_threshold :: "oracle_registry \<Rightarrow> u64 \<Rightarrow> oracle_registry \<times> (oracle_error + unit)" where
  "set_voting_threshold r t =
     (if t > 100 then (r, Inl ThresholdTooLarge) else (r\<lparr>or_voting_threshold := t\<rparr>, Inr ()))"

definition set_max_data_age :: "oracle_registry \<Rightarrow> u64 \<Rightarrow> oracle_registry" where
  "set_max_data_age r max_age_ms = r\<lparr>or_max_data_age_ms := max_age_ms\<rparr>"

definition set_outlier_threshold :: "oracle_registry \<Rightarrow> u64 \<Rightarrow> oracle_registry \<times> (oracle_error + unit)" where
  "set_outlier_threshold r t =
     (if t > 100 then (r, Inl ThresholdTooLarge) else (r\<lparr>or_outlier_threshold_percent := t\<rparr>, Inr ()))"

section \<open>Robustness of the price\<close>

lemma length_filter_sort: "length (filter P (sort xs)) = length (filter P (xs :: 'a :: linorder list))"
  by (metis mset_filter mset_sort size_mset)

lemma filter_prefix_count: "(\<And>i. i < k \<Longrightarrow> P (xs ! i)) \<Longrightarrow> k \<le> length xs \<Longrightarrow> k \<le> length (filter P xs)"
proof -
  assume "\<And>i. i < k \<Longrightarrow> P (xs ! i)" and k: "k \<le> length xs"
  then have "filter P (take k xs) = take k xs" by (intro filter_True) (auto simp: in_set_conv_nth)
  moreover have "length (filter P xs) = length (filter P (take k xs)) + length (filter P (drop k xs))"
    by (metis append_take_drop_id filter_append length_append)
  ultimately show ?thesis using k by simp
qed

lemma filter_suffix_count: "(\<And>i. k \<le> i \<Longrightarrow> i < length xs \<Longrightarrow> P (xs ! i)) \<Longrightarrow> length xs - k \<le> length (filter P xs)"
proof -
  assume "\<And>i. k \<le> i \<Longrightarrow> i < length xs \<Longrightarrow> P (xs ! i)"
  then have "filter P (drop k xs) = drop k xs" by (intro filter_True) (auto simp: in_set_conv_nth)
  moreover have "length (filter P xs) = length (filter P (take k xs)) + length (filter P (drop k xs))"
    by (metis append_take_drop_id filter_append length_append)
  ultimately show ?thesis by simp
qed

lemma median_majority:
  assumes major: "length xs < 2 * length (filter (\<lambda>x. lo \<le> x \<and> x \<le> hi) xs)"
  shows "lo \<le> calculate_median xs \<and> calculate_median xs \<le> hi"
proof -
  let ?ys = "sort xs" and ?m = "length xs div 2" and ?in = "\<lambda>x. lo \<le> x \<and> x \<le> hi"
  have ne: "xs \<noteq> []" using major by auto
  then have m: "?m < length ?ys" by simp
  have med: "calculate_median xs = ?ys ! ?m" using ne by (simp add: calculate_median_def)
  have split: "length (filter ?in ?ys) + length (filter (\<lambda>x. \<not> ?in x) ?ys) = length xs"
    using sum_length_filter_compl [of ?in ?ys] by simp
  have inside: "length xs < 2 * length (filter ?in ?ys)" using major by (simp add: length_filter_sort)
  have "lo \<le> ?ys ! ?m"
  proof (rule ccontr)
    assume "\<not> lo \<le> ?ys ! ?m"
    then have "\<not> ?in (?ys ! i)" if "i < Suc ?m" for i
      using that m sorted_nth_mono [OF sorted_sort [of xs], of i ?m] by fastforce
    then have "Suc ?m \<le> length (filter (\<lambda>x. \<not> ?in x) ?ys)" using m by (intro filter_prefix_count) auto
    then show False using split inside by linarith
  qed
  moreover have "?ys ! ?m \<le> hi"
  proof (rule ccontr)
    assume "\<not> ?ys ! ?m \<le> hi"
    then have "\<not> ?in (?ys ! i)" if "?m \<le> i" "i < length ?ys" for i
      using that m sorted_nth_mono [OF sorted_sort [of xs], of ?m i] by fastforce
    then have "length ?ys - ?m \<le> length (filter (\<lambda>x. \<not> ?in x) ?ys)" by (intro filter_suffix_count) auto
    then show False using split inside by simp
  qed
  ultimately show ?thesis by (simp add: med)
qed

lemma average_between:
  assumes "xs \<noteq> []" and "\<And>x. x \<in> set xs \<Longrightarrow> lo \<le> unat x \<and> unat x \<le> hi" and "hi < 2 ^ 64"
  shows "lo \<le> unat (calculate_average xs) \<and> unat (calculate_average xs) \<le> hi"
proof -
  have "length ys * lo \<le> sum_list (map unat ys) \<and> sum_list (map unat ys) \<le> length ys * hi" if "set ys \<subseteq> set xs" for ys
    using that by (induction ys) (use assms(2) in \<open>fastforce simp: add_mono\<close>)+
  then have s: "length xs * lo \<le> sum_list (map unat xs)" "sum_list (map unat xs) \<le> length xs * hi" by auto
  have len: "0 < length xs" using assms(1) by simp
  have b: "lo \<le> sum_list (map unat xs) div length xs" "sum_list (map unat xs) div length xs \<le> hi"
    using s len by (metis div_le_mono nonzero_mult_div_cancel_left less_not_refl2)+
  then have "unat (of_nat (sum_list (map unat xs) div length xs) :: u64) = sum_list (map unat xs) div length xs"
    using assms(3) by (intro unat_of_nat_lt) simp
  then show ?thesis using b assms(1) by (simp add: calculate_average_def)
qed

lemma not_outlier:
  assumes "\<not> is_outlier r p m"
  shows "unat m \<le> unat p + unat (sat_mul (m div 100) (or_outlier_threshold_percent r)) \<and>
    unat p \<le> unat m + unat (sat_mul (m div 100) (or_outlier_threshold_percent r))"
  using assms
  by (cases "p < m") (auto simp: is_outlier_def abs_diff_def word_less_nat_alt word_le_nat_alt not_less unat_sub_no_wrap)

text \<open>
  C28: a minority of the reports cannot move the price: if more than half of the pending reports for a symbol lie
  between two bounds, then so does the median, and the price that the aggregation returns and caches
  differs from that median by at most the tolerated percentage of it.
\<close>

theorem oracle_price_robust:
  assumes "aggregate_reports r symbol now = (r', Inr price)"
    and "prices = map od_data_point (filter (\<lambda>d. od_symbol d = symbol) (or_pending_reports r))"
    and "length prices < 2 * length (filter (\<lambda>p. lo \<le> p \<and> p \<le> hi) prices)"
  shows "\<exists>m tol. lo \<le> m \<and> m \<le> hi \<and> tol \<le> unat m div 100 * unat (or_outlier_threshold_percent r) \<and>
    unat m \<le> unat (pd_price price) + tol \<and> unat (pd_price price) \<le> unat m + tol \<and> get_price r' symbol = Inr price"
proof -
  define m where "m = calculate_median prices"
  define tol where "tol = unat (sat_mul (m div 100) (or_outlier_threshold_percent r))"
  define valid where "valid = filter (\<lambda>p. \<not> is_outlier r p m) prices"
  have run: "valid \<noteq> []" "pd_price price = calculate_average valid" "get_price r' symbol = Inr price"
    using assms(1) unfolding aggregate_reports_def Let_def assms(2) [symmetric] m_def [symmetric] valid_def [symmetric]
    by (auto simp: get_price_def split: if_splits)
  have near: "unat m - tol \<le> unat p \<and> unat p \<le> min (unat m + tol) (2 ^ 64 - 1)" if "p \<in> set valid" for p
  proof -
    have "unat p \<le> 18446744073709551615" using u64_bound [of p] by linarith
    moreover have "unat m \<le> unat p + tol \<and> unat p \<le> unat m + tol"
      using not_outlier [of r p m] that by (simp add: valid_def tol_def)
    ultimately show ?thesis by (simp add: le_diff_conv)
  qed
  have "unat m - tol \<le> unat (calculate_average valid) \<and> unat (calculate_average valid) \<le> min (unat m + tol) (2 ^ 64 - 1)"
    using near by (intro average_between [OF run(1)]) auto
  moreover have "tol \<le> unat m div 100 * unat (or_outlier_threshold_percent r)"
    by (simp add: tol_def unat_sat_mul unat_div)
  ultimately show ?thesis
    using run median_majority [OF assms(3)] by (intro exI [of _ m] exI [of _ tol]) (auto simp: m_def)
qed


definition demo_report :: "string \<Rightarrow> u64 \<Rightarrow> oracle_data" where
  "demo_report i p = \<lparr>od_symbol = ''BTC'', od_data_point = p, od_timestamp = 0, od_source_id = i, od_signature = [],
     od_confidence = 100\<rparr>"

definition demo_oracles :: oracle_registry where
  "demo_oracles = (oracle_registry_new 66 1000)
     \<lparr>or_pending_reports := [demo_report ''a'' 1000, demo_report ''b'' 9000, demo_report ''c'' 1010]\<rparr>"

theorem oracle_price_robust_witness:
  "\<exists>r' price. aggregate_reports demo_oracles ''BTC'' 5 = (r', Inr price) \<and> get_price r' ''BTC'' = Inr price"
proof -
  let ?prices = "map od_data_point (filter (\<lambda>d. od_symbol d = ''BTC'') (or_pending_reports demo_oracles))"
  have p: "?prices = [1000, 9000, 1010]" by (simp add: demo_oracles_def demo_report_def oracle_registry_new_def)
  have "\<exists>price. snd (aggregate_reports demo_oracles ''BTC'' 5) = Inr price"
    by (simp add: aggregate_reports_def demo_oracles_def demo_report_def oracle_registry_new_def calculate_median_def
        is_outlier_def abs_diff_def sat_mul_def Let_def)
  then obtain r' price where run: "aggregate_reports demo_oracles ''BTC'' 5 = (r', Inr price)"
    by (metis prod.collapse)
  have "length ?prices < 2 * length (filter (\<lambda>p. 1000 \<le> p \<and> p \<le> 1010) ?prices)" by (simp add: p)
  from oracle_price_robust [OF run refl this] run show ?thesis by blast
qed

section \<open>Reputation\<close>

inductive oracle_step :: "(bytes \<Rightarrow> bytes) \<Rightarrow> oracle_registry \<Rightarrow> oracle_registry \<Rightarrow> bool" for hmac where
  register: "oracle_step hmac r (fst (register_oracle r a))"
| submit: "oracle_step hmac r (fst (submit_price_report hmac now r a symbol price timestamp signature confidence))"
| aggregate: "oracle_step hmac r (fst (aggregate_reports r symbol now))"
| penalize: "oracle_step hmac r (fst (penalize_oracle r a x))"
| reward: "oracle_step hmac r (fst (reward_oracle r a x))"
| voting: "oracle_step hmac r (fst (set_voting_threshold r x))"
| age: "oracle_step hmac r (set_max_data_age r x)"
| outlier: "oracle_step hmac r (fst (set_outlier_threshold r x))"

definition nodes_ok :: "(string, oracle_node) hash_map \<Rightarrow> bool" where
  "nodes_ok nodes \<longleftrightarrow> (\<forall>a n. map_of nodes a = Some n \<longrightarrow> on_reputation_score n \<le> 1000)"

lemma nodes_ok_insert: "nodes_ok nodes \<Longrightarrow> on_reputation_score n \<le> 1000 \<Longrightarrow> nodes_ok (hm_insert a n nodes)"
  by (simp add: nodes_ok_def)

lemma reputation_update: "on_reputation_score n \<le> 1000 \<Longrightarrow> on_reputation_score (update_reputation n b) \<le> 1000"
proof -
  assume n: "on_reputation_score n \<le> 1000"
  have "on_reputation_score n - 20 \<le> 1000" if "20 \<le> on_reputation_score n"
    using n that by (simp add: word_le_nat_alt unat_sub_no_wrap)
  then show ?thesis using n by (auto simp: update_reputation_def Let_def)
qed

lemma nodes_ok_settle: "nodes_ok nodes \<Longrightarrow> nodes_ok (settle_report r m now nodes d)"
  using reputation_update
  by (fastforce simp: settle_report_def Let_def add_fee_def nodes_ok_def split: option.split)

lemma nodes_ok_foldl: "nodes_ok nodes \<Longrightarrow> nodes_ok (foldl (settle_report r m now) nodes ds)"
  by (induction ds arbitrary: nodes) (simp_all add: nodes_ok_settle)

text \<open>
  Reputation scores stay within 0 and 1000 through registrations, reports, aggregations, penalties and
  rewards of any size, and no threshold leaves the percentages.
\<close>

theorem oracle_scores_bounded:
  assumes "(oracle_step hmac)\<^sup>*\<^sup>* (oracle_registry_new v age) r"
  shows "nodes_ok (or_nodes r) \<and> or_outlier_threshold_percent r \<le> 100"
  using assms
proof (induction rule: rtranclp_induct)
  case base
  show ?case by (simp add: oracle_registry_new_def nodes_ok_def)
next
  case (step r r')
  from step.hyps(2) step.IH show ?case
  proof cases
    case (aggregate symbol now)
    then show ?thesis using step.IH by (simp add: aggregate_reports_def Let_def nodes_ok_foldl)
  next
    case (penalize a x)
    then show ?thesis
      using step.IH by (fastforce simp: penalize_oracle_def nodes_ok_def word_le_nat_alt unat_sub_no_wrap split: option.split)
  next
    case (reward a x)
    then show ?thesis
      using step.IH by (fastforce simp: reward_oracle_def nodes_ok_def add_fee_def Let_def split: option.split)
  qed (auto simp: register_oracle_def submit_price_report_def set_voting_threshold_def set_max_data_age_def
      set_outlier_threshold_def oracle_node_new_def Let_def nodes_ok_insert split: sum.splits if_splits)
qed

section \<open>What a report is signed for\<close>

text \<open>
  A signature does not cover the symbol: a report accepted for one symbol is accepted for every other as well,
  with the same signature and price.
\<close>

theorem report_symbol_unsigned:
  assumes "submit_price_report hmac now r a symbol price t signature confidence = (r', Inr ())"
  shows "snd (submit_price_report hmac now r a symbol' price t signature confidence') = Inr ()"
  using assms by (auto simp: submit_price_report_def Let_def split: if_splits sum.splits)

end
