(* ===== verification/Private_Data.thy ===== *)
theory Private_Data
  imports Endorsement Merkle
begin

text \<open>
  Private data collections (\<open>src/private_data/mod.rs\<close>): the definition of a collection, the in-memory store
  with the lifetimes of its entries and the registry of collections. SHA-256 is a parameter; the locks are dropped, as
  every operation holds them throughout. Heights and lifetimes are added with wrap-around.
\<close>

record private_data_collection =
  pc_name :: string
  pc_member_org_ids :: "string list"
  pc_required_peer_count :: nat
  pc_blocks_to_live :: u64

datatype private_data_error =
    EmptyName
  | NoMemberOrgs
  | NoPeersRequired
  | TooManyPeersRequired nat nat
  | AccessDenied string string

definition private_data_collection_new ::
    "string \<Rightarrow> string list \<Rightarrow> nat \<Rightarrow> u64 \<Rightarrow> private_data_error + private_data_collection" where
  "private_data_collection_new name member_org_ids required_peer_count blocks_to_live =
     (case checks [require (name \<noteq> []) EmptyName, require (member_org_ids \<noteq> []) NoMemberOrgs,
                   require (required_peer_count \<noteq> 0) NoPeersRequired,
                   require (required_peer_count \<le> length member_org_ids)
                     (TooManyPeersRequired required_peer_count (length member_org_ids))] of
        Inl e \<Rightarrow> Inl e
      | Inr _ \<Rightarrow> Inr \<lparr>pc_name = name, pc_member_org_ids = member_org_ids, pc_required_peer_count = required_peer_count,
                       pc_blocks_to_live = blocks_to_live\<rparr>)"

definition is_collection_member :: "private_data_collection \<Rightarrow> string \<Rightarrow> bool" where
  "is_collection_member c org_id \<longleftrightarrow> list_ex (\<lambda>i. i = org_id) (pc_member_org_ids c)"

section \<open>The store\<close>

type_synonym entry_key = "string \<times> string"

record memory_private_data_store =
  ms_data :: "(entry_key, bytes) hash_map"
  ms_ttl :: "(entry_key, u64 \<times> u64) hash_map"

definition memory_private_data_store_new :: memory_private_data_store where
  "memory_private_data_store_new = \<lparr>ms_data = [], ms_ttl = []\<rparr>"

definition put_private_data ::
    "sha256_fn \<Rightarrow> memory_private_data_store \<Rightarrow> entry_key \<Rightarrow> bytes \<Rightarrow> memory_private_data_store \<times> hash32" where
  "put_private_data sha s k v = (s\<lparr>ms_data := hm_insert k v (ms_data s)\<rparr>, sha v)"

definition put_private_data_at ::
    "sha256_fn \<Rightarrow> memory_private_data_store \<Rightarrow> entry_key \<Rightarrow> bytes \<Rightarrow> u64 \<Rightarrow> u64
      \<Rightarrow> memory_private_data_store \<times> hash32" where
  "put_private_data_at sha s k v written_at_height blocks_to_live =
     (case put_private_data sha s k v of
        (s', h) \<Rightarrow>
          (if blocks_to_live > 0 then s'\<lparr>ms_ttl := hm_insert k (written_at_height, blocks_to_live) (ms_ttl s')\<rparr> else s', h))"

definition get_private_data :: "memory_private_data_store \<Rightarrow> entry_key \<Rightarrow> bytes option" where
  "get_private_data s k = map_of (ms_data s) k"

definition purge_entry :: "memory_private_data_store \<Rightarrow> entry_key \<Rightarrow> memory_private_data_store" where
  "purge_entry s k = s\<lparr>ms_data := hm_remove k (ms_data s), ms_ttl := hm_remove k (ms_ttl s)\<rparr>"

definition purge_expired :: "memory_private_data_store \<Rightarrow> u64 \<Rightarrow> memory_private_data_store" where
  "purge_expired s current_height =
     foldl purge_entry s (map fst (filter (\<lambda>(k, written_at, btl). written_at + btl \<le> current_height) (ms_ttl s)))"

section \<open>The registry\<close>

type_synonym collection_registry = "(string, private_data_collection) hash_map"

definition collection_register :: "collection_registry \<Rightarrow> private_data_collection \<Rightarrow> collection_registry" where
  "collection_register r c = hm_insert (pc_name c) c r"

definition collection_get :: "collection_registry \<Rightarrow> string \<Rightarrow> private_data_collection option" where
  "collection_get r name = map_of r name"

definition collection_list :: "collection_registry \<Rightarrow> private_data_collection list" where
  "collection_list r = map snd r"

section \<open>Correctness\<close>

interpretation private_values: keyed_store
  get_private_data "\<lambda>s k v. fst (put_private_data sha s k v)" purge_entry for sha
  by unfold_locales (simp_all add: get_private_data_def put_private_data_def purge_entry_def)

lemma foldl_purge:
  "map_of (ms_data (foldl purge_entry s ks)) k = (if k \<in> set ks then None else map_of (ms_data s) k)"
  "map_of (ms_ttl (foldl purge_entry s ks)) k = (if k \<in> set ks then None else map_of (ms_ttl s) k)"
  by (induction ks arbitrary: s) (auto simp: purge_entry_def)

lemma hm_ok_foldl_purge: "hm_ok (ms_ttl s) \<Longrightarrow> hm_ok (ms_ttl (foldl purge_entry s ks))"
  by (induction ks arbitrary: s) (auto simp: purge_entry_def)

definition has_expired :: "memory_private_data_store \<Rightarrow> u64 \<Rightarrow> entry_key \<Rightarrow> bool" where
  "has_expired s height k \<longleftrightarrow> (\<exists>w b. map_of (ms_ttl s) k = Some (w, b) \<and> w + b \<le> height)"

lemma purge_expired_get:
  assumes "hm_ok (ms_ttl s)"
  shows "get_private_data (purge_expired s height) k = (if has_expired s height k then None else get_private_data s k)"
    and "map_of (ms_ttl (purge_expired s height)) k = (if has_expired s height k then None else map_of (ms_ttl s) k)"
    and "hm_ok (ms_ttl (purge_expired s height))"
proof -
  have keys: "k \<in> set (map fst (filter (\<lambda>(k, written_at, btl). written_at + btl \<le> height) (ms_ttl s))) \<longleftrightarrow> has_expired s height k"
    unfolding has_expired_def hm_entry_iff [OF assms, symmetric] by force
  show "get_private_data (purge_expired s height) k = (if has_expired s height k then None else get_private_data s k)"
    using keys by (simp add: purge_expired_def get_private_data_def foldl_purge)
  show "map_of (ms_ttl (purge_expired s height)) k = (if has_expired s height k then None else map_of (ms_ttl s) k)"
    using keys by (simp add: purge_expired_def foldl_purge)
  show "hm_ok (ms_ttl (purge_expired s height))" using assms by (simp add: purge_expired_def hm_ok_foldl_purge)
qed

lemma purges_keep:
  assumes "hm_ok (ms_ttl s)" and "map_of (ms_ttl s) k = Some (w, b)" and "\<forall>height \<in> set hs. height < w + b"
  shows "get_private_data (foldl purge_expired s hs) k = get_private_data s k \<and>
    map_of (ms_ttl (foldl purge_expired s hs)) k = Some (w, b) \<and> hm_ok (ms_ttl (foldl purge_expired s hs))"
  using assms
proof (induction hs arbitrary: s)
  case (Cons height hs)
  have "\<not> has_expired s height k" using Cons.prems by (auto simp: has_expired_def)
  then show ?case
    using Cons.IH [of "purge_expired s height"] Cons.prems purge_expired_get(1,2) [OF Cons.prems(1), of height k]
      purge_expired_get(3) [OF Cons.prems(1), of height] by simp
qed simp

text \<open>
  An entry lives exactly as long as it was written for: the value can be read back through any purges below the
  height at which its lifetime ends, it is gone after a purge at or above it, and the hash returned
  is that of the value.
\<close>

theorem private_value_lifetime:
  assumes "hm_ok (ms_ttl s)" and "0 < b" and "put_private_data_at sha s k v w b = (s', h)" and "\<forall>height \<in> set hs. height < w + b"
    and "w + b \<le> last_height"
  shows "h = sha v \<and> get_private_data (foldl purge_expired s' hs) k = Some v \<and>
    get_private_data (purge_expired (foldl purge_expired s' hs) last_height) k = None"
proof -
  have s': "h = sha v" "map_of (ms_ttl s') k = Some (w, b)" "get_private_data s' k = Some v" "hm_ok (ms_ttl s')"
    using assms(1-3) by (auto simp: put_private_data_at_def put_private_data_def get_private_data_def)
  note kept = purges_keep [OF s'(4,2) assms(4)]
  have "has_expired (foldl purge_expired s' hs) last_height k" using kept assms(5) by (auto simp: has_expired_def)
  then show ?thesis
    using s' kept purge_expired_get(1) [of "foldl purge_expired s' hs" last_height k] by simp
qed

text \<open>
  A lifetime outlives the value it was given for: a value written later without a lifetime, which should never
  expire, is purged when the lifetime of the value it replaced ends.
\<close>

theorem old_lifetime_purges_new_value:
  assumes "hm_ok (ms_ttl s)" and "0 < b" and "s1 = fst (put_private_data_at sha s k v w b)"
    and "s2 = fst (put_private_data_at sha s1 k v' w' 0)" and "w + b \<le> height"
  shows "get_private_data s2 k = Some v' \<and> get_private_data (purge_expired s2 height) k = None"
proof -
  have "hm_ok (ms_ttl s2)" "map_of (ms_ttl s2) k = Some (w, b)" "get_private_data s2 k = Some v'"
    using assms(1-4) by (auto simp: put_private_data_at_def put_private_data_def get_private_data_def)
  then show ?thesis using purge_expired_get(1) [of s2 height k] assms(5) by (auto simp: has_expired_def)
qed

end
