(* ===== verification/Ordering.thy ===== *)
theory Ordering
  imports Engine Merkle
begin

text \<open>
  The solo ordering service (\<open>src/ordering/mod.rs\<close> and \<open>service.rs\<close>): the queue of pending transactions,
  the cutting of blocks, their signatures and one round of the batch loop. SHA-256, the signing key, the
  signing provider, the clock and the block store are parameters; the metrics counter is left out.
  The raft back end, which wraps a library, is not modelled.
\<close>

section \<open>Signatures of blocks\<close>

record signing_provider =
  pr_algorithm :: signing_algorithm
  pr_sign :: "bytes \<Rightarrow> string + bytes"
  pr_verify :: "bytes \<Rightarrow> bytes \<Rightarrow> string + bool"

definition block_hash_for_signing :: "sha256_fn \<Rightarrow> storage_block \<Rightarrow> hash32" where
  "block_hash_for_signing sha b =
     sha (to_le_bytes (sb_height b) @ hash_bytes (sb_parent_hash b) @ hash_bytes (sb_merkle_root b))"

definition sign_block :: "sha256_fn \<Rightarrow> (bytes \<Rightarrow> bytes) \<Rightarrow> storage_block \<Rightarrow> storage_block" where
  "sign_block sha key b = b\<lparr>sb_orderer_signature := Some (key (hash_bytes (block_hash_for_signing sha b)))\<rparr>"

definition sign_block_with_provider :: "sha256_fn \<Rightarrow> signing_provider \<Rightarrow> storage_block \<Rightarrow> storage_block" where
  "sign_block_with_provider sha provider b =
     (case pr_sign provider (hash_bytes (block_hash_for_signing sha b)) of
        Inr sig \<Rightarrow> b\<lparr>sb_signature := sig, sb_signature_algorithm := pr_algorithm provider, sb_orderer_signature := Some sig\<rparr>
      | Inl _ \<Rightarrow> b)"

datatype block_signature_error =
    BadSignatureLength
  | BadOrdererSignature
  | AlgorithmMismatch signing_algorithm signing_algorithm
  | ProviderError string

definition verify_orderer_signature ::
    "sha256_fn \<Rightarrow> (bytes \<Rightarrow> bytes \<Rightarrow> bool) \<Rightarrow> storage_block \<Rightarrow> block_signature_error + bool" where
  "verify_orderer_signature sha orderer_verify b =
     (case sb_orderer_signature b of
        None \<Rightarrow> Inr False
      | Some sig \<Rightarrow>
          if length sig \<noteq> 64 then Inl BadSignatureLength
          else if orderer_verify (hash_bytes (block_hash_for_signing sha b)) sig then Inr True
          else Inl BadOrdererSignature)"

definition verify_block_signature :: "sha256_fn \<Rightarrow> signing_provider \<Rightarrow> storage_block \<Rightarrow> block_signature_error + bool" where
  "verify_block_signature sha provider b =
     (if sb_signature_algorithm b \<noteq> pr_algorithm provider
      then Inl (AlgorithmMismatch (sb_signature_algorithm b) (pr_algorithm provider))
      else if sb_signature b = [] then Inr False
      else (case pr_verify provider (hash_bytes (block_hash_for_signing sha b)) (sb_signature b) of
              Inl e \<Rightarrow> Inl (ProviderError e)
            | Inr ok \<Rightarrow> Inr ok))"

datatype node_role = Peer | Orderer | PeerAndOrderer

definition node_role_from_str :: "string \<Rightarrow> string + node_role" where
  "node_role_from_str s =
     (if s = ''peer'' then Inr Peer
      else if s = ''orderer'' then Inr Orderer
      else if s = '''' \<or> s = ''peerandorderer'' then Inr PeerAndOrderer
      else Inl s)"

section \<open>The ordering service\<close>

record ordering_service =
  os_pending_txs :: "transaction list"
  os_max_batch_size :: nat
  os_batch_timeout_ms :: u64
  os_signing_key :: "(bytes \<Rightarrow> bytes) option"
  os_signing_provider :: "signing_provider option"

definition with_config :: "nat \<Rightarrow> u64 \<Rightarrow> ordering_service" where
  "with_config max_batch_size batch_timeout_ms =
     \<lparr>os_pending_txs = [], os_max_batch_size = max_batch_size, os_batch_timeout_ms = batch_timeout_ms,
      os_signing_key = None, os_signing_provider = None\<rparr>"

definition submit_tx :: "ordering_service \<Rightarrow> transaction \<Rightarrow> ordering_service" where
  "submit_tx s tx = s\<lparr>os_pending_txs := os_pending_txs s @ [tx]\<rparr>"

definition submit_endorsed_tx :: "ordering_service \<Rightarrow> endorsed_transaction \<Rightarrow> ordering_service" where
  "submit_endorsed_tx s etx = s\<lparr>os_pending_txs := os_pending_txs s @ [tp_tx (et_proposal etx)]\<rparr>"

definition pending_count :: "ordering_service \<Rightarrow> nat" where
  "pending_count s = length (os_pending_txs s)"

definition cut_block ::
    "sha256_fn \<Rightarrow> u64 \<Rightarrow> ordering_service \<Rightarrow> u64 \<Rightarrow> string \<Rightarrow> ordering_service \<times> storage_block option" where
  "cut_block sha now s height proposer =
     (if os_pending_txs s = [] then (s, None)
      else
        let count = min (length (os_pending_txs s)) (os_max_batch_size s);
            tx_ids = map tx_id (take count (os_pending_txs s));
            s' = s\<lparr>os_pending_txs := drop count (os_pending_txs s)\<rparr>;
            block = \<lparr>sb_height = height, sb_timestamp = now, sb_parent_hash = 0, sb_merkle_root = 0,
                     sb_transactions = tx_ids, sb_proposer = proposer, sb_signature = replicate 64 0,
                     sb_signature_algorithm = Ed25519, sb_endorsements = [], sb_secondary_signature = None,
                     sb_secondary_signature_algorithm = None, sb_hash_algorithm = Sha256, sb_orderer_signature = None\<rparr> in
        (s', Some (case os_signing_provider s of
                     Some provider \<Rightarrow> sign_block_with_provider sha provider block
                   | None \<Rightarrow> (case os_signing_key s of Some key \<Rightarrow> sign_block sha key block | None \<Rightarrow> block))))"

text \<open>One iteration of \<open>run_batch_loop\<close>; a write that fails is only reported.\<close>

definition run_batch_step ::
    "sha256_fn \<Rightarrow> u64 \<Rightarrow> ordering_service \<times> 's block_store \<times> u64 \<Rightarrow> ordering_service \<times> 's block_store \<times> u64" where
  "run_batch_step sha now = (\<lambda>(s, store, height).
     case cut_block sha now s height ''orderer'' of
       (s', None) \<Rightarrow> (s', store, height)
     | (s', Some block) \<Rightarrow>
         (s', store\<lparr>bs_state := fst (bs_write store (bs_state store) block)\<rparr>, height + 1))"

section \<open>Order of the transactions\<close>

datatype ordering_event =
    Submitted transaction
  | SubmittedEndorsed endorsed_transaction
  | Cut u64 u64 string

fun event_ids :: "ordering_event \<Rightarrow> string list" where
  "event_ids (Submitted tx) = [tx_id tx]"
| "event_ids (SubmittedEndorsed etx) = [tx_id (tp_tx (et_proposal etx))]"
| "event_ids (Cut now height proposer) = []"

fun run_ordering :: "sha256_fn \<Rightarrow> ordering_service \<Rightarrow> ordering_event list \<Rightarrow> ordering_service \<times> storage_block list" where
  "run_ordering sha s [] = (s, [])"
| "run_ordering sha s (Submitted tx # evs) = run_ordering sha (submit_tx s tx) evs"
| "run_ordering sha s (SubmittedEndorsed etx # evs) = run_ordering sha (submit_endorsed_tx s etx) evs"
| "run_ordering sha s (Cut now height proposer # evs) =
     (case cut_block sha now s height proposer of
        (s', None) \<Rightarrow> run_ordering sha s' evs
      | (s', Some b) \<Rightarrow> map_prod id ((#) b) (run_ordering sha s' evs))"

lemma signing_keeps_contents [simp]:
  "sb_transactions (sign_block sha key b) = sb_transactions b"
  "sb_transactions (sign_block_with_provider sha provider b) = sb_transactions b"
  "block_hash_for_signing sha (sign_block sha key b) = block_hash_for_signing sha b"
  "block_hash_for_signing sha (sign_block_with_provider sha provider b) = block_hash_for_signing sha b"
  by (simp_all add: sign_block_def sign_block_with_provider_def block_hash_for_signing_def split: sum.split)

lemma cut_block_queue:
  "fst (cut_block sha now s height proposer) = s\<lparr>os_pending_txs := drop (os_max_batch_size s) (os_pending_txs s)\<rparr>"
  by (cases "os_pending_txs s = []") (auto simp: cut_block_def Let_def min_def)

lemma cut_block_block:
  "map_option sb_transactions (snd (cut_block sha now s height proposer)) =
     (if os_pending_txs s = [] then None else Some (map tx_id (take (os_max_batch_size s) (os_pending_txs s))))"
  by (auto simp: cut_block_def Let_def min_def split: option.split)

lemma run_ordering_fifo:
  "concat (map sb_transactions (snd (run_ordering sha s evs))) @ map tx_id (os_pending_txs (fst (run_ordering sha s evs))) =
     map tx_id (os_pending_txs s) @ concat (map event_ids evs)"
proof (induction sha s evs rule: run_ordering.induct)
  case (4 sha s now height proposer evs)
  obtain s' ob where cut: "cut_block sha now s height proposer = (s', ob)" by force
  have q: "os_pending_txs s' = drop (os_max_batch_size s) (os_pending_txs s)"
    using cut_block_queue [of sha now s height proposer] cut by simp
  note b = cut_block_block [of sha now s height proposer, unfolded cut]
  show ?case
  proof (cases ob)
    case None
    then have "os_pending_txs s = []" using b by (simp split: if_splits)
    then show ?thesis using 4(1) [OF cut [symmetric] None] cut None q by simp
  next
    case (Some blk)
    then have "sb_transactions blk = map tx_id (take (os_max_batch_size s) (os_pending_txs s))"
      using b by (simp split: if_splits)
    then show ?thesis
      using 4(2) [OF cut [symmetric] Some] cut Some q
      by (simp add: append_assoc) (metis append_assoc append_take_drop_id map_append)
  qed
qed (auto simp: submit_tx_def submit_endorsed_tx_def)

lemma run_ordering_batch:
  "os_max_batch_size (fst (run_ordering sha s evs)) = os_max_batch_size s \<and>
   list_all (\<lambda>b. length (sb_transactions b) \<le> os_max_batch_size s \<and>
     (0 < os_max_batch_size s \<longrightarrow> sb_transactions b \<noteq> [])) (snd (run_ordering sha s evs))"
proof (induction sha s evs rule: run_ordering.induct)
  case (4 sha s now height proposer evs)
  obtain s' ob where cut: "cut_block sha now s height proposer = (s', ob)" by force
  have q: "os_max_batch_size s' = os_max_batch_size s"
    using cut_block_queue [of sha now s height proposer] cut by simp
  note b = cut_block_block [of sha now s height proposer, unfolded cut]
  show ?case
  proof (cases ob)
    case None
    then show ?thesis using 4(1) [OF cut [symmetric] None] cut q by simp
  next
    case (Some blk)
    then have "os_pending_txs s \<noteq> []" "sb_transactions blk = map tx_id (take (os_max_batch_size s) (os_pending_txs s))"
      using b by (simp_all split: if_splits)
    then show ?thesis using 4(2) [OF cut [symmetric] Some] cut Some q by simp
  qed
qed (auto simp: submit_tx_def submit_endorsed_tx_def)

text \<open>
  The ordering service neither loses, repeats nor reorders transactions: after any sequence of
  submissions and cuts, the transactions of the blocks cut, in order, followed by those still
  pending are exactly the transactions submitted, in order; and every block holds at least one and at
  most a batch of them.
\<close>

theorem ordering_fifo:
  assumes "0 < n" and "run_ordering sha ((with_config n t)\<lparr>os_signing_key := key, os_signing_provider := provider\<rparr>) evs = (s, blocks)"
  shows "concat (map sb_transactions blocks) @ map tx_id (os_pending_txs s) = concat (map event_ids evs) \<and>
    list_all (\<lambda>b. sb_transactions b \<noteq> [] \<and> length (sb_transactions b) \<le> n) blocks"
  using run_ordering_fifo [of sha "(with_config n t)\<lparr>os_signing_key := key, os_signing_provider := provider\<rparr>" evs]
    run_ordering_batch [of sha "(with_config n t)\<lparr>os_signing_key := key, os_signing_provider := provider\<rparr>" evs] assms
  by (auto simp: with_config_def list_all_iff)

definition demo_tx :: "string \<Rightarrow> transaction" where
  "demo_tx i = \<lparr>tx_id = i, tx_block_height = 0, tx_timestamp = 0, tx_input_did = [], tx_output_recipient = [], tx_amount = 0,
     tx_state = []\<rparr>"

theorem ordering_fifo_witness:
  "map sb_transactions (snd (run_ordering demo_sha (with_config 2 2000)
     [Submitted (demo_tx ''a''), Submitted (demo_tx ''b''), Submitted (demo_tx ''c''), Cut 0 1 ''o'', Cut 0 2 ''o''])) =
     [[''a'', ''b''], [''c'']]"
proof -
  let ?evs = "[Submitted (demo_tx ''a''), Submitted (demo_tx ''b''), Submitted (demo_tx ''c''), Cut 0 1 ''o'', Cut 0 2 ''o'']"
  obtain s bs where run: "run_ordering demo_sha (with_config 2 2000) ?evs = (s, bs)" by force
  have same: "(with_config 2 2000)\<lparr>os_signing_key := None, os_signing_provider := None\<rparr> = with_config 2 2000"
    by (simp add: with_config_def)
  have "os_pending_txs s = [] \<and> length bs = 2 \<and> length (sb_transactions (hd bs)) = 2"
    using run by (auto simp: submit_tx_def with_config_def cut_block_def)
  moreover have "concat (map sb_transactions bs) @ map tx_id (os_pending_txs s) = [''a'', ''b'', ''c'']"
    using ordering_fifo [where n = 2 and t = 2000 and key = None and provider = None and evs = ?evs and sha = demo_sha] run by (simp add: same demo_tx_def)
  ultimately show ?thesis
    unfolding run by (auto simp: length_Suc_conv numeral_2_eq_2)
qed

text \<open>A node that keeps cutting empties its queue: after one cut per pending transaction nothing is pending.\<close>

theorem ordering_drains:
  assumes "0 < os_max_batch_size s" and "pending_count s \<le> length cuts"
  shows "pending_count (fst (run_ordering sha s (map (\<lambda>(now, height, proposer). Cut now height proposer) cuts))) = 0"
  using assms
proof (induction cuts arbitrary: s)
  case (Cons c cuts)
  obtain now height proposer where c: "c = (now, height, proposer)" by (cases c)
  obtain s' ob where cut: "cut_block sha now s height proposer = (s', ob)" by force
  have s': "s' = s\<lparr>os_pending_txs := drop (os_max_batch_size s) (os_pending_txs s)\<rparr>"
    using cut_block_queue [of sha now s height proposer] cut by simp
  then have "pending_count (fst (run_ordering sha s' (map (\<lambda>(now, height, proposer). Cut now height proposer) cuts))) = 0"
    using Cons.prems by (intro Cons.IH) (auto simp: pending_count_def)
  then show ?case using c cut by (cases ob) auto
qed (simp add: pending_count_def)

section \<open>What the signature covers\<close>

text \<open>A block signed by the provider of the service passes verification with that provider.\<close>

theorem cut_block_verifies:
  assumes "os_signing_provider s = Some p" and "cut_block sha now s height proposer = (s', Some b)"
    and "\<And>m. \<exists>sig. pr_sign p m = Inr sig \<and> sig \<noteq> [] \<and> pr_verify p m sig = Inr True"
  shows "verify_block_signature sha p b = Inr True"
proof -
  obtain blk where b: "b = sign_block_with_provider sha p blk"
    using assms(1,2) by (auto simp: cut_block_def Let_def split: if_splits)
  obtain sig where "pr_sign p (hash_bytes (block_hash_for_signing sha blk)) = Inr sig" "sig \<noteq> []"
      "pr_verify p (hash_bytes (block_hash_for_signing sha blk)) sig = Inr True"
    using assms(3) by blast
  then show ?thesis unfolding b
    by (simp add: verify_block_signature_def) (simp add: sign_block_with_provider_def)
qed

text \<open>
  The signature of a block does not cover its transactions: the Merkle root is left zero, so any two blocks
  cut for one height, with whatever transactions, have the same signed bytes, and the signature of
  one is valid on the other.
\<close>

theorem signature_covers_no_transactions:
  assumes "cut_block sha now s height proposer = (s', Some b)" and "cut_block sha now' t height proposer' = (t', Some b')"
  shows "verify_orderer_signature sha ver (b'\<lparr>sb_orderer_signature := sb_orderer_signature b\<rparr>) = verify_orderer_signature sha ver b"
proof -
  have fields: "sb_height c = height \<and> sb_parent_hash c = 0 \<and> sb_merkle_root c = 0"
    if "cut_block sha n u height p = (u', Some c)" for n u p u' c
    using that by (auto simp: cut_block_def Let_def sign_block_with_provider_def sign_block_def
        split: if_splits option.splits sum.splits)
  show ?thesis
    using fields [OF assms(1)] fields [OF assms(2)]
    by (cases "sb_orderer_signature b") (simp_all add: verify_orderer_signature_def block_hash_for_signing_def)
qed

text \<open>
  When the store refuses a block, the batch loop goes on: the transactions of the block are no longer pending,
  are not stored, and the next block has the height after the missing one.
\<close>

theorem failed_write_loses_batch:
  assumes "os_pending_txs s \<noteq> []" and "\<And>b. fst (bs_write store (bs_state store) b) = bs_state store"
    and "run_batch_step sha now (s, store, height) = (s', store', height')"
  shows "os_pending_txs s' = drop (os_max_batch_size s) (os_pending_txs s) \<and> store' = store \<and> height' = height + 1"
  using assms cut_block_queue [of sha now s height "''orderer''"] cut_block_block [of sha now s height "''orderer''"]
  by (auto simp: run_batch_step_def split: prod.splits option.splits)

end
