(* ===== verification/Discovery.thy ===== *)
theory Discovery
  imports Ordering
begin

text \<open>
  Peer discovery (\<open>src/discovery/service.rs\<close>): the registry of peers and the plan of endorsers for a
  chaincode. The policy store is the look-up function behind the trait; the metrics gauge is left out.
  The registry is a hash map, and the candidate kept for an organization is the first one met in the order of the
  list, any order being possible in the source.
\<close>

section \<open>The service\<close>

record peer_descriptor =
  pd_peer_address :: string
  pd_org_id :: string
  pd_role :: node_role
  pd_chaincodes :: "string list"
  pd_channels :: "string list"
  pd_last_heartbeat :: u64

datatype discovery_error = PeerNotFound string | PolicyNotFound string | InsufficientPeers

record discovery_service =
  ds_peers :: "(string, peer_descriptor) hash_map"
  ds_get_policy :: "string \<Rightarrow> storage_error + endorsement_policy"

definition discovery_service_new :: "(string \<Rightarrow> storage_error + endorsement_policy) \<Rightarrow> discovery_service" where
  "discovery_service_new policies = \<lparr>ds_peers = [], ds_get_policy = policies\<rparr>"

definition register_peer :: "discovery_service \<Rightarrow> peer_descriptor \<Rightarrow> discovery_service" where
  "register_peer d desc = d\<lparr>ds_peers := hm_insert (pd_peer_address desc) desc (ds_peers d)\<rparr>"

definition unregister_peer :: "discovery_service \<Rightarrow> string \<Rightarrow> discovery_service \<times> (discovery_error + unit)" where
  "unregister_peer d address =
     (case map_of (ds_peers d) address of
        None \<Rightarrow> (d, Inl (PeerNotFound address))
      | Some _ \<Rightarrow> (d\<lparr>ds_peers := hm_remove address (ds_peers d)\<rparr>, Inr ()))"

definition heartbeat :: "discovery_service \<Rightarrow> string \<Rightarrow> u64 \<Rightarrow> discovery_service \<times> (discovery_error + unit)" where
  "heartbeat d address timestamp =
     (case map_of (ds_peers d) address of
        None \<Rightarrow> (d, Inl (PeerNotFound address))
      | Some p \<Rightarrow> (d\<lparr>ds_peers := hm_insert address (p\<lparr>pd_last_heartbeat := timestamp\<rparr>) (ds_peers d)\<rparr>, Inr ()))"

definition channel_peers :: "discovery_service \<Rightarrow> string \<Rightarrow> peer_descriptor list" where
  "channel_peers d channel_id = filter (\<lambda>p. list_ex (\<lambda>ch. ch = channel_id) (pd_channels p)) (map snd (ds_peers d))"

definition all_peers :: "discovery_service \<Rightarrow> peer_descriptor list" where
  "all_peers d = map snd (ds_peers d)"

fun required_orgs_for_policy ::
    "endorsement_policy \<Rightarrow> (string, peer_descriptor) hash_map \<Rightarrow> discovery_error + string list" where
  "required_orgs_for_policy (AnyOf orgs) available =
     (case find (\<lambda>o'. hm_contains o' available) orgs of Some o' \<Rightarrow> Inr [o'] | None \<Rightarrow> Inl InsufficientPeers)"
| "required_orgs_for_policy (AllOf orgs) available =
     (let covered = filter (\<lambda>o'. hm_contains o' available) orgs in
      if length covered = length orgs then Inr covered else Inl InsufficientPeers)"
| "required_orgs_for_policy (NOutOf n orgs) available =
     (let covered = take n (filter (\<lambda>o'. hm_contains o' available) orgs) in
      if n \<le> length covered then Inr covered else Inl InsufficientPeers)"
| "required_orgs_for_policy (AndPolicy a b) available =
     (case required_orgs_for_policy a available of
        Inl e \<Rightarrow> Inl e
      | Inr orgs_a \<Rightarrow>
          (case required_orgs_for_policy b available of
             Inl e \<Rightarrow> Inl e
           | Inr orgs_b \<Rightarrow> Inr (orgs_a @ filter (\<lambda>o'. o' \<notin> set orgs_a) orgs_b)))"
| "required_orgs_for_policy (OrPolicy a b) available =
     (case (required_orgs_for_policy a available, required_orgs_for_policy b available) of
        (Inr la, Inr lb) \<Rightarrow> Inr (if length la \<le> length lb then la else lb)
      | (Inr la, Inl _) \<Rightarrow> Inr la
      | (Inl _, Inr lb) \<Rightarrow> Inr lb
      | (Inl e, Inl _) \<Rightarrow> Inl e)"
| "required_orgs_for_policy (OuBased ou_ids min_count) available =
     (let covered = take min_count (filter (\<lambda>o'. hm_contains o' available) ou_ids) in
      if min_count \<le> length covered then Inr covered else Inl InsufficientPeers)"

definition plan_candidates :: "discovery_service \<Rightarrow> string \<Rightarrow> string \<Rightarrow> peer_descriptor list" where
  "plan_candidates d chaincode_id channel_id =
     filter (\<lambda>p. list_ex (\<lambda>c. c = chaincode_id) (pd_chaincodes p) \<and> list_ex (\<lambda>ch. ch = channel_id) (pd_channels p))
       (map snd (ds_peers d))"

definition org_to_peer :: "peer_descriptor list \<Rightarrow> (string, peer_descriptor) hash_map" where
  "org_to_peer candidates =
     foldl (\<lambda>m p. if hm_contains (pd_org_id p) m then m else hm_insert (pd_org_id p) p m) [] candidates"

definition endorsement_plan :: "discovery_service \<Rightarrow> string \<Rightarrow> string \<Rightarrow> discovery_error + peer_descriptor list" where
  "endorsement_plan d chaincode_id channel_id =
     (let resource_id = channel_id @ ''/'' @ chaincode_id in
      case ds_get_policy d resource_id of
        Inl _ \<Rightarrow> Inl (PolicyNotFound resource_id)
      | Inr policy \<Rightarrow>
          let available = org_to_peer (plan_candidates d chaincode_id channel_id) in
          (case required_orgs_for_policy policy available of
             Inl e \<Rightarrow> Inl e
           | Inr required_orgs \<Rightarrow> Inr (List.map_filter (map_of available) required_orgs)))"

section \<open>Plans and policies\<close>

lemma length_filter_mono: "(\<And>x. x \<in> set xs \<Longrightarrow> P x \<Longrightarrow> Q x) \<Longrightarrow> length (filter P xs) \<le> length (filter Q xs)"
  by (induction xs) (auto simp: le_SucI)

lemma evaluate_mono: "evaluate p xs \<Longrightarrow> set xs \<subseteq> set ys \<Longrightarrow> evaluate p ys"
proof (induction p)
  case (NOutOf n orgs)
  have "length (filter (List.member xs) orgs) \<le> length (filter (List.member ys) orgs)"
    using NOutOf.prems(2) by (intro length_filter_mono) auto
  then show ?case using NOutOf.prems(1) by simp
next
  case (OuBased orgs n)
  have "length (filter (List.member xs) orgs) \<le> length (filter (List.member ys) orgs)"
    using OuBased.prems(2) by (intro length_filter_mono) auto
  then show ?case using OuBased.prems(1) by simp
qed (auto simp: list_ex_iff list_all_iff)

lemma filter_covers: "length (take n (filter P xs)) \<le> length (filter (List.member (take n (filter P xs))) xs)"
proof -
  let ?l = "take n (filter P xs)"
  have "?l = filter (List.member ?l) ?l" by (intro filter_True [symmetric]) simp
  then have "length ?l = length (filter (List.member ?l) ?l)" by (rule arg_cong)
  also have "\<dots> \<le> length (filter (List.member ?l) (?l @ drop n (filter P xs)))" by (simp only: filter_append length_append)
  also have "\<dots> = length (filter (\<lambda>x. P x \<and> List.member ?l x) xs)"
    by (simp only: append_take_drop_id filter_filter)
  also have "\<dots> \<le> length (filter (List.member ?l) xs)" by (rule length_filter_mono) simp
  finally show ?thesis .
qed

text \<open>A plan is found exactly when the organizations that have a candidate satisfy the policy, and satisfies it.\<close>

lemma required_orgs_sound:
  "required_orgs_for_policy p available = Inr orgs \<Longrightarrow> evaluate p orgs \<and> (\<forall>o' \<in> set orgs. hm_contains o' available)"
proof (induction p arbitrary: orgs)
  case (AnyOf os)
  then obtain o' where "find (\<lambda>o'. hm_contains o' available) os = Some o'" and orgs: "orgs = [o']" by (auto split: option.splits)
  then have "o' \<in> set os" "hm_contains o' available" by (auto simp: find_Some_iff)
  then show ?case by (auto simp: orgs list_ex_iff)
next
  case (AllOf os)
  then have len: "length (filter (\<lambda>o'. hm_contains o' available) os) = length os" and orgs: "orgs = filter (\<lambda>o'. hm_contains o' available) os"
    by (simp_all add: Let_def split: if_splits)
  have all: "\<forall>o' \<in> set os. hm_contains o' available" using len length_filter_less [of _ os] by (metis nat_neq_iff)
  then have "orgs = os" using orgs by simp
  then show ?case using all by (simp add: list_all_iff)
next
  case (NOutOf n os)
  then show ?case
    using filter_covers [of n "\<lambda>o'. hm_contains o' available" os]
    by (auto simp: Let_def split: if_splits dest!: in_set_takeD)
next
  case (OuBased os n)
  then show ?case
    using filter_covers [of n "\<lambda>o'. hm_contains o' available" os]
    by (auto simp: Let_def split: if_splits dest!: in_set_takeD)
next
  case (AndPolicy a b)
  then obtain la lb where l: "required_orgs_for_policy a available = Inr la" "required_orgs_for_policy b available = Inr lb"
      "orgs = la @ filter (\<lambda>o'. o' \<notin> set la) lb"
    by (auto split: sum.splits)
  have "set la \<subseteq> set orgs" "set lb \<subseteq> set orgs" using l(3) by auto
  then show ?case using AndPolicy.IH(1) [OF l(1)] AndPolicy.IH(2) [OF l(2)] l(3) evaluate_mono by auto
next
  case (OrPolicy a b)
  then show ?case by (auto split: sum.splits if_splits)
qed

lemma required_orgs_complete:
  assumes "evaluate p xs" and "\<forall>x \<in> set xs. hm_contains x available"
  shows "\<exists>orgs. required_orgs_for_policy p available = Inr orgs"
  using assms(1)
proof (induction p)
  case (AnyOf os)
  then have "find (\<lambda>o'. hm_contains o' available) os \<noteq> None"
    using assms(2) by (auto simp: find_None_iff list_ex_iff)
  then show ?case by auto
next
  case (AllOf os)
  then have "filter (\<lambda>o'. hm_contains o' available) os = os"
    using assms(2) by (auto simp: filter_id_conv list_all_iff)
  then show ?case by simp
next
  case (NOutOf n os)
  have "length (filter (List.member xs) os) \<le> length (filter (\<lambda>o'. hm_contains o' available) os)"
    using assms(2) by (intro length_filter_mono) auto
  then show ?case using NOutOf by auto
next
  case (OuBased os n)
  have "length (filter (List.member xs) os) \<le> length (filter (\<lambda>o'. hm_contains o' available) os)"
    using assms(2) by (intro length_filter_mono) auto
  then show ?case using OuBased by auto
next
  case (AndPolicy a b)
  then show ?case by auto
next
  case (OrPolicy a b)
  then show ?case by (auto split: sum.splits)
qed

lemma required_orgs_error: "required_orgs_for_policy p available = Inl e \<Longrightarrow> e = InsufficientPeers"
  by (induction p arbitrary: e) (auto simp: Let_def split: option.splits if_splits sum.splits)

lemma org_to_peer_inv:
  "map_of (org_to_peer ps) o' = find (\<lambda>p. pd_org_id p = o') ps"
proof (induction ps rule: rev_induct)
  case (snoc p ps)
  have "find Q (ps @ [p]) = (case find Q ps of Some q \<Rightarrow> Some q | None \<Rightarrow> if Q p then Some p else None)" for Q
    by (induction ps) auto
  then show ?case using snoc by (auto simp: org_to_peer_def hm_contains_def split: option.split)
qed (simp add: org_to_peer_def)

lemma org_to_peer_get:
  assumes "map_of (org_to_peer ps) o' = Some p"
  shows "pd_org_id p = o' \<and> p \<in> set ps"
  using assms by (auto simp: org_to_peer_inv find_Some_iff)

lemma org_to_peer_contains: "hm_contains o' (org_to_peer ps) \<longleftrightarrow> o' \<in> pd_org_id ` set ps"
  by (auto simp: hm_contains_def org_to_peer_inv find_None_iff)

text \<open>
  C32: the plan of endorsers is right and complete: when discovery returns peers, each is a candidate (registered, on
  the channel, with the chaincode) and their organizations satisfy the policy; and it reports
  insufficient peers only when no set of candidates could satisfy it.
\<close>

theorem endorsement_plan_correct:
  assumes "ds_get_policy d (channel @ ''/'' @ chaincode) = Inr policy"
  shows "case endorsement_plan d chaincode channel of
      Inr peers \<Rightarrow> set peers \<subseteq> set (plan_candidates d chaincode channel) \<and> evaluate policy (map pd_org_id peers)
    | Inl e \<Rightarrow> e = InsufficientPeers \<and>
        (\<forall>peers. set peers \<subseteq> set (plan_candidates d chaincode channel) \<longrightarrow> \<not> evaluate policy (map pd_org_id peers))"
proof -
  let ?cs = "plan_candidates d chaincode channel"
  let ?av = "org_to_peer ?cs"
  show ?thesis
  proof (cases "required_orgs_for_policy policy ?av")
    case (Inl e)
    have "\<not> evaluate policy (map pd_org_id peers)" if "set peers \<subseteq> set ?cs" for peers
    proof
      assume "evaluate policy (map pd_org_id peers)"
      moreover have "\<forall>x \<in> set (map pd_org_id peers). hm_contains x ?av"
        using that by (auto simp: org_to_peer_contains)
      ultimately show False using required_orgs_complete Inl by fastforce
    qed
    then show ?thesis using Inl assms required_orgs_error [OF Inl] by (simp add: endorsement_plan_def Let_def)
  next
    case (Inr orgs)
    have ok: "evaluate policy orgs" "\<forall>o' \<in> set orgs. hm_contains o' ?av"
      using required_orgs_sound [OF Inr] by auto
    have "map pd_org_id (List.map_filter (map_of ?av) orgs) = orgs"
      using ok(2) by (induction orgs) (auto simp: map_filter_simps hm_contains_def dest: org_to_peer_get)
    moreover have "set (List.map_filter (map_of ?av) orgs) \<subseteq> set ?cs"
      by (auto simp: in_map_filter dest: org_to_peer_get)
    ultimately show ?thesis using Inr assms ok(1) by (simp add: endorsement_plan_def Let_def)
  qed
qed

definition demo_peer :: "string \<Rightarrow> string \<Rightarrow> peer_descriptor" where
  "demo_peer address org = \<lparr>pd_peer_address = address, pd_org_id = org, pd_role = Peer, pd_chaincodes = [''cc''], pd_channels = [''ch''],
     pd_last_heartbeat = 0\<rparr>"

definition demo_discovery :: "endorsement_policy \<Rightarrow> discovery_service" where
  "demo_discovery p =
     foldl register_peer (discovery_service_new (\<lambda>r. if r = ''ch/cc'' then Inr p else Inl (KeyNotFound r)))
       [demo_peer ''p1'' ''a'', demo_peer ''p2'' ''b'', demo_peer ''p3'' ''b'']"

lemmas demo_discovery_simps = demo_discovery_def demo_peer_def discovery_service_new_def register_peer_def
  endorsement_plan_def plan_candidates_def org_to_peer_def hm_contains_def hm_insert_def map_filter_simps Let_def

theorem endorsement_plan_correct_witness:
  "endorsement_plan (demo_discovery (NOutOf 2 [''a'', ''b''])) ''cc'' ''ch'' = Inr [demo_peer ''p1'' ''a'', demo_peer ''p2'' ''b''] \<and>
   evaluate (NOutOf 2 [''a'', ''b'']) (map pd_org_id [demo_peer ''p1'' ''a'', demo_peer ''p2'' ''b''])"
proof -
  have plan: "endorsement_plan (demo_discovery (NOutOf 2 [''a'', ''b''])) ''cc'' ''ch'' =
      Inr [demo_peer ''p1'' ''a'', demo_peer ''p2'' ''b'']"
    by (simp add: demo_discovery_simps)
  have "ds_get_policy (demo_discovery (NOutOf 2 [''a'', ''b''])) (''ch'' @ ''/'' @ ''cc'') = Inr (NOutOf 2 [''a'', ''b''])"
    by (simp add: demo_discovery_simps)
  from endorsement_plan_correct [OF this] show ?thesis unfolding plan by simp
qed

text \<open>
  The plan need not be the minimum set that the comment on \<open>endorsement_plan\<close> promises: for a conjunction the two
  sub-plans are chosen apart, and here two peers are asked although one of them would do.
\<close>

theorem endorsement_plan_not_minimum:
  "endorsement_plan (demo_discovery (AndPolicy (AnyOf [''a'', ''b'']) (AnyOf [''b'']))) ''cc'' ''ch'' =
     Inr [demo_peer ''p1'' ''a'', demo_peer ''p2'' ''b''] \<and>
   evaluate (AndPolicy (AnyOf [''a'', ''b'']) (AnyOf [''b''])) [''b'']"
  by (simp add: demo_discovery_simps)

end
