(* ===== verification/Gateway.thy ===== *)
theory Gateway
  imports Discovery Executor
begin

text \<open>
  The gateway (\<open>src/gateway/mod.rs\<close>), which takes a transaction through endorsement, ordering and commit, with the
  traits it calls as records of operations: the ordering back end, the block store and the world state. Their contracts
  are the locales \<open>ordering_contract\<close> and \<open>block_store_contract\<close>, interpreted for the solo orderer and for the part
  of the in-memory store (\<open>src/storage/memory.rs\<close>) that holds blocks and transactions.

  The WebAssembly executor and the reply of a peer to a proposal are parameters. One call of the gateway is one step: the awaits
  inside it are not interleaved with other calls. Events and broadcast blocks are appended to logs.
\<close>

section \<open>Ordering back ends and block stores\<close>

record 'o ordering_backend =
  ob_submit_tx :: "'o \<Rightarrow> transaction \<Rightarrow> 'o \<times> (storage_error + unit)"
  ob_cut_block :: "'o \<Rightarrow> u64 \<Rightarrow> string \<Rightarrow> 'o \<times> (storage_error + storage_block option)"

definition solo_backend :: "sha256_fn \<Rightarrow> u64 \<Rightarrow> ordering_service ordering_backend" where
  "solo_backend sha now =
     \<lparr>ob_submit_tx = (\<lambda>s tx. (submit_tx s tx, Inr ())),
      ob_cut_block = (\<lambda>s height proposer. map_prod id Inr (cut_block sha now s height proposer))\<rparr>"

record 'b block_store_ops =
  bo_write_block :: "'b \<Rightarrow> storage_block \<Rightarrow> 'b \<times> (storage_error + unit)"
  bo_write_transaction :: "'b \<Rightarrow> transaction \<Rightarrow> 'b \<times> (storage_error + unit)"
  bo_get_latest_height :: "'b \<Rightarrow> storage_error + u64"

record memory_store =
  mst_blocks :: "(u64, storage_block) hash_map"
  mst_transactions :: "(string, transaction) hash_map"
  mst_latest_height :: u64

definition memory_store_new :: memory_store where
  "memory_store_new = \<lparr>mst_blocks = [], mst_transactions = [], mst_latest_height = 0\<rparr>"

definition write_block :: "memory_store \<Rightarrow> storage_block \<Rightarrow> memory_store \<times> (storage_error + unit)" where
  "write_block s b =
     (if hm_contains (sb_height b) (mst_blocks s)
      then (s, Inl (OtherStorageError (''block at height '' @ show_u64 (sb_height b) @ '' already committed'')))
      else (s\<lparr>mst_latest_height := (if sb_height b > mst_latest_height s then sb_height b else mst_latest_height s),
              mst_blocks := hm_insert (sb_height b) b (mst_blocks s)\<rparr>, Inr ()))"

definition zero_pad :: "nat \<Rightarrow> string \<Rightarrow> string" where
  "zero_pad n s = replicate (n - length s) (CHR ''0'') @ s"

definition read_block :: "memory_store \<Rightarrow> u64 \<Rightarrow> storage_error + storage_block" where
  "read_block s height =
     (case map_of (mst_blocks s) height of Some b \<Rightarrow> Inr b | None \<Rightarrow> Inl (KeyNotFound (''BLK:'' @ zero_pad 12 (show_u64 height))))"

definition write_transaction :: "memory_store \<Rightarrow> transaction \<Rightarrow> memory_store \<times> (storage_error + unit)" where
  "write_transaction s t = (s\<lparr>mst_transactions := hm_insert (tx_id t) t (mst_transactions s)\<rparr>, Inr ())"


definition get_latest_height :: "memory_store \<Rightarrow> storage_error + u64" where
  "get_latest_height s = Inr (mst_latest_height s)"

definition block_exists :: "memory_store \<Rightarrow> u64 \<Rightarrow> storage_error + bool" where
  "block_exists s height = Inr (hm_contains height (mst_blocks s))"

definition transactions_by_block_height :: "memory_store \<Rightarrow> u64 \<Rightarrow> storage_error + transaction list" where
  "transactions_by_block_height s height = Inr (filter (\<lambda>t. tx_block_height t = height) (map snd (mst_transactions s)))"

fun write_each :: "('b \<Rightarrow> 'a \<Rightarrow> 'b \<times> (storage_error + unit)) \<Rightarrow> 'b \<Rightarrow> 'a list \<Rightarrow> 'b \<times> (storage_error + unit)" where
  "write_each f s [] = (s, Inr ())"
| "write_each f s (x # xs) = (case f s x of (s', Inl e) \<Rightarrow> (s', Inl e) | (s', Inr _) \<Rightarrow> write_each f s' xs)"

definition write_batch :: "memory_store \<Rightarrow> storage_block list \<Rightarrow> transaction list \<Rightarrow> memory_store \<times> (storage_error + unit)" where
  "write_batch s blocks txs =
     (if blocks = [] \<and> txs = [] then (s, Inl (BatchOperationFailed ''Empty batch''))
      else (case write_each write_block s blocks of
              (s', Inl e) \<Rightarrow> (s', Inl e)
            | (s', Inr _) \<Rightarrow> write_each write_transaction s' txs))"

definition memory_block_store :: "memory_store block_store_ops" where
  "memory_block_store =
     \<lparr>bo_write_block = write_block, bo_write_transaction = write_transaction, bo_get_latest_height = get_latest_height\<rparr>"

section \<open>The gateway\<close>

datatype gateway_error =
    PolicyNotSatisfied string
  | NoDiscoveryService
  | NoP2pNode
  | PlanFailed discovery_error
  | PeerFailed string string
  | UnexpectedResponse string
  | RwsetMismatch nat
  | SimulationFailed string
  | OrderingFailed storage_error
  | NoBlockCut
  | StorageFailed storage_error
  | WorldStateRequired

record tx_result =
  tr_tx_id :: string
  tr_block_height :: u64
  tr_valid :: bool

record batch_tx_result =
  br_block_height :: u64
  br_committed_count :: nat
  br_conflict_count :: nat
  br_wave_count :: nat
  br_parallelism_ratio :: rat
  br_outcomes :: "(string \<times> tx_outcome) list"

datatype block_event =
    BlockCommitted string u64 nat
  | TransactionCommitted string string u64 bool

record proposal_request =
  rq_request_id :: string
  rq_chaincode_id :: string
  rq_function :: string
  rq_channel_id :: string
  rq_proposal :: transaction_proposal

datatype peer_message = ProposalResponse read_write_set endorsement | OtherMessage

record ('o, 'b, 'w) gateway =
  gw_list_orgs :: "storage_error + organization list"
  gw_get_policy :: "string \<Rightarrow> storage_error + endorsement_policy"
  gw_ordering_service :: "'o ordering_backend"
  gw_store :: "'b block_store_ops"
  gw_discovery_service :: "discovery_service option"
  gw_event_bus :: bool
  gw_wasm_executor :: "('w \<Rightarrow> string \<Rightarrow> string + bytes \<times> read_write_set) option"
  gw_world_state :: "'w world_state_ops option"
  gw_key_endorsement_store :: "(string \<Rightarrow> storage_error + endorsement_policy option) option"
  gw_p2p_node :: "(string \<Rightarrow> proposal_request \<Rightarrow> string + peer_message) option"

text \<open>What the components behind the gateway hold, and the logs of events and broadcast blocks.\<close>

record ('o, 'b, 'w) gateway_state =
  gs_ordering :: 'o
  gs_store :: 'b
  gs_world :: 'w
  gs_events :: "block_event list"
  gs_broadcast :: "storage_block list"

definition registered_org_ids :: "('o, 'b, 'w) gateway \<Rightarrow> string list" where
  "registered_org_ids gw = map og_org_id (case gw_list_orgs gw of Inr orgs \<Rightarrow> orgs | Inl _ \<Rightarrow> [])"

definition self_endorse :: "('o, 'b, 'w) gateway \<Rightarrow> string \<Rightarrow> gateway_error + unit" where
  "self_endorse gw chaincode_id =
     (case gw_get_policy gw chaincode_id of
        Inl _ \<Rightarrow> Inr ()
      | Inr p \<Rightarrow>
          let org_ids = registered_org_ids gw;
              satisfied =
                (case p of
                   AndPolicy _ _ \<Rightarrow> evaluate p org_ids
                 | OrPolicy _ _ \<Rightarrow> evaluate p org_ids
                 | AnyOf orgs \<Rightarrow> list_ex (\<lambda>o'. List.member org_ids o') orgs
                 | AllOf orgs \<Rightarrow> list_all (\<lambda>o'. List.member org_ids o') orgs
                 | NOutOf n orgs \<Rightarrow> length (filter (\<lambda>o'. List.member org_ids o') orgs) \<ge> n
                 | OuBased _ _ \<Rightarrow> evaluate p org_ids) in
          if satisfied then Inr () else Inl (PolicyNotSatisfied chaincode_id))"

definition validate_key_policies_for_rwset ::
    "('o, 'b, 'w) gateway \<Rightarrow> string \<Rightarrow> read_write_set \<Rightarrow> gateway_error + unit" where
  "validate_key_policies_for_rwset gw chaincode_id rwset =
     (case gw_key_endorsement_store gw of
        None \<Rightarrow> Inr ()
      | Some kep_store \<Rightarrow>
          checks (map (\<lambda>w. case kep_store (kw_key w) of
                              Inr (Some policy) \<Rightarrow> require (evaluate policy (registered_org_ids gw))
                                (PolicyNotSatisfied (chaincode_id @ ''/'' @ kw_key w))
                            | _ \<Rightarrow> Inr ()) (rw_writes rwset)))"

definition empty_proposal :: transaction_proposal where
  "empty_proposal =
     \<lparr>tp_tx = \<lparr>tx_id = [], tx_block_height = 0, tx_timestamp = 0, tx_input_did = [], tx_output_recipient = [], tx_amount = 0, tx_state = []\<rparr>,
      tp_creator_did = [], tp_creator_signature = replicate 64 0, tp_signature_algorithm = Ed25519,
      tp_rwset = \<lparr>rw_reads = [], rw_writes = []\<rparr>\<rparr>"

fun ask_endorsers ::
    "(string \<Rightarrow> proposal_request \<Rightarrow> string + peer_message) \<Rightarrow> string \<Rightarrow> string \<Rightarrow> peer_descriptor list
      \<Rightarrow> gateway_error + (read_write_set \<times> endorsement) list" where
  "ask_endorsers send_and_wait chaincode_id channel_id [] = Inr []"
| "ask_endorsers send_and_wait chaincode_id channel_id (peer # peers) =
     (let msg = \<lparr>rq_request_id = chaincode_id @ ''-'' @ pd_peer_address peer, rq_chaincode_id = chaincode_id,
                 rq_function = ''invoke'', rq_channel_id = channel_id, rq_proposal = empty_proposal\<rparr> in
      case send_and_wait (pd_peer_address peer) msg of
        Inl e \<Rightarrow> Inl (PeerFailed (pd_peer_address peer) e)
      | Inr (ProposalResponse rwset e) \<Rightarrow>
          (case ask_endorsers send_and_wait chaincode_id channel_id peers of
             Inl err \<Rightarrow> Inl err
           | Inr rest \<Rightarrow> Inr ((rwset, e) # rest))
      | Inr OtherMessage \<Rightarrow> Inl (UnexpectedResponse (pd_peer_address peer)))"

definition collect_endorsements ::
    "('o, 'b, 'w) gateway \<Rightarrow> string \<Rightarrow> string \<Rightarrow> gateway_error + read_write_set \<times> endorsement list" where
  "collect_endorsements gw chaincode_id channel_id =
     (case gw_discovery_service gw of
        None \<Rightarrow> Inl NoDiscoveryService
      | Some discovery \<Rightarrow>
     (case gw_p2p_node gw of
        None \<Rightarrow> Inl NoP2pNode
      | Some send_and_wait \<Rightarrow>
     (case endorsement_plan discovery chaincode_id channel_id of
        Inl e \<Rightarrow> Inl (PlanFailed e)
      | Inr endorsers \<Rightarrow>
     (case ask_endorsers send_and_wait chaincode_id channel_id endorsers of
        Inl e \<Rightarrow> Inl e
      | Inr [] \<Rightarrow> Inr (\<lparr>rw_reads = [], rw_writes = []\<rparr>, [])
      | Inr ((reference, e) # rest) \<Rightarrow>
          (case position_of (\<lambda>(rwset, _). rwset \<noteq> reference) rest of
             Some i \<Rightarrow> Inl (RwsetMismatch (i + 1))
           | None \<Rightarrow> Inr (reference, e # map snd rest))))))"

definition local_simulation ::
    "('o, 'b, 'w) gateway \<Rightarrow> 'w \<Rightarrow> string \<Rightarrow> gateway_error + read_write_set option" where
  "local_simulation gw w chaincode_id =
     (case (gw_wasm_executor gw, gw_world_state gw) of
        (Some simulate, Some _) \<Rightarrow>
          (case simulate w ''invoke'' of
             Inl e \<Rightarrow> Inl (SimulationFailed e)
           | Inr (_, rwset) \<Rightarrow>
               (case validate_key_policies_for_rwset gw chaincode_id rwset of
                  Inl e \<Rightarrow> Inl e
                | Inr _ \<Rightarrow> Inr (Some rwset)))
      | _ \<Rightarrow> Inr None)"

definition endorse ::
    "('o, 'b, 'w) gateway \<Rightarrow> 'w \<Rightarrow> string \<Rightarrow> string \<Rightarrow> gateway_error + read_write_set option" where
  "endorse gw w chaincode_id channel_id =
     (if gw_p2p_node gw \<noteq> None \<and> gw_discovery_service gw \<noteq> None \<and> channel_id \<noteq> [] then
        (case collect_endorsements gw chaincode_id channel_id of
           Inl e \<Rightarrow> Inl e
         | Inr (rwset, _) \<Rightarrow> Inr (Some rwset))
      else
        let checked =
          (case (gw_discovery_service gw, channel_id) of
             (Some svc, _ # _) \<Rightarrow>
               (case endorsement_plan svc chaincode_id channel_id of
                  Inr _ \<Rightarrow> Inr ()
                | Inl (PolicyNotFound _) \<Rightarrow> self_endorse gw chaincode_id
                | Inl InsufficientPeers \<Rightarrow> Inl (PolicyNotSatisfied chaincode_id)
                | Inl (PeerNotFound addr) \<Rightarrow> Inl (PolicyNotSatisfied (''peer not found: '' @ addr)))
           | _ \<Rightarrow> self_endorse gw chaincode_id) in
        (case checked of
           Inl e \<Rightarrow> Inl e
         | Inr _ \<Rightarrow> local_simulation gw w chaincode_id))"

definition next_height :: "('o, 'b, 'w) gateway \<Rightarrow> ('o, 'b, 'w) gateway_state \<Rightarrow> u64" where
  "next_height gw gs = (case bo_get_latest_height (gw_store gw) (gs_store gs) of Inr h \<Rightarrow> h | Inl _ \<Rightarrow> 0) + 1"

text \<open>Steps 2 and 3: from the queue to a stored block; every failure leaves what was done so far.\<close>

definition cut_and_store ::
    "('o, 'b, 'w) gateway \<Rightarrow> ('o, 'b, 'w) gateway_state \<Rightarrow> ('o, 'b, 'w) gateway_state \<times> (gateway_error + storage_block)" where
  "cut_and_store gw gs =
     (case ob_cut_block (gw_ordering_service gw) (gs_ordering gs) (next_height gw gs) ''gateway'' of
        (q, Inl e) \<Rightarrow> (gs\<lparr>gs_ordering := q\<rparr>, Inl (OrderingFailed e))
      | (q, Inr None) \<Rightarrow> (gs\<lparr>gs_ordering := q\<rparr>, Inl NoBlockCut)
      | (q, Inr (Some block)) \<Rightarrow>
          (case bo_write_block (gw_store gw) (gs_store gs) block of
             (b, Inl e) \<Rightarrow> (gs\<lparr>gs_ordering := q, gs_store := b\<rparr>, Inl (StorageFailed e))
           | (b, Inr _) \<Rightarrow> (gs\<lparr>gs_ordering := q, gs_store := b\<rparr>, Inr block)))"

definition index_record :: "transaction \<Rightarrow> storage_block \<Rightarrow> string \<Rightarrow> transaction" where
  "index_record tx block i =
     (if i = tx_id tx
      then \<lparr>tx_id = i, tx_block_height = sb_height block, tx_timestamp = sb_timestamp block, tx_input_did = tx_input_did tx,
            tx_output_recipient = tx_output_recipient tx, tx_amount = tx_amount tx, tx_state = ''committed''\<rparr>
      else \<lparr>tx_id = i, tx_block_height = sb_height block, tx_timestamp = sb_timestamp block, tx_input_did = [],
            tx_output_recipient = [], tx_amount = 0, tx_state = ''committed''\<rparr>)"

definition index_transactions :: "'b block_store_ops \<Rightarrow> transaction \<Rightarrow> storage_block \<Rightarrow> 'b \<Rightarrow> 'b" where
  "index_transactions B tx block s =
     foldl (\<lambda>s i. fst (bo_write_transaction B s (index_record tx block i))) s (sb_transactions block)"

definition apply_rwset ::
    "'w world_state_ops option \<Rightarrow> read_write_set option \<Rightarrow> 'w \<Rightarrow> 'w \<times> bool" where
  "apply_rwset ws simulation_rwset w =
     (case (simulation_rwset, ws) of
        (Some rwset, Some W) \<Rightarrow>
          (case validate_rwset W rwset w of
             Inr _ \<Rightarrow> (put_all W (rw_writes rwset) w, True)
           | Inl _ \<Rightarrow> (w, False))
      | _ \<Rightarrow> (w, True))"

definition gateway_submit ::
    "('o, 'b, 'w) gateway \<Rightarrow> ('o, 'b, 'w) gateway_state \<Rightarrow> string \<Rightarrow> string \<Rightarrow> transaction
      \<Rightarrow> ('o, 'b, 'w) gateway_state \<times> (gateway_error + tx_result)" where
  "gateway_submit gw gs chaincode_id channel_id tx =
     (case endorse gw (gs_world gs) chaincode_id channel_id of
        Inl e \<Rightarrow> (gs, Inl e)
      | Inr simulation_rwset \<Rightarrow>
     (case ob_submit_tx (gw_ordering_service gw) (gs_ordering gs) tx of
        (q, Inl e) \<Rightarrow> (gs\<lparr>gs_ordering := q\<rparr>, Inl (OrderingFailed e))
      | (q, Inr _) \<Rightarrow>
     (case cut_and_store gw (gs\<lparr>gs_ordering := q\<rparr>) of
        (gs1, Inl e) \<Rightarrow> (gs1, Inl e)
      | (gs1, Inr block) \<Rightarrow>
          let store = index_transactions (gw_store gw) tx block (gs_store gs1);
              (w, tx_valid) = apply_rwset (gw_world_state gw) simulation_rwset (gs_world gs1);
              events = (if gw_event_bus gw
                        then BlockCommitted channel_id (sb_height block) (length (sb_transactions block)) #
                          map (\<lambda>i. TransactionCommitted channel_id i (sb_height block) tx_valid) (sb_transactions block)
                        else []) in
          (gs1\<lparr>gs_store := store, gs_world := w, gs_events := gs_events gs1 @ events,
               gs_broadcast := gs_broadcast gs1 @ (if gw_p2p_node gw \<noteq> None then [block] else [])\<rparr>,
           Inr \<lparr>tr_tx_id = tx_id tx, tr_block_height = sb_height block, tr_valid = tx_valid\<rparr>))))"

definition commit_block_parallel ::
    "('o, 'b, 'w) gateway \<Rightarrow> ('o, 'b, 'w) gateway_state \<Rightarrow> string \<Rightarrow> endorsed_transaction list
      \<Rightarrow> ('o, 'b, 'w) gateway_state \<times> (gateway_error + batch_tx_result)" where
  "commit_block_parallel gw gs channel_id endorsed_txs =
     (case gw_world_state gw of
        None \<Rightarrow> (gs, Inl WorldStateRequired)
      | Some W \<Rightarrow>
     (case write_each (ob_submit_tx (gw_ordering_service gw)) (gs_ordering gs) (map (\<lambda>etx. tp_tx (et_proposal etx)) endorsed_txs) of
        (q, Inl e) \<Rightarrow> (gs\<lparr>gs_ordering := q\<rparr>, Inl (OrderingFailed e))
      | (q, Inr _) \<Rightarrow>
     (case cut_and_store gw (gs\<lparr>gs_ordering := q\<rparr>) of
        (gs1, Inl e) \<Rightarrow> (gs1, Inl e)
      | (gs1, Inr block) \<Rightarrow>
          let (w, exec_result) = execute_block_parallel W endorsed_txs (gs_world gs1);
              events = (if gw_event_bus gw
                        then BlockCommitted channel_id (sb_height block) (length endorsed_txs) #
                          map (\<lambda>(i, outcome). TransactionCommitted channel_id i (sb_height block) (outcome = Committed))
                            (be_outcomes exec_result)
                        else []) in
          (gs1\<lparr>gs_world := w, gs_events := gs_events gs1 @ events\<rparr>,
           Inr \<lparr>br_block_height = sb_height block, br_committed_count = be_committed_count exec_result,
                br_conflict_count = be_conflict_count exec_result, br_wave_count = bs_wave_count (be_schedule exec_result),
                br_parallelism_ratio = bs_parallelism_ratio (be_schedule exec_result), br_outcomes = be_outcomes exec_result\<rparr>))))"

section \<open>Contracts\<close>

locale ordering_contract =
  fixes Q :: "'o ordering_backend" and pending :: "'o \<Rightarrow> transaction list" and batch :: "'o \<Rightarrow> nat"
  assumes submit_queue: "ob_submit_tx Q q tx = (q', Inr ()) \<Longrightarrow> pending q' = pending q @ [tx] \<and> batch q' = batch q"
    and cut_queue: "ob_cut_block Q q height proposer = (q', Inr (Some b)) \<Longrightarrow>
      sb_height b = height \<and> sb_transactions b = map tx_id (take (batch q) (pending q)) \<and>
      pending q' = drop (batch q) (pending q) \<and> batch q' = batch q"

locale block_store_contract =
  fixes B :: "'b block_store_ops" and blocks :: "'b \<Rightarrow> u64 \<Rightarrow> storage_block option" and txs :: "'b \<Rightarrow> string \<Rightarrow> transaction option"
  assumes write_block_new: "bo_write_block B s b = (s', Inr ()) \<Longrightarrow>
      blocks s (sb_height b) = None \<and> blocks s' = (blocks s)(sb_height b \<mapsto> b) \<and> txs s' = txs s"
    and write_block_fails: "bo_write_block B s b = (s', Inl e) \<Longrightarrow> blocks s' = blocks s \<and> txs s' = txs s"
    and write_tx: "blocks (fst (bo_write_transaction B s t)) = blocks s \<and> txs (fst (bo_write_transaction B s t)) = (txs s)(tx_id t \<mapsto> t)"

locale gateway_parts = ordering_contract Q pending batch + block_store_contract B blocks txs
  for Q :: "'o ordering_backend" and pending batch and B :: "'b block_store_ops" and blocks txs
begin

lemma index_blocks: "blocks (foldl (\<lambda>s i. fst (bo_write_transaction B s (index_record tx b i))) s is) = blocks s"
  by (induction "is" arbitrary: s) (simp_all add: write_tx)

lemma index_txs:
  "txs (foldl (\<lambda>s i. fst (bo_write_transaction B s (index_record tx b i))) s is) i =
     (if i \<in> set is then Some (index_record tx b i) else txs s i)"
  by (induction "is" arbitrary: s) (auto simp: write_tx index_record_def)

lemma index_transactions_parts:
  "blocks (index_transactions B tx b s) = blocks s"
  "txs (index_transactions B tx b s) i = (if i \<in> set (sb_transactions b) then Some (index_record tx b i) else txs s i)"
  by (simp_all add: index_transactions_def index_blocks index_txs)

lemma cut_and_store_parts:
  assumes "gw_ordering_service gw = Q" and "gw_store gw = B" and "cut_and_store gw gs = (gs1, Inr b)"
  shows "sb_height b = next_height gw gs \<and> sb_transactions b = map tx_id (take (batch (gs_ordering gs)) (pending (gs_ordering gs))) \<and>
    pending (gs_ordering gs1) = drop (batch (gs_ordering gs)) (pending (gs_ordering gs)) \<and>
    blocks (gs_store gs) (sb_height b) = None \<and> blocks (gs_store gs1) = (blocks (gs_store gs))(sb_height b \<mapsto> b) \<and>
    txs (gs_store gs1) = txs (gs_store gs) \<and> gs_world gs1 = gs_world gs"
proof -
  obtain q s where cut: "ob_cut_block Q (gs_ordering gs) (next_height gw gs) ''gateway'' = (q, Inr (Some b))"
    and w: "bo_write_block B (gs_store gs) b = (s, Inr ())" and gs1: "gs1 = gs\<lparr>gs_ordering := q, gs_store := s\<rparr>"
    using assms by (auto simp: cut_and_store_def split: prod.splits sum.splits option.splits)
  show ?thesis using cut_queue [OF cut] write_block_new [OF w] gs1 by simp
qed

lemma submit_parts:
  assumes "gw_ordering_service gw = Q" and "gw_store gw = B" and "gateway_submit gw gs cc ch tx = (gs', Inr r)"
  obtains b rwset where "endorse gw (gs_world gs) cc ch = Inr rwset"
    and "r = \<lparr>tr_tx_id = tx_id tx, tr_block_height = next_height gw gs, tr_valid = snd (apply_rwset (gw_world_state gw) rwset (gs_world gs))\<rparr>"
    and "gs_world gs' = fst (apply_rwset (gw_world_state gw) rwset (gs_world gs))"
    and "sb_height b = next_height gw gs"
    and "sb_transactions b = map tx_id (take (batch (gs_ordering gs)) (pending (gs_ordering gs) @ [tx]))"
    and "pending (gs_ordering gs') = drop (batch (gs_ordering gs)) (pending (gs_ordering gs) @ [tx])"
    and "blocks (gs_store gs) (next_height gw gs) = None" and "blocks (gs_store gs') = (blocks (gs_store gs))(next_height gw gs \<mapsto> b)"
    and "txs (gs_store gs') = (\<lambda>i. if i \<in> set (sb_transactions b) then Some (index_record tx b i) else txs (gs_store gs) i)"
proof -
  obtain rwset q gs1 b where e: "endorse gw (gs_world gs) cc ch = Inr rwset" and q: "ob_submit_tx Q (gs_ordering gs) tx = (q, Inr ())"
    and c: "cut_and_store gw (gs\<lparr>gs_ordering := q\<rparr>) = (gs1, Inr b)"
    and g: "gs_world gs' = fst (apply_rwset (gw_world_state gw) rwset (gs_world gs1))" "gs_ordering gs' = gs_ordering gs1"
      "gs_store gs' = index_transactions B tx b (gs_store gs1)"
    and r: "r = \<lparr>tr_tx_id = tx_id tx, tr_block_height = sb_height b,
              tr_valid = snd (apply_rwset (gw_world_state gw) rwset (gs_world gs1))\<rparr>"
    using assms by (auto simp: gateway_submit_def Let_def split: sum.splits prod.splits)
  note cp = cut_and_store_parts [OF assms(1,2) c]
  have n: "next_height gw (gs\<lparr>gs_ordering := q\<rparr>) = next_height gw gs" by (simp add: next_height_def)
  show thesis
    by (rule that [OF e, of b]) (use cp g r n submit_queue [OF q] in \<open>auto simp: index_transactions_parts\<close>)
qed

end

interpretation solo: ordering_contract "solo_backend sha now" os_pending_txs os_max_batch_size for sha now
proof
  fix q tx q'
  show "ob_submit_tx (solo_backend sha now) q tx = (q', Inr ()) \<Longrightarrow>
      os_pending_txs q' = os_pending_txs q @ [tx] \<and> os_max_batch_size q' = os_max_batch_size q"
    by (auto simp: solo_backend_def submit_tx_def)
next
  fix q height proposer q' b
  assume "ob_cut_block (solo_backend sha now) q height proposer = (q', Inr (Some b))"
  then have c: "cut_block sha now q height proposer = (q', Some b)"
    by (cases "cut_block sha now q height proposer") (auto simp: solo_backend_def)
  then have "sb_height b = height"
    by (auto simp: cut_block_def Let_def sign_block_def sign_block_with_provider_def split: if_splits option.splits sum.splits)
  then show "sb_height b = height \<and> sb_transactions b = map tx_id (take (os_max_batch_size q) (os_pending_txs q)) \<and>
      os_pending_txs q' = drop (os_max_batch_size q) (os_pending_txs q) \<and> os_max_batch_size q' = os_max_batch_size q"
    using cut_block_queue [of sha now q height proposer] cut_block_block [of sha now q height proposer] c
    by (auto split: if_splits)
qed

lemmas memory_store_ops = memory_block_store_def write_block_def write_transaction_def get_latest_height_def

interpretation memory: block_store_contract memory_block_store "\<lambda>s. map_of (mst_blocks s)" "\<lambda>s. map_of (mst_transactions s)"
  by unfold_locales (auto simp: memory_store_ops hm_contains_def fun_eq_iff split: if_splits)

interpretation node: gateway_parts "solo_backend sha now" os_pending_txs os_max_batch_size memory_block_store
  "\<lambda>s. map_of (mst_blocks s)" "\<lambda>s. map_of (mst_transactions s)" for sha now
  by unfold_locales

section \<open>Correctness\<close>

text \<open>The checks of the local path evaluate the policy over the registered organizations, whatever its form.\<close>

theorem self_endorse_evaluates:
  "self_endorse gw cc = (case gw_get_policy gw cc of
     Inl _ \<Rightarrow> Inr ()
   | Inr p \<Rightarrow> if evaluate p (registered_org_ids gw) then Inr () else Inl (PolicyNotSatisfied cc))"
  by (auto simp: self_endorse_def Let_def split: sum.split endorsement_policy.split)


text \<open>
  Committing a batch of endorsed transactions through the gateway leaves the world state that validating and applying
  them one by one in the given order would leave, and the counts add up to the batch.
\<close>

theorem commit_block_parallel_serial:
  assumes "gw_world_state gw = Some (mem_world_state clock)" and "mem_ok (gs_world gs)"
    and "commit_block_parallel gw gs ch etxs = (gs', Inr r)"
  shows "mws_inner (gs_world gs') = mws_inner (fst (commit_block (mem_world_state clock) etxs (gs_world gs))) \<and>
    br_committed_count r + br_conflict_count r = length etxs"
proof -
  obtain q gs1 b where c: "cut_and_store gw (gs\<lparr>gs_ordering := q\<rparr>) = (gs1, Inr b)"
    and w: "gs_world gs' = fst (execute_block_parallel (mem_world_state clock) etxs (gs_world gs1))"
    and n: "br_committed_count r = be_committed_count (snd (execute_block_parallel (mem_world_state clock) etxs (gs_world gs1)))"
      "br_conflict_count r = be_conflict_count (snd (execute_block_parallel (mem_world_state clock) etxs (gs_world gs1)))"
    using assms(1,3) by (auto simp: commit_block_parallel_def Let_def split: sum.splits prod.splits)
  have "gs_world gs1 = gs_world gs" using c by (auto simp: cut_and_store_def split: prod.splits sum.splits option.splits)
  then show ?thesis using parallel_serializable_mem [OF assms(2), of clock etxs] w n by (simp add: case_prod_beta)
qed

definition demo_rwset :: read_write_set where
  "demo_rwset = \<lparr>rw_reads = [\<lparr>kr_key = ''a'', kr_version = 0\<rparr>], rw_writes = [\<lparr>kw_key = ''a'', kw_value = [1]\<rparr>]\<rparr>"

definition demo_gateway :: "(ordering_service, memory_store, memory_world_state) gateway" where
  "demo_gateway =
     \<lparr>gw_list_orgs = Inr [], gw_get_policy = (\<lambda>r. Inl (KeyNotFound r)), gw_ordering_service = solo_backend demo_sha 0,
      gw_store = memory_block_store, gw_discovery_service = None, gw_event_bus = True,
      gw_wasm_executor = Some (\<lambda>w f. Inr ([], demo_rwset)), gw_world_state = Some (mem_world_state 0),
      gw_key_endorsement_store = None, gw_p2p_node = None\<rparr>"

definition demo_gateway_state :: "(ordering_service, memory_store, memory_world_state) gateway_state" where
  "demo_gateway_state =
     \<lparr>gs_ordering = with_config 10 2000, gs_store = memory_store_new, gs_world = memory_world_state_new, gs_events = [], gs_broadcast = []\<rparr>"


lemma demo_gateway_parts [simp]:
  "gw_ordering_service demo_gateway = solo_backend demo_sha 0" "gw_store demo_gateway = memory_block_store"
  "gw_world_state demo_gateway = Some (mem_world_state 0)"
  by (simp_all add: demo_gateway_def)

lemma demo_cut:
  assumes "os_signing_key q = None" and "os_signing_provider q = None" and "os_pending_txs q \<noteq> []" and "mst_blocks s = []"
  shows "\<exists>gs b. cut_and_store demo_gateway \<lparr>gs_ordering = q, gs_store = s, gs_world = w, gs_events = ev, gs_broadcast = br\<rparr> = (gs, Inr b)"
  using assms by (simp add: cut_and_store_def solo_backend_def cut_block_def Let_def memory_block_store_def write_block_def hm_contains_def)


theorem commit_block_parallel_serial_witness:
  "let (gs, res) = commit_block_parallel demo_gateway demo_gateway_state ''ch'' demo_block in
   \<exists>r. res = Inr r \<and> mws_inner (gs_world gs) = mws_inner (fst (commit_block (mem_world_state 0) demo_block memory_world_state_new)) \<and>
     br_committed_count r + br_conflict_count r = 3"
proof -
  obtain gs res where run: "commit_block_parallel demo_gateway demo_gateway_state ''ch'' demo_block = (gs, res)" by force
  let ?q = "fst (write_each (ob_submit_tx (solo_backend demo_sha 0)) (with_config 10 2000) (map (\<lambda>etx. tp_tx (et_proposal etx)) demo_block))"
  have q: "write_each (ob_submit_tx (solo_backend demo_sha 0)) (with_config 10 2000) (map (\<lambda>etx. tp_tx (et_proposal etx)) demo_block) = (?q, Inr ())"
    by (simp add: demo_block_def solo_backend_def)
  obtain gs1 b1 where cut: "cut_and_store demo_gateway (demo_gateway_state\<lparr>gs_ordering := ?q\<rparr>) = (gs1, Inr b1)"
    using demo_cut [of ?q memory_store_new memory_world_state_new "[]" "[]"]
    by (auto simp: demo_gateway_state_def demo_block_def solo_backend_def submit_tx_def with_config_def memory_store_new_def)
  have st: "gs_ordering demo_gateway_state = with_config 10 2000" "gs_world demo_gateway_state = memory_world_state_new"
    by (simp_all add: demo_gateway_state_def)
  then obtain r where r: "res = Inr r"
    using run q cut by (auto simp: commit_block_parallel_def Let_def split: prod.splits)
  have "mem_ok memory_world_state_new" by (simp add: mem_ok_def memory_world_state_new_def)
  then have "mws_inner (gs_world gs) = mws_inner (fst (commit_block (mem_world_state 0) demo_block memory_world_state_new)) \<and>
      br_committed_count r + br_conflict_count r = length demo_block"
    using commit_block_parallel_serial [of demo_gateway 0 demo_gateway_state "''ch''" demo_block gs r] run r by (simp add: st)
  then show ?thesis unfolding run using r by (simp add: demo_block_def)
qed

text \<open>
  A submission can report a block that does not hold its transaction: when a full batch is already pending, the block that is cut
  takes that batch, and the result still names its height for the submitted transaction, which stays in the queue.
\<close>

theorem submit_reports_other_block:
  assumes gw: "gw_ordering_service gw = solo_backend sha now" "gw_store gw = memory_block_store"
    and run: "gateway_submit gw gs cc ch tx = (gs', Inr r)"
    and full: "os_max_batch_size (gs_ordering gs) \<le> length (os_pending_txs (gs_ordering gs))"
    and fresh: "tx_id tx \<notin> tx_id ` set (os_pending_txs (gs_ordering gs))"
  shows "tr_tx_id r = tx_id tx \<and> (\<exists>b. read_block (gs_store gs') (tr_block_height r) = Inr b \<and> tx_id tx \<notin> set (sb_transactions b)) \<and>
    tx \<in> set (os_pending_txs (gs_ordering gs'))"
proof (rule node.submit_parts [OF gw run], goal_cases)
  case (1 b rw)
  have "tx_id tx \<notin> set (sb_transactions b)" using 1(5) full fresh by (auto dest: in_set_takeD)
  then show ?case using 1 full by (auto simp: read_block_def)
qed

text \<open>
  The endorsements that peers send back are not looked at: signatures, signers and organizations in the replies do not
  influence the outcome of endorsement, only the read-write sets do.
\<close>

fun strip_endorsement :: "endorsement \<Rightarrow> peer_message \<Rightarrow> peer_message" where
  "strip_endorsement e (ProposalResponse rwset _) = ProposalResponse rwset e"
| "strip_endorsement e OtherMessage = OtherMessage"

lemma ask_endorsers_forged:
  "map_sum id (map fst) (ask_endorsers (\<lambda>a m. map_sum id (strip_endorsement e) (send a m)) cc ch peers) =
   map_sum id (map fst) (ask_endorsers send cc ch peers)"
proof (induction peers)
  case (Cons p peers)
  then show ?case by (auto simp: Let_def split: sum.splits peer_message.splits)
qed simp

lemma position_of_map: "position_of P (map f xs) = position_of (\<lambda>x. P (f x)) xs"
  by (induction xs) auto

lemma collected_rwset:
  "map_sum id fst (collect_endorsements gw cc ch) =
     (case gw_discovery_service gw of None \<Rightarrow> Inl NoDiscoveryService | Some d \<Rightarrow>
     (case gw_p2p_node gw of None \<Rightarrow> Inl NoP2pNode | Some send \<Rightarrow>
     (case endorsement_plan d cc ch of Inl e \<Rightarrow> Inl (PlanFailed e) | Inr endorsers \<Rightarrow>
     (case map_sum id (map fst) (ask_endorsers send cc ch endorsers) of
        Inl e \<Rightarrow> Inl e
      | Inr [] \<Rightarrow> Inr \<lparr>rw_reads = [], rw_writes = []\<rparr>
      | Inr (ref # rest) \<Rightarrow>
          (case position_of (\<lambda>rwset. rwset \<noteq> ref) rest of Some i \<Rightarrow> Inl (RwsetMismatch (i + 1)) | None \<Rightarrow> Inr ref)))))"
  by (auto simp: collect_endorsements_def position_of_map case_prod_unfold split: option.split sum.split list.split)

theorem endorsements_not_checked:
  assumes "gw_p2p_node gw = Some send" and "gw_discovery_service gw = Some d" and "ch \<noteq> []"
  shows "endorse (gw\<lparr>gw_p2p_node := Some (\<lambda>a m. map_sum id (strip_endorsement e) (send a m))\<rparr>) w cc ch = endorse gw w cc ch"
proof -
  have e: "endorse g w cc ch = map_sum id Some (map_sum id fst (collect_endorsements g cc ch))"
    if "gw_p2p_node g = Some s" "gw_discovery_service g = Some d" for g :: "('a, 'b, 'c) gateway" and s
    using that assms(3) by (auto simp: endorse_def split: sum.split)
  show ?thesis
    using assms(1,2) by (cases "endorsement_plan d cc ch") (simp_all add: e collected_rwset ask_endorsers_forged)
qed

text \<open>
  When the store refuses the block, the transactions of the batch are lost: the gateway reports the error, but the
  orderer has already removed them from its queue.
\<close>

theorem refused_block_loses_batch:
  assumes gw: "gw_ordering_service gw = solo_backend sha now"
    and endorsed: "endorse gw (gs_world gs) cc ch = Inr rwset"
    and refused: "\<And>b. bo_write_block (gw_store gw) (gs_store gs) b = (gs_store gs, Inl e)"
    and run: "gateway_submit gw gs cc ch tx = (gs', res)"
  shows "res = Inl (StorageFailed e) \<and> gs_store gs' = gs_store gs \<and>
    os_pending_txs (gs_ordering gs') = drop (os_max_batch_size (gs_ordering gs)) (os_pending_txs (gs_ordering gs) @ [tx])"
proof -
  let ?q = "submit_tx (gs_ordering gs) tx"
  let ?h = "next_height gw (gs\<lparr>gs_ordering := ?q\<rparr>)"
  have "os_pending_txs ?q \<noteq> []" by (simp add: submit_tx_def)
  then obtain q b where cut: "cut_block sha now ?q ?h ''gateway'' = (q, Some b)"
    using cut_block_block [of sha now ?q ?h "''gateway''"] by (cases "cut_block sha now ?q ?h ''gateway''") auto
  have q: "os_pending_txs q = drop (os_max_batch_size (gs_ordering gs)) (os_pending_txs (gs_ordering gs) @ [tx])"
    using cut_block_queue [of sha now ?q ?h "''gateway''"] cut by (simp add: submit_tx_def)
  show ?thesis
    using run endorsed refused cut q by (auto simp: gateway_submit_def cut_and_store_def gw solo_backend_def)
qed

text \<open>
  A batch of the in-memory store is not atomic, as the trait asks: when a block of the batch is refused, the blocks before it
  stay written.
\<close>

theorem write_batch_not_atomic:
  assumes "\<not> hm_contains (sb_height b) (mst_blocks s)" and "hm_contains (sb_height b') (mst_blocks s)"
  shows "\<exists>s' e. write_batch s [b, b'] ts = (s', Inl e) \<and> read_block s' (sb_height b) = Inr b \<and>
    (\<exists>e'. read_block s (sb_height b) = Inl e')"
  using assms by (auto simp: write_batch_def write_block_def read_block_def hm_contains_def)

end
