(* ===== verification/Security_Token.thy ===== *)
theory Security_Token
  imports Cerulean_Prelude
begin

text \<open>
  Security tokens (\<open>src/compliance/erc3643.rs\<close>): the registry of investor identities, the compliance rules and the token
  with its transfers, forced transfers, minting and burning. Additions and subtractions wrap, as in the
  release profile, where the source uses the plain operators.
\<close>

section \<open>Identities\<close>

datatype claim_type = IdentityVerified | AccreditedInvestor | CountryVerified | AmlCleared

record identity_claim =
  ic_claim_type :: claim_type
  ic_issuer_did :: string
  ic_issued_at :: u64
  ic_expires_at :: "u64 option"
  ic_country :: "string option"

definition claim_is_expired :: "identity_claim \<Rightarrow> u64 \<Rightarrow> bool" where
  "claim_is_expired c now \<longleftrightarrow> (case ic_expires_at c of Some e \<Rightarrow> now > e | None \<Rightarrow> False)"

record investor_identity =
  ii_did :: string
  ii_claims :: "identity_claim list"
  ii_frozen :: bool

type_synonym identity_registry = "(string, investor_identity) hash_map"

definition register_identity :: "identity_registry \<Rightarrow> string \<Rightarrow> identity_claim list \<Rightarrow> identity_registry" where
  "register_identity r did claims = hm_insert did \<lparr>ii_did = did, ii_claims = claims, ii_frozen = False\<rparr> r"

definition has_valid_claim :: "identity_registry \<Rightarrow> string \<Rightarrow> claim_type \<Rightarrow> u64 \<Rightarrow> bool" where
  "has_valid_claim r did ct now \<longleftrightarrow>
     (case map_of r did of
        Some i \<Rightarrow> list_ex (\<lambda>c. ic_claim_type c = ct \<and> \<not> claim_is_expired c now) (ii_claims i)
      | None \<Rightarrow> False)"

definition set_frozen :: "bool \<Rightarrow> identity_registry \<Rightarrow> string \<Rightarrow> identity_registry \<times> bool" where
  "set_frozen b r did =
     (case map_of r did of Some i \<Rightarrow> (hm_insert did (i\<lparr>ii_frozen := b\<rparr>) r, True) | None \<Rightarrow> (r, False))"

definition freeze :: "identity_registry \<Rightarrow> string \<Rightarrow> identity_registry \<times> bool" where
  "freeze = set_frozen True"

definition unfreeze :: "identity_registry \<Rightarrow> string \<Rightarrow> identity_registry \<times> bool" where
  "unfreeze = set_frozen False"

definition is_frozen :: "identity_registry \<Rightarrow> string \<Rightarrow> bool" where
  "is_frozen r did \<longleftrightarrow> (case map_of r did of Some i \<Rightarrow> ii_frozen i | None \<Rightarrow> False)"

section \<open>Compliance\<close>

datatype compliance_rule =
    RequireClaim claim_type
  | MaxHolders nat
  | AllowedCountries "string list"
  | MinHoldingPeriod u64
  | MaxOwnershipPercent u8

datatype denial =
    SenderFrozen
  | RecipientFrozen
  | SenderMissingClaim claim_type
  | RecipientMissingClaim claim_type
  | TooManyHolders nat
  | SenderCountry string
  | RecipientCountry string
  | TooLargeShare u64 u8
  | InsufficientBalance

definition check_country :: "identity_registry \<Rightarrow> string list \<Rightarrow> string \<Rightarrow> string + unit" where
  "check_country r countries did =
     (case map_of r did of
        None \<Rightarrow> Inl ''identity not found''
      | Some i \<Rightarrow>
          (case Option.bind (find (\<lambda>c. ic_claim_type c = CountryVerified) (ii_claims i)) ic_country of
             None \<Rightarrow> Inl ''no country claim''
           | Some country \<Rightarrow>
               if list_ex (\<lambda>c. c = country) countries then Inr ()
               else Inl (''country '' @ country @ '' not in allowed list'')))"

record transfer_facts =
  tf_from :: string
  tf_to :: string
  tf_amount :: u64
  tf_now :: u64
  tf_current_holders :: nat
  tf_recipient_balance :: u64
  tf_total_supply :: u64

definition check_rule :: "identity_registry \<Rightarrow> transfer_facts \<Rightarrow> compliance_rule \<Rightarrow> denial + unit" where
  "check_rule r t rule =
     (case rule of
        RequireClaim ct \<Rightarrow>
          checks [require (has_valid_claim r (tf_from t) ct (tf_now t)) (SenderMissingClaim ct),
                  require (has_valid_claim r (tf_to t) ct (tf_now t)) (RecipientMissingClaim ct)]
      | MaxHolders max_holders \<Rightarrow>
          require (\<not> (tf_recipient_balance t = 0 \<and> tf_current_holders t \<ge> max_holders)) (TooManyHolders max_holders)
      | AllowedCountries countries \<Rightarrow>
          (case check_country r countries (tf_from t) of
             Inl reason \<Rightarrow> Inl (SenderCountry reason)
           | Inr _ \<Rightarrow> (case check_country r countries (tf_to t) of Inl reason \<Rightarrow> Inl (RecipientCountry reason) | Inr _ \<Rightarrow> Inr ()))
      | MaxOwnershipPercent max_pct \<Rightarrow>
          let new_balance = tf_recipient_balance t + tf_amount t in
          if tf_total_supply t = 0 then Inr ()
          else (let pct = sat_mul new_balance 100 div tf_total_supply t in
                if pct > ucast max_pct then Inl (TooLargeShare pct max_pct) else Inr ())
      | MinHoldingPeriod _ \<Rightarrow> Inr ())"

definition check_transfer :: "compliance_rule list \<Rightarrow> identity_registry \<Rightarrow> transfer_facts \<Rightarrow> denial + unit" where
  "check_transfer rules r t =
     checks ([require (\<not> is_frozen r (tf_from t)) SenderFrozen, require (\<not> is_frozen r (tf_to t)) RecipientFrozen] @
       map (check_rule r t) rules)"

section \<open>The token\<close>

record security_token =
  st_name :: string
  st_symbol :: string
  st_total_supply :: u64
  st_issuer_did :: string
  st_balances :: "(string, u64) hash_map"

definition security_token_new :: "string \<Rightarrow> string \<Rightarrow> string \<Rightarrow> u64 \<Rightarrow> security_token" where
  "security_token_new name symbol issuer supply0 =
     \<lparr>st_name = name, st_symbol = symbol, st_total_supply = supply0, st_issuer_did = issuer, st_balances = [(issuer, supply0)]\<rparr>"

definition st_balance_of :: "security_token \<Rightarrow> string \<Rightarrow> u64" where
  "st_balance_of t did = (case map_of (st_balances t) did of Some b \<Rightarrow> b | None \<Rightarrow> 0)"

definition holder_count :: "security_token \<Rightarrow> nat" where
  "holder_count t = length (filter (\<lambda>b. b > 0) (map snd (st_balances t)))"

definition st_set :: "security_token \<Rightarrow> string \<Rightarrow> u64 \<Rightarrow> security_token" where
  "st_set t did b = t\<lparr>st_balances := hm_insert did b (st_balances t)\<rparr>"

definition st_move :: "security_token \<Rightarrow> string \<Rightarrow> string \<Rightarrow> u64 \<Rightarrow> security_token" where
  "st_move t from_did to_did amount =
     (let t1 = st_set t from_did (st_balance_of t from_did - amount) in
      st_set t1 to_did (st_balance_of t1 to_did + amount))"

definition st_transfer ::
    "security_token \<Rightarrow> string \<Rightarrow> string \<Rightarrow> u64 \<Rightarrow> compliance_rule list \<Rightarrow> identity_registry \<Rightarrow> u64
      \<Rightarrow> security_token \<times> (denial + unit)" where
  "st_transfer t from_did to_did amount rules r now =
     (if st_balance_of t from_did < amount then (t, Inl InsufficientBalance)
      else (case check_transfer rules r
              \<lparr>tf_from = from_did, tf_to = to_did, tf_amount = amount, tf_now = now, tf_current_holders = holder_count t,
               tf_recipient_balance = st_balance_of t to_did, tf_total_supply = st_total_supply t\<rparr> of
              Inl d \<Rightarrow> (t, Inl d)
            | Inr _ \<Rightarrow> (st_move t from_did to_did amount, Inr ())))"

datatype token_error = OnlyIssuer | TokenInsufficient | SupplyOverflow | BalanceOverflow

definition force_transfer :: "security_token \<Rightarrow> string \<Rightarrow> string \<Rightarrow> string \<Rightarrow> u64 \<Rightarrow> security_token \<times> (token_error + unit)" where
  "force_transfer t caller from_did to_did amount =
     (if caller \<noteq> st_issuer_did t then (t, Inl OnlyIssuer)
      else if st_balance_of t from_did < amount then (t, Inl TokenInsufficient)
      else (st_move t from_did to_did amount, Inr ()))"

text \<open>The supply is raised before the balance is checked; the entry of the recipient is created only after the check.\<close>

definition st_mint :: "security_token \<Rightarrow> string \<Rightarrow> string \<Rightarrow> u64 \<Rightarrow> security_token \<times> (token_error + unit)" where
  "st_mint t caller to_did amount =
     (if caller \<noteq> st_issuer_did t then (t, Inl OnlyIssuer)
      else if unat (st_total_supply t) + unat amount \<ge> 2 ^ 64 then (t, Inl SupplyOverflow)
      else let t1 = t\<lparr>st_total_supply := st_total_supply t + amount\<rparr> in
        if unat (st_balance_of t to_did) + unat amount \<ge> 2 ^ 64 then (t1, Inl BalanceOverflow)
        else (st_set t1 to_did (st_balance_of t to_did + amount), Inr ()))"

definition st_burn :: "security_token \<Rightarrow> string \<Rightarrow> u64 \<Rightarrow> security_token \<times> (token_error + unit)" where
  "st_burn t holder amount =
     (if st_balance_of t holder < amount then (t, Inl TokenInsufficient)
      else ((st_set t holder (st_balance_of t holder - amount))\<lparr>st_total_supply := st_total_supply t - amount\<rparr>, Inr ()))"

datatype token_op =
    Transfer string string u64 "compliance_rule list" identity_registry u64
  | ForceTransfer string string string u64
  | Mint string string u64
  | Burn string u64

fun token_step :: "security_token \<Rightarrow> token_op \<Rightarrow> security_token" where
  "token_step t (Transfer f g a rules r now) = fst (st_transfer t f g a rules r now)"
| "token_step t (ForceTransfer c f g a) = fst (force_transfer t c f g a)"
| "token_step t (Mint c g a) = fst (st_mint t c g a)"
| "token_step t (Burn h a) = fst (st_burn t h a)"

section \<open>Supply\<close>

text \<open>The balances are a map and add up, as numbers, to the supply; so no addition of a move wraps.\<close>

definition token_ok :: "security_token \<Rightarrow> bool" where
  "token_ok t \<longleftrightarrow> hm_ok (st_balances t) \<and> hm_total unat (st_balances t) = unat (st_total_supply t)"

lemma st_set_simps [simp]:
  "st_balance_of (st_set t d b) d' = (if d' = d then b else st_balance_of t d')"
  "st_total_supply (st_set t d b) = st_total_supply t" "st_issuer_did (st_set t d b) = st_issuer_did t"
  by (auto simp: st_set_def st_balance_of_def)

lemma st_old_balance: "hm_old unat (st_balances t) d = unat (st_balance_of t d)"
  by (simp add: hm_old_def st_balance_of_def split: option.split)

lemma st_set_total:
  "hm_ok (st_balances t) \<Longrightarrow> hm_ok (st_balances (st_set t d b)) \<and>
     hm_total unat (st_balances (st_set t d b)) + unat (st_balance_of t d) = hm_total unat (st_balances t) + unat b"
  using hm_total_insert [of "st_balances t" unat d b] by (simp add: st_set_def st_old_balance [symmetric])

lemma balance_le_supply: "token_ok t \<Longrightarrow> st_balance_of t d \<le> st_total_supply t"
  using hm_old_le_total [of unat "st_balances t" d] by (simp add: token_ok_def st_old_balance word_le_nat_alt)

lemma supply_bound: "unat (st_total_supply t) < 2 ^ 64"
  by simp

lemma move_ok:
  assumes "token_ok t" and "amount \<le> st_balance_of t f"
  shows "token_ok (st_move t f g amount) \<and> st_total_supply (st_move t f g amount) = st_total_supply t"
proof -
  let ?t1 = "st_set t f (st_balance_of t f - amount)"
  note s1 = st_set_total [of t f "st_balance_of t f - amount"]
  have t1: "hm_ok (st_balances ?t1)" "hm_total unat (st_balances ?t1) + unat amount = unat (st_total_supply t)"
    using assms s1 by (auto simp: token_ok_def unat_sub word_le_nat_alt)
  have "unat (st_balance_of ?t1 g) \<le> hm_total unat (st_balances ?t1)"
    using hm_old_le_total [of unat "st_balances ?t1" g] by (simp only: st_old_balance)
  then have "unat (st_balance_of ?t1 g) + unat amount < 2 ^ 64" using t1(2) supply_bound [of t] by linarith
  then have "unat (st_balance_of ?t1 g + amount) = unat (st_balance_of ?t1 g) + unat amount"
    by (intro unat_add_no_wrap) simp
  then show ?thesis
    using st_set_total [OF t1(1), of g "st_balance_of ?t1 g + amount"] t1(2) by (simp add: st_move_def Let_def token_ok_def)
qed

lemma token_step_ok:
  assumes "token_ok t"
  shows "token_ok (token_step t op)"
proof (cases op)
  case (Transfer f g a rules r now)
  then show ?thesis using assms move_ok [of t a f g] by (auto simp: st_transfer_def not_less split: sum.split)
next
  case (ForceTransfer c f g a)
  then show ?thesis using assms move_ok [of t a f g] by (auto simp: force_transfer_def not_less)
next
  case (Mint c g a)
  have "unat (st_balance_of t g) \<le> unat (st_total_supply t)"
    using balance_le_supply [OF assms] by (simp add: word_le_nat_alt)
  then show ?thesis
    using Mint assms st_set_total [of "t\<lparr>st_total_supply := st_total_supply t + a\<rparr>" g "st_balance_of t g + a"]
    by (auto simp: st_mint_def Let_def token_ok_def unat_add_no_wrap not_le st_balance_of_def)
next
  case (Burn h a)
  have le: "unat (st_balance_of t h) \<le> unat (st_total_supply t)"
    using balance_le_supply [OF assms] by (simp add: word_le_nat_alt)
  show ?thesis
  proof (cases "st_balance_of t h < a")
    case False
    then have "a \<le> st_balance_of t h" "a \<le> st_total_supply t" using balance_le_supply [OF assms, of h] by auto
    then show ?thesis
      using Burn False assms le st_set_total [of t h "st_balance_of t h - a"]
      by (auto simp: st_burn_def token_ok_def st_set_def unat_sub word_le_nat_alt)
  qed (use Burn assms in \<open>simp add: st_burn_def\<close>)
qed

section \<open>Compliance of transfers\<close>

lemma move_balances:
  assumes "amount \<le> st_balance_of t f"
  shows "st_balance_of (st_move t f g amount) d =
    (if f = g then st_balance_of t d else if d = f then st_balance_of t f - amount
     else if d = g then st_balance_of t g + amount else st_balance_of t d)"
  by (auto simp: st_move_def Let_def)

lemma holder_count_set:
  assumes "hm_ok (st_balances t)"
  shows "holder_count (st_set t d b) + (if st_balance_of t d > 0 then 1 else 0) = holder_count t + (if b > 0 then 1 else 0)"
proof -
  have count: "holder_count u = hm_total (\<lambda>b. if b > 0 then 1 else 0 :: nat) (st_balances u)" for u
  proof -
    have "length (filter (\<lambda>b :: u64. b > 0) (map snd m)) = hm_total (\<lambda>b. if b > 0 then 1 else 0 :: nat) m" for m :: "(string, u64) hash_map"
      by (induction m) (auto simp: hm_total_def)
    then show ?thesis by (simp add: holder_count_def)
  qed
  have "hm_old (\<lambda>b. if b > 0 then 1 else 0 :: nat) (st_balances t) d = (if st_balance_of t d > 0 then 1 else 0)"
    by (simp add: hm_old_def st_balance_of_def split: option.split)
  then show ?thesis
    using hm_total_insert [OF assms, of "\<lambda>b. if b > 0 then 1 else 0 :: nat" d b] by (simp add: count st_set_def)
qed

lemma move_holders:
  assumes "hm_ok (st_balances t)" and "amount \<le> st_balance_of t f"
  shows "holder_count (st_move t f g amount) \<le> holder_count t + (if st_balance_of t g = 0 then 1 else 0)"
proof -
  let ?t1 = "st_set t f (st_balance_of t f - amount)"
  have ok1: "hm_ok (st_balances ?t1)" using st_set_total [OF assms(1)] by simp
  have h1: "holder_count ?t1 + (if st_balance_of t f > 0 then 1 else 0) = holder_count t + (if st_balance_of t f - amount > 0 then 1 else 0)"
    using holder_count_set [OF assms(1), of f "st_balance_of t f - amount"] .
  have h2: "holder_count (st_move t f g amount) + (if st_balance_of ?t1 g > 0 then 1 else 0) =
      holder_count ?t1 + (if st_balance_of ?t1 g + amount > 0 then 1 else 0)"
    using holder_count_set [OF ok1, of g "st_balance_of ?t1 g + amount"] by (simp add: st_move_def Let_def)
  show ?thesis
  proof (cases "f = g")
    case True
    then have "st_balance_of ?t1 g = st_balance_of t f - amount" "st_balance_of ?t1 g + amount = st_balance_of t f" by simp_all
    then show ?thesis using h1 h2 True by (auto split: if_splits)
  next
    case False
    then have g: "st_balance_of ?t1 g = st_balance_of t g" by simp
    have z: "st_balance_of t f = 0 \<Longrightarrow> st_balance_of t f - amount = 0" using assms(2) by simp
    show ?thesis using h1 h2 g z by (cases "st_balance_of t f = 0"; cases "st_balance_of t g = 0") (auto simp: word_gt_0 split: if_splits)
  qed
qed

lemma check_transfer_ok:
  assumes "check_transfer rules r t = Inr ()"
  shows "\<not> is_frozen r (tf_from t)" and "\<not> is_frozen r (tf_to t)" and "rule \<in> set rules \<Longrightarrow> check_rule r t rule = Inr ()"
  using assms by (auto simp: check_transfer_def checks_Inr split: sum.splits)

lemma transfer_compliant:
  assumes ok: "token_ok t" and run: "st_transfer t f g a rules r now = (t', Inr ())"
  shows "unat (st_balance_of t' g) = unat (st_balance_of t g) + (if f = g then 0 else unat a)"
    and "unat (st_balance_of t f) = unat (st_balance_of t' f) + (if f = g then 0 else unat a)"
    and "\<not> is_frozen r f" and "\<not> is_frozen r g"
    and "RequireClaim ct \<in> set rules \<Longrightarrow> has_valid_claim r f ct now \<and> has_valid_claim r g ct now"
    and "MaxHolders n \<in> set rules \<Longrightarrow> holder_count t \<le> n \<Longrightarrow> holder_count t' \<le> n"
proof -
  let ?facts = "\<lparr>tf_from = f, tf_to = g, tf_amount = a, tf_now = now, tf_current_holders = holder_count t,
               tf_recipient_balance = st_balance_of t g, tf_total_supply = st_total_supply t\<rparr>"
  have le: "a \<le> st_balance_of t f" and chk: "check_transfer rules r ?facts = Inr ()" and t': "t' = st_move t f g a"
    using run by (auto simp: st_transfer_def not_less split: if_splits sum.splits)
  have hm: "hm_ok (st_balances t)" using ok by (simp add: token_ok_def)
  note bal = move_balances [OF le, of g]
  have ok': "token_ok t'" using move_ok [OF ok le] t' by simp
  show "unat (st_balance_of t f) = unat (st_balance_of t' f) + (if f = g then 0 else unat a)"
    using le by (simp add: t' bal unat_sub word_le_nat_alt)
  show "unat (st_balance_of t' g) = unat (st_balance_of t g) + (if f = g then 0 else unat a)"
  proof (cases "f = g")
    case False
    have "unat (st_balance_of t f) + unat (st_balance_of t g) \<le> hm_total unat (st_balances t)"
      using st_set_total [OF hm, of f 0] hm_old_le_total [of unat "st_balances (st_set t f 0)" g] False
      by (simp add: st_old_balance)
    then have "unat a + unat (st_balance_of t g) \<le> unat (st_total_supply t)"
      using ok le by (simp add: token_ok_def word_le_nat_alt)
    then have "unat (st_balance_of t g) + unat a < 2 ^ 64" using supply_bound [of t] by linarith
    then have "unat (st_balance_of t g + a) = unat (st_balance_of t g) + unat a" by (intro unat_add_no_wrap) simp
    then show ?thesis using False by (simp add: t' bal)
  qed (use bal [of g] in \<open>simp add: t'\<close>)
  show "\<not> is_frozen r f" "\<not> is_frozen r g" using check_transfer_ok(1,2) [OF chk] by simp_all
  show "has_valid_claim r f ct now \<and> has_valid_claim r g ct now" if "RequireClaim ct \<in> set rules"
    using check_transfer_ok(3) [OF chk that] by (simp add: check_rule_def require_def split: if_splits)
  show "holder_count t' \<le> n" if "MaxHolders n \<in> set rules" "holder_count t \<le> n"
  proof -
    have "\<not> (st_balance_of t g = 0 \<and> n \<le> holder_count t)"
      using check_transfer_ok(3) [OF chk that(1)] by (simp add: check_rule_def)
    then show ?thesis using move_holders [OF hm le, of g] that(2) t' by (auto split: if_splits)
  qed
qed

text \<open>
  C22: on a token whose balances add up to the supply, every sequence of transfers, forced transfers, mints and
  burns keeps the sum of the balances equal to the supply, so no balance wraps; a compliant transfer moves exactly the
  amount, between parties that are not frozen and hold every required claim, and keeps the number of holders within every limit that held
  before it.
\<close>

theorem security_token_sound:
  assumes "token_ok t0" and "t = foldl token_step t0 ops"
  shows "token_ok t \<and>
    (st_transfer t f g a rules r now = (t', Inr ()) \<longrightarrow>
       unat (st_balance_of t' g) = unat (st_balance_of t g) + (if f = g then 0 else unat a) \<and>
       unat (st_balance_of t f) = unat (st_balance_of t' f) + (if f = g then 0 else unat a) \<and>
       \<not> is_frozen r f \<and> \<not> is_frozen r g \<and>
       (\<forall>ct. RequireClaim ct \<in> set rules \<longrightarrow> has_valid_claim r f ct now \<and> has_valid_claim r g ct now) \<and>
       (\<forall>n. MaxHolders n \<in> set rules \<and> holder_count t \<le> n \<longrightarrow> holder_count t' \<le> n))"
proof -
  have inv: "token_ok (foldl token_step u ops)" if "token_ok u" for u
    using that by (induction ops arbitrary: u) (simp_all add: token_step_ok)
  have ok: "token_ok t" unfolding assms(2) by (rule inv [OF assms(1)])
  show ?thesis using ok transfer_compliant [OF ok, of f g a rules r now t'] by blast
qed

definition demo_investors :: identity_registry where
  "demo_investors =
     (let kyc = \<lparr>ic_claim_type = IdentityVerified, ic_issuer_did = ''i'', ic_issued_at = 0, ic_expires_at = Some 100, ic_country = None\<rparr>;
          country = \<lparr>ic_claim_type = CountryVerified, ic_issuer_did = ''i'', ic_issued_at = 0, ic_expires_at = Some 10, ic_country = Some ''CL''\<rparr> in
      register_identity (register_identity [] ''a'' [kyc, country]) ''b'' [kyc, country])"

lemmas demo_token_simps = demo_investors_def security_token_new_def register_identity_def hm_insert_def st_transfer_def
  check_transfer_def check_rule_def st_balance_of_def is_frozen_def has_valid_claim_def claim_is_expired_def holder_count_def

theorem security_token_sound_witness:
  "let t = foldl token_step (security_token_new ''T'' ''T'' ''a'' 10) [Mint ''a'' ''a'' 5];
       t' = fst (st_transfer t ''a'' ''b'' 4 [RequireClaim IdentityVerified, MaxHolders 2] demo_investors 50) in
   token_ok t \<and> unat (st_balance_of t' ''b'') = 4 \<and> holder_count t' \<le> 2"
proof -
  let ?u = "security_token_new ''T'' ''T'' ''a'' 10"
  let ?t = "foldl token_step ?u [Mint ''a'' ''a'' 5]"
  let ?rules = "[RequireClaim IdentityVerified, MaxHolders 2]"
  have ok: "token_ok ?u" by (simp add: token_ok_def security_token_new_def hm_ok_def)
  have t: "?t = \<lparr>st_name = ''T'', st_symbol = ''T'', st_total_supply = 15, st_issuer_did = ''a'', st_balances = [(''a'', 15)]\<rparr>"
    by (simp add: security_token_new_def st_mint_def st_set_def st_balance_of_def hm_insert_def Let_def)
  have run: "st_transfer ?t ''a'' ''b'' 4 ?rules demo_investors 50 = (fst (st_transfer ?t ''a'' ''b'' 4 ?rules demo_investors 50), Inr ())"
    unfolding t by (simp add: demo_token_simps Let_def)
  have h: "holder_count ?t = 1" "st_balance_of ?t ''b'' = 0" unfolding t by (simp_all add: holder_count_def st_balance_of_def)
  show ?thesis
    using security_token_sound [OF ok refl, of "[Mint ''a'' ''a'' 5]" "''a''" "''b''" 4 ?rules demo_investors 50] run h
    by (simp add: Let_def del: foldl_Cons foldl_Nil)
qed

text \<open>
  An expired country claim still counts: where a required claim must be valid at the time of the transfer, the rule on
  countries reads the first country claim without looking at its expiry.
\<close>

theorem expired_country_accepted:
  "\<not> has_valid_claim demo_investors ''a'' CountryVerified 50 \<and>
   check_country demo_investors [''CL''] ''a'' = Inr ()"
  by (simp add: demo_token_simps check_country_def Let_def)

text \<open>Registering an investor again lifts a freeze.\<close>

theorem registration_unfreezes:
  assumes "freeze r did = (r', True)"
  shows "is_frozen r' did \<and> \<not> is_frozen (register_identity r' did claims) did"
  using assms by (auto simp: freeze_def set_frozen_def is_frozen_def register_identity_def split: option.splits)

text \<open>Minting is not subject to the limit on holders: the issuer can pass it by minting to new holders.\<close>

theorem mint_ignores_holder_limit:
  assumes "token_ok t" and "st_balance_of t d = 0" and "0 < a" and "unat (st_total_supply t) + unat a < 2 ^ 64"
  shows "\<exists>t'. st_mint t (st_issuer_did t) d a = (t', Inr ()) \<and> holder_count t' = holder_count t + 1"
proof -
  have "holder_count (st_set (t\<lparr>st_total_supply := st_total_supply t + a\<rparr>) d a) = holder_count t + 1"
    using holder_count_set [of "t\<lparr>st_total_supply := st_total_supply t + a\<rparr>" d a] assms(1-3)
    by (simp add: token_ok_def st_balance_of_def holder_count_def)
  then show ?thesis using assms by (auto simp: st_mint_def Let_def)
qed

end
