(* ===== verification/Chaincode.thy ===== *)
theory Chaincode
  imports Acl Merkle
begin

text \<open>
  The life of a chaincode: states and stores (\<open>src/chaincode/mod.rs\<close>, \<open>definition.rs\<close>), the handlers that install, approve
  and commit a definition (\<open>src/api/handlers/chaincode.rs\<close>) and the upgrade manager (\<open>src/chaincode/upgrade.rs\<close>).
  The sandbox, which parses WebAssembly, and the hexadecimal hash of a package are parameters; the audit log and
  the identifiers of responses are output and left out.
\<close>

section \<open>States and stores\<close>

datatype chaincode_status = Installed | Approved | CommittedStatus | Deprecated

definition transition_to :: "chaincode_status \<Rightarrow> chaincode_status \<Rightarrow> (chaincode_status \<times> chaincode_status) + chaincode_status" where
  "transition_to s s' =
     (if (s, s') \<in> {(Installed, Approved), (Approved, CommittedStatus), (CommittedStatus, Deprecated)} then Inr s' else Inl (s, s'))"

datatype chaincode_runtime = Wasm u64 "nat option" | External string bool

record chaincode_definition =
  cd_chaincode_id :: string
  cd_version :: string
  cd_status :: chaincode_status
  cd_endorsement_policy :: endorsement_policy
  cd_approvals :: "(string, bool) hash_map"
  cd_runtime :: chaincode_runtime

definition chaincode_definition_new :: "string \<Rightarrow> string \<Rightarrow> endorsement_policy \<Rightarrow> chaincode_definition" where
  "chaincode_definition_new chaincode_id version policy =
     \<lparr>cd_chaincode_id = chaincode_id, cd_version = version, cd_status = Installed, cd_endorsement_policy = policy, cd_approvals = [],
      cd_runtime = Wasm 10000000 None\<rparr>"

definition store_key :: "string \<Rightarrow> string \<Rightarrow> string" where
  "store_key chaincode_id version = chaincode_id @ '':'' @ version"

type_synonym package_store = "(string, bytes) hash_map"
type_synonym definition_store = "(string, chaincode_definition) hash_map"

definition store_package :: "package_store \<Rightarrow> string \<Rightarrow> string \<Rightarrow> bytes \<Rightarrow> package_store" where
  "store_package s chaincode_id version wasm_bytes = hm_insert (store_key chaincode_id version) wasm_bytes s"

definition get_package :: "package_store \<Rightarrow> string \<Rightarrow> string \<Rightarrow> bytes option" where
  "get_package s chaincode_id version = map_of s (store_key chaincode_id version)"

definition upsert_definition :: "definition_store \<Rightarrow> chaincode_definition \<Rightarrow> definition_store" where
  "upsert_definition s def = hm_insert (store_key (cd_chaincode_id def) (cd_version def)) def s"

definition get_definition :: "definition_store \<Rightarrow> string \<Rightarrow> string \<Rightarrow> chaincode_definition option" where
  "get_definition s chaincode_id version = map_of s (store_key chaincode_id version)"

text \<open>
  The key of a package does not tell where the identifier ends: an identifier with a colon shares its entry with another
  chaincode, which installing the one overwrites.
\<close>

theorem packages_collide:
  "get_package (store_package (store_package s ''a'' ''b:1'' w) ''a:b'' ''1'' w') ''a'' ''b:1'' = Some w'"
  by (simp add: get_package_def store_package_def store_key_def)

section \<open>Handlers\<close>

datatype chaincode_api_error =
    CcForbidden forbidden
  | CcValidation string
  | CcSandboxFailed "string list"
  | CcNotFound string
  | CcPolicyNotSatisfied
  | CcInvalidTransition "chaincode_status \<times> chaincode_status"

record sandbox_report =
  sr_passed :: bool
  sr_failures :: "string list"

record chaincode_state =
  cs_packages :: "package_store option"
  cs_definitions :: "definition_store option"
  cs_reports :: "(string, sandbox_report) hash_map"

record chaincode_env =
  cv_enforce_acl :: "string \<Rightarrow> api_request \<Rightarrow> forbidden + unit"
  cv_sha_hex :: "bytes \<Rightarrow> string"
  cv_sandbox :: "string \<Rightarrow> string \<Rightarrow> bytes \<Rightarrow> sandbox_report"

definition ascii_lower :: "char \<Rightarrow> char" where
  "ascii_lower c = (if 65 \<le> (of_char c :: nat) \<and> (of_char c :: nat) \<le> 90 then char_of (of_char c + 32 :: nat) else c)"

definition install_chaincode ::
    "chaincode_env \<Rightarrow> chaincode_state \<Rightarrow> api_request \<Rightarrow> string \<Rightarrow> string \<Rightarrow> string option \<Rightarrow> bytes
      \<Rightarrow> chaincode_state \<times> (chaincode_api_error + nat)" where
  "install_chaincode env s req chaincode_id version expected_hash body =
     (case cv_enforce_acl env ''peer/ChaincodeToChaincode'' req of
        Inl e \<Rightarrow> (s, Inl (CcForbidden e))
      | Inr _ \<Rightarrow>
      if chaincode_id = [] then (s, Inl (CcValidation ''chaincode_id''))
      else if version = [] then (s, Inl (CcValidation ''version''))
      else if body = [] then (s, Inl (CcValidation ''body''))
      else if (case expected_hash of
                 Some expected \<Rightarrow> map ascii_lower expected \<noteq> map ascii_lower (cv_sha_hex env body)
               | None \<Rightarrow> False) then (s, Inl (CcValidation ''expected_hash''))
      else (case cs_packages s of
              None \<Rightarrow> (s, Inl (CcNotFound ''chaincode_package_store''))
            | Some store \<Rightarrow>
                let report = cv_sandbox env chaincode_id version body;
                    s1 = s\<lparr>cs_packages := Some (store_package store chaincode_id version body),
                           cs_reports := hm_insert (store_key chaincode_id version) report (cs_reports s)\<rparr> in
                if \<not> sr_passed report then (s1, Inl (CcSandboxFailed (sr_failures report)))
                else (case cs_definitions s1 of
                        None \<Rightarrow> (s1, Inr (length body))
                      | Some defs \<Rightarrow>
                          (case get_definition defs chaincode_id version of
                             Some _ \<Rightarrow> (s1, Inr (length body))
                           | None \<Rightarrow> (s1\<lparr>cs_definitions := Some (upsert_definition defs
                               (chaincode_definition_new chaincode_id version (AnyOf [])))\<rparr>, Inr (length body))))))"

definition approved_orgs :: "chaincode_definition \<Rightarrow> string list" where
  "approved_orgs def = map fst (filter snd (cd_approvals def))"

definition record_approval :: "chaincode_definition \<Rightarrow> string \<Rightarrow> chaincode_definition \<times> bool" where
  "record_approval def org_id =
     (let def1 = def\<lparr>cd_approvals := hm_insert org_id True (cd_approvals def)\<rparr>;
          policy_satisfied = evaluate (cd_endorsement_policy def1) (approved_orgs def1) in
      (if policy_satisfied
       then (case transition_to (cd_status def1) Approved of Inr st \<Rightarrow> def1\<lparr>cd_status := st\<rparr> | Inl _ \<Rightarrow> def1)
       else def1, policy_satisfied))"

definition approve_chaincode ::
    "chaincode_env \<Rightarrow> chaincode_state \<Rightarrow> api_request \<Rightarrow> string \<Rightarrow> string \<Rightarrow> chaincode_state \<times> (chaincode_api_error + bool)" where
  "approve_chaincode env s req chaincode_id version =
     (case cv_enforce_acl env ''peer/ChaincodeToChaincode'' req of
        Inl e \<Rightarrow> (s, Inl (CcForbidden e))
      | Inr _ \<Rightarrow>
     (case ar_org_id_header req of
        None \<Rightarrow> (s, Inl (CcValidation ''X-Org-Id''))
      | Some org_id \<Rightarrow>
      if org_id = [] then (s, Inl (CcValidation ''X-Org-Id''))
      else if version = [] then (s, Inl (CcValidation ''version''))
      else (case cs_definitions s of
              None \<Rightarrow> (s, Inl (CcNotFound ''chaincode_definition_store''))
            | Some defs \<Rightarrow>
                (case get_definition defs chaincode_id version of
                   None \<Rightarrow> (s, Inl (CcNotFound (store_key chaincode_id version)))
                 | Some def \<Rightarrow>
                     let (def', policy_satisfied) = record_approval def org_id in
                     (s\<lparr>cs_definitions := Some (upsert_definition defs def')\<rparr>, Inr policy_satisfied)))))"

definition commit_chaincode ::
    "chaincode_env \<Rightarrow> chaincode_state \<Rightarrow> api_request \<Rightarrow> string \<Rightarrow> string \<Rightarrow> chaincode_state \<times> (chaincode_api_error + unit)" where
  "commit_chaincode env s req chaincode_id version =
     (case cv_enforce_acl env ''peer/ChaincodeToChaincode'' req of
        Inl e \<Rightarrow> (s, Inl (CcForbidden e))
      | Inr _ \<Rightarrow>
      if version = [] then (s, Inl (CcValidation ''version''))
      else (case cs_definitions s of
              None \<Rightarrow> (s, Inl (CcNotFound ''chaincode_definition_store''))
            | Some defs \<Rightarrow>
                (case get_definition defs chaincode_id version of
                   None \<Rightarrow> (s, Inl (CcNotFound (store_key chaincode_id version)))
                 | Some def \<Rightarrow>
                     if \<not> evaluate (cd_endorsement_policy def) (approved_orgs def) then (s, Inl CcPolicyNotSatisfied)
                     else (case transition_to (cd_status def) CommittedStatus of
                             Inl e \<Rightarrow> (s, Inl (CcInvalidTransition e))
                           | Inr st \<Rightarrow> (s\<lparr>cs_definitions := Some (upsert_definition defs (def\<lparr>cd_status := st\<rparr>))\<rparr>, Inr ())))))"

text \<open>Execution looks at the package only, not at the state of the definition; \<open>runner\<close> stands for the WebAssembly executor.\<close>

definition invoke_chaincode ::
    "chaincode_env \<Rightarrow> (bytes \<Rightarrow> string \<Rightarrow> 'w \<Rightarrow> 'w \<times> (string + bytes)) \<Rightarrow> chaincode_state \<Rightarrow> 'w option \<Rightarrow> api_request
      \<Rightarrow> string \<Rightarrow> string \<Rightarrow> string \<Rightarrow> 'w option \<times> (chaincode_api_error + (string + bytes))" where
  "invoke_chaincode env runner s world req chaincode_id version func =
     (case cv_enforce_acl env ''peer/ChaincodeToChaincode'' req of
        Inl e \<Rightarrow> (world, Inl (CcForbidden e))
      | Inr _ \<Rightarrow>
     (case cs_packages s of
        None \<Rightarrow> (world, Inl (CcNotFound ''chaincode_package_store''))
      | Some store \<Rightarrow>
     (case get_package store chaincode_id version of
        None \<Rightarrow> (world, Inl (CcNotFound (store_key chaincode_id version)))
      | Some wasm \<Rightarrow>
     (case world of
        None \<Rightarrow> (world, Inl (CcNotFound ''world_state''))
      | Some w \<Rightarrow> (case runner wasm func w of (w', res) \<Rightarrow> (Some w', Inr res))))))"

datatype chaincode_request =
    InstallRequest api_request string string "string option" bytes
  | ApproveRequest api_request string string
  | CommitRequest api_request string string

fun chaincode_step :: "chaincode_env \<Rightarrow> chaincode_state \<Rightarrow> chaincode_request \<Rightarrow> chaincode_state" where
  "chaincode_step env s (InstallRequest req i v h b) = fst (install_chaincode env s req i v h b)"
| "chaincode_step env s (ApproveRequest req i v) = fst (approve_chaincode env s req i v)"
| "chaincode_step env s (CommitRequest req i v) = fst (commit_chaincode env s req i v)"

section \<open>Only endorsed definitions advance\<close>

definition endorsed_definition :: "chaincode_definition \<Rightarrow> bool" where
  "endorsed_definition d \<longleftrightarrow> hm_ok (cd_approvals d) \<and>
     (cd_status d \<noteq> Installed \<longrightarrow> policy_sat (cd_endorsement_policy d) (set (approved_orgs d)))"

definition lifecycle_ok :: "chaincode_state \<Rightarrow> bool" where
  "lifecycle_ok s \<longleftrightarrow> (\<forall>defs k d. cs_definitions s = Some defs \<longrightarrow> map_of defs k = Some d \<longrightarrow> endorsed_definition d)"

lemma approved_orgs_insert:
  assumes "hm_ok (cd_approvals d)"
  shows "set (approved_orgs (d\<lparr>cd_approvals := hm_insert o' True (cd_approvals d)\<rparr>)) = insert o' (set (approved_orgs d))"
  using hm_entries_insert [OF assms, of o' True] by (auto simp: approved_orgs_def image_iff)

lemma record_approval_ok:
  assumes "endorsed_definition d"
  shows "endorsed_definition (fst (record_approval d o'))"
    and "set (approved_orgs (fst (record_approval d o'))) = insert o' (set (approved_orgs d))"
proof -
  have ok: "hm_ok (cd_approvals d)" using assms by (simp add: endorsed_definition_def)
  have orgs: "approved_orgs (d'\<lparr>cd_status := st\<rparr>) = approved_orgs d'" for d' st by (simp add: approved_orgs_def)
  show "set (approved_orgs (fst (record_approval d o'))) = insert o' (set (approved_orgs d))"
    using approved_orgs_insert [OF ok, of o'] by (simp add: record_approval_def Let_def orgs split: sum.split)
  show "endorsed_definition (fst (record_approval d o'))"
    using assms approved_orgs_insert [OF ok, of o']
    by (auto simp: record_approval_def Let_def endorsed_definition_def orgs evaluate_sat transition_to_def
        intro: policy_sat_mono split: if_splits)
qed

lemma new_definition_ok: "endorsed_definition (chaincode_definition_new i v p)"
  by (simp add: endorsed_definition_def chaincode_definition_new_def)

lemma chaincode_step_ok:
  assumes "lifecycle_ok s"
  shows "lifecycle_ok (chaincode_step env s r)"
proof (cases r)
  case (InstallRequest req i v h b)
  then show ?thesis
    using assms new_definition_ok
    by (auto simp: install_chaincode_def lifecycle_ok_def upsert_definition_def Let_def split: sum.split option.split if_splits)
next
  case (ApproveRequest req i v)
  then show ?thesis
    using assms record_approval_ok(1)
    by (auto simp: approve_chaincode_def lifecycle_ok_def upsert_definition_def get_definition_def Let_def case_prod_unfold
        split: sum.splits option.splits if_splits)
next
  case (CommitRequest req i v)
  have "endorsed_definition (d\<lparr>cd_status := st\<rparr>)" if "endorsed_definition d" "evaluate (cd_endorsement_policy d) (approved_orgs d)" for d st
    using that by (simp add: endorsed_definition_def evaluate_sat approved_orgs_def)
  then show ?thesis
    using assms CommitRequest
    by (auto simp: commit_chaincode_def lifecycle_ok_def upsert_definition_def get_definition_def split: sum.splits option.splits if_splits)
qed

text \<open>
  Whatever sequence of install, approve and commit requests arrives, a definition that is approved or
  committed carries approvals of organizations that satisfy its endorsement policy.
\<close>

theorem chaincode_committed_endorsed:
  assumes "lifecycle_ok s" and "cs_definitions (foldl (chaincode_step env) s rs) = Some defs"
    and "get_definition defs i v = Some d" and "cd_status d \<noteq> Installed"
  shows "policy_sat (cd_endorsement_policy d) (set (approved_orgs d))"
proof -
  have "lifecycle_ok (foldl (chaincode_step env) u rs)" if "lifecycle_ok u" for u
    using that by (induction rs arbitrary: u) (simp_all add: chaincode_step_ok)
  from this [OF assms(1)] have "endorsed_definition d"
    using assms(2,3) unfolding lifecycle_ok_def get_definition_def by blast
  then show ?thesis using assms(4) by (simp add: endorsed_definition_def)
qed

definition open_env :: chaincode_env where
  "open_env = \<lparr>cv_enforce_acl = (\<lambda>_ _. Inr ()), cv_sha_hex = (\<lambda>_. ''00''), cv_sandbox = (\<lambda>_ _ b. \<lparr>sr_passed = hd b = 0, sr_failures = []\<rparr>)\<rparr>"

definition org_request :: "string \<Rightarrow> api_request" where
  "org_request org = \<lparr>ar_tls_identity = None, ar_msp_role_header = None, ar_org_id_header = Some org\<rparr>"

definition seeded_state :: chaincode_state where
  "seeded_state = \<lparr>cs_packages = Some [],
     cs_definitions = Some (upsert_definition [] (chaincode_definition_new ''cc'' ''1'' (AllOf [''a'', ''b'']))), cs_reports = []\<rparr>"

lemmas chaincode_demo_simps = open_env_def org_request_def seeded_state_def upsert_definition_def chaincode_definition_new_def
  get_definition_def store_key_def hm_insert_def transition_to_def record_approval_def approved_orgs_def

theorem chaincode_committed_endorsed_witness:
  "\<exists>defs d. cs_definitions (foldl (chaincode_step open_env) seeded_state
      [ApproveRequest (org_request ''a'') ''cc'' ''1'', ApproveRequest (org_request ''b'') ''cc'' ''1'', CommitRequest (org_request ''a'') ''cc'' ''1'']) = Some defs \<and>
     get_definition defs ''cc'' ''1'' = Some d \<and> cd_status d = CommittedStatus \<and> policy_sat (cd_endorsement_policy d) (set (approved_orgs d))"
proof -
  let ?rs = "[ApproveRequest (org_request ''a'') ''cc'' ''1'', ApproveRequest (org_request ''b'') ''cc'' ''1'', CommitRequest (org_request ''a'') ''cc'' ''1'']"
  have ok: "lifecycle_ok seeded_state"
    by (auto simp: lifecycle_ok_def seeded_state_def upsert_definition_def new_definition_ok hm_insert_def split: if_splits)
  have "\<exists>defs d. cs_definitions (foldl (chaincode_step open_env) seeded_state ?rs) = Some defs \<and>
      get_definition defs ''cc'' ''1'' = Some d \<and> cd_status d = CommittedStatus"
    by (simp add: approve_chaincode_def commit_chaincode_def chaincode_demo_simps Let_def)
  then obtain defs d where d: "cs_definitions (foldl (chaincode_step open_env) seeded_state ?rs) = Some defs"
      "get_definition defs ''cc'' ''1'' = Some d" "cd_status d = CommittedStatus" by blast
  then show ?thesis using chaincode_committed_endorsed [OF ok d(1,2)] by auto
qed

text \<open>
  A definition that \<open>install_chaincode\<close> creates can never be approved: its policy asks for one of an empty list of
  organizations. As no other handler creates definitions, no chaincode installed through the interface is ever committed, although the
  comment says that the whole life cycle works from there.
\<close>

definition unapprovable :: "chaincode_state \<Rightarrow> bool" where
  "unapprovable s \<longleftrightarrow> (\<forall>defs k d. cs_definitions s = Some defs \<longrightarrow> map_of defs k = Some d \<longrightarrow>
     cd_endorsement_policy d = AnyOf [] \<and> cd_status d = Installed)"

lemma unapprovable_step: "unapprovable s \<Longrightarrow> unapprovable (chaincode_step env s r)"
  by (cases r)
    (auto simp: install_chaincode_def approve_chaincode_def commit_chaincode_def unapprovable_def upsert_definition_def get_definition_def
      record_approval_def chaincode_definition_new_def Let_def split: sum.splits option.splits if_splits)

theorem installed_chaincode_never_commits:
  assumes "cs_definitions s = Some []" and "cs_definitions (foldl (chaincode_step env) s rs) = Some defs"
    and "get_definition defs i v = Some d"
  shows "cd_status d = Installed"
proof -
  have run: "unapprovable (foldl (chaincode_step env) u rs)" if "unapprovable u" for u
    using that by (induction rs arbitrary: u) (simp_all add: unapprovable_step)
  have "unapprovable s" using assms(1) by (simp add: unapprovable_def)
  from run [OF this] show ?thesis using assms(2,3) unfolding unapprovable_def get_definition_def by blast
qed

text \<open>
  A package that the sandbox rejects is stored all the same, and can be invoked: the check runs after the
  package is written, and execution does not ask for the report or for the state of the definition.
\<close>

theorem rejected_package_runs:
  assumes "cv_enforce_acl env ''peer/ChaincodeToChaincode'' req = Inr ()" and "i \<noteq> []" and "v \<noteq> []" and "body \<noteq> []"
    and "cs_packages s = Some store" and "\<not> sr_passed (cv_sandbox env i v body)"
    and "install_chaincode env s req i v None body = (s', res)"
  shows "(\<exists>fs. res = Inl (CcSandboxFailed fs)) \<and>
    invoke_chaincode env runner s' (Some w) req i v func = (case runner body func w of (w', r) \<Rightarrow> (Some w', Inr r))"
proof -
  have res: "s' = s\<lparr>cs_packages := Some (store_package store i v body),
      cs_reports := hm_insert (store_key i v) (cv_sandbox env i v body) (cs_reports s)\<rparr>"
    "res = Inl (CcSandboxFailed (sr_failures (cv_sandbox env i v body)))"
    using assms(7) assms(1-6) by (simp_all add: install_chaincode_def Let_def)
  show ?thesis using assms(1) by (simp add: res invoke_chaincode_def get_package_def store_package_def)
qed

text \<open>
  An approval is recorded for the organization named in a header, which the access check ignores in strict mode: a
  caller authenticated as one organization approves for another.
\<close>

theorem approval_for_another_org:
  assumes "cv_enforce_acl env = enforce_acl parse_role False (Some acl) (Some ps)"
    and "enforce_acl parse_role False (Some acl) (Some ps) ''peer/ChaincodeToChaincode'' (req\<lparr>ar_org_id_header := None\<rparr>) = Inr ()"
    and "cs_definitions s = Some defs" and "get_definition defs i v = Some d" and "hm_ok (cd_approvals d)" and "v \<noteq> []" and "victim \<noteq> []"
    and "cd_chaincode_id d = i" and "cd_version d = v"
    and "approve_chaincode env s (req\<lparr>ar_org_id_header := Some victim\<rparr>) i v = (s', res)"
  shows "\<exists>defs' d'. cs_definitions s' = Some defs' \<and> get_definition defs' i v = Some d' \<and> victim \<in> set (approved_orgs d')"
proof -
  have acl: "enforce_acl parse_role False (Some acl) (Some ps) ''peer/ChaincodeToChaincode'' (req\<lparr>ar_org_id_header := Some victim\<rparr>) = Inr ()"
    using assms(2) by (simp add: enforce_acl_strict)
  have "set (approved_orgs (fst (record_approval d victim))) = insert victim (set (approved_orgs d))"
    using approved_orgs_insert [OF assms(5), of victim]
    by (simp add: record_approval_def Let_def approved_orgs_def split: sum.split)
  moreover have "cd_chaincode_id (fst (record_approval d victim)) = i \<and> cd_version (fst (record_approval d victim)) = v"
    using assms(8,9) by (simp add: record_approval_def Let_def split: sum.split)
  moreover have "s' = s\<lparr>cs_definitions := Some (upsert_definition defs (fst (record_approval d victim)))\<rparr>"
    using assms(10) by (simp add: approve_chaincode_def assms(1,3,4,6,7) acl Let_def case_prod_unfold)
  ultimately show ?thesis by (simp add: upsert_definition_def get_definition_def)
qed

section \<open>Upgrades\<close>

record upgrade_proposal =
  up_chaincode_id :: string
  up_current_version :: string
  up_new_version :: string
  up_package_hash :: hash32
  up_approvals :: "string list"
  up_required_orgs :: "string list"
  up_proposed_at :: u64
  up_committed :: bool

datatype upgrade_error =
    UpgradeNotFound string
  | UpgradePending string string
  | UnauthorizedOrg string
  | UpgradeApproved string
  | InsufficientApprovals nat nat
  | UpgradeCommitted

record upgrade_manager =
  um_pending :: "(string, upgrade_proposal) hash_map"
  um_history :: "(string, upgrade_proposal list) hash_map"

definition upgrade_manager_new :: upgrade_manager where
  "upgrade_manager_new = \<lparr>um_pending = [], um_history = []\<rparr>"

text \<open>The sets of organizations are lists without repetitions.\<close>

definition is_ready :: "upgrade_proposal \<Rightarrow> bool" where
  "is_ready p \<longleftrightarrow> list_all (\<lambda>org. org \<in> set (up_approvals p)) (up_required_orgs p)"

definition pending_approvals :: "upgrade_proposal \<Rightarrow> string list" where
  "pending_approvals p = filter (\<lambda>org. org \<notin> set (up_approvals p)) (up_required_orgs p)"

definition upgrade_propose ::
    "upgrade_manager \<Rightarrow> string \<Rightarrow> string \<Rightarrow> string \<Rightarrow> hash32 \<Rightarrow> string list \<Rightarrow> u64 \<Rightarrow> upgrade_manager \<times> (upgrade_error + unit)" where
  "upgrade_propose m chaincode_id current_version new_version package_hash required_orgs block_height =
     (let p = \<lparr>up_chaincode_id = chaincode_id, up_current_version = current_version, up_new_version = new_version,
               up_package_hash = package_hash, up_approvals = [], up_required_orgs = remdups required_orgs,
               up_proposed_at = block_height, up_committed = False\<rparr>;
          m' = m\<lparr>um_pending := hm_insert chaincode_id p (um_pending m)\<rparr> in
      case map_of (um_pending m) chaincode_id of
        Some existing \<Rightarrow> if \<not> up_committed existing then (m, Inl (UpgradePending chaincode_id (up_new_version existing))) else (m', Inr ())
      | None \<Rightarrow> (m', Inr ()))"

definition upgrade_approve :: "upgrade_manager \<Rightarrow> string \<Rightarrow> string \<Rightarrow> upgrade_manager \<times> (upgrade_error + upgrade_proposal)" where
  "upgrade_approve m chaincode_id org_id =
     (case map_of (um_pending m) chaincode_id of
        None \<Rightarrow> (m, Inl (UpgradeNotFound chaincode_id))
      | Some p \<Rightarrow>
          if up_committed p then (m, Inl UpgradeCommitted)
          else if org_id \<notin> set (up_required_orgs p) then (m, Inl (UnauthorizedOrg org_id))
          else if org_id \<in> set (up_approvals p) then (m, Inl (UpgradeApproved org_id))
          else let p' = p\<lparr>up_approvals := up_approvals p @ [org_id]\<rparr> in
            (m\<lparr>um_pending := hm_insert chaincode_id p' (um_pending m)\<rparr>, Inr p'))"

definition upgrade_commit :: "upgrade_manager \<Rightarrow> string \<Rightarrow> upgrade_manager \<times> (upgrade_error + upgrade_proposal)" where
  "upgrade_commit m chaincode_id =
     (case map_of (um_pending m) chaincode_id of
        None \<Rightarrow> (m, Inl (UpgradeNotFound chaincode_id))
      | Some p \<Rightarrow>
          if up_committed p then (m, Inl UpgradeCommitted)
          else if \<not> is_ready p then (m, Inl (InsufficientApprovals (length (up_approvals p)) (length (up_required_orgs p))))
          else let p' = p\<lparr>up_committed := True\<rparr> in
            (m\<lparr>um_pending := hm_insert chaincode_id p' (um_pending m),
               um_history := hm_insert chaincode_id
                 ((case map_of (um_history m) chaincode_id of Some ps \<Rightarrow> ps | None \<Rightarrow> []) @ [p']) (um_history m)\<rparr>, Inr p'))"

definition get_pending :: "upgrade_manager \<Rightarrow> string \<Rightarrow> upgrade_proposal option" where
  "get_pending m chaincode_id =
     (case map_of (um_pending m) chaincode_id of Some p \<Rightarrow> if up_committed p then None else Some p | None \<Rightarrow> None)"

definition upgrade_history :: "upgrade_manager \<Rightarrow> string \<Rightarrow> upgrade_proposal list" where
  "upgrade_history m chaincode_id = (case map_of (um_history m) chaincode_id of Some ps \<Rightarrow> ps | None \<Rightarrow> [])"

datatype upgrade_call =
    ProposeCall string string string hash32 "string list" u64
  | ApproveCall string string
  | CommitCall string

fun upgrade_step :: "upgrade_manager \<Rightarrow> upgrade_call \<Rightarrow> upgrade_manager" where
  "upgrade_step m (ProposeCall i cur new h orgs height) = fst (upgrade_propose m i cur new h orgs height)"
| "upgrade_step m (ApproveCall i org) = fst (upgrade_approve m i org)"
| "upgrade_step m (CommitCall i) = fst (upgrade_commit m i)"

text \<open>
  A proposal is backed by calls: one that proposed exactly it, and after it one per approval, by an organization that
  was asked.
\<close>

definition backed_by :: "upgrade_call list \<Rightarrow> string \<Rightarrow> upgrade_proposal \<Rightarrow> bool" where
  "backed_by calls i p \<longleftrightarrow> (\<exists>before after orgs.
     calls = before @ ProposeCall i (up_current_version p) (up_new_version p) (up_package_hash p) orgs (up_proposed_at p) # after \<and>
     set (up_required_orgs p) = set orgs \<and> set (up_approvals p) \<subseteq> set orgs \<and> (\<forall>org \<in> set (up_approvals p). ApproveCall i org \<in> set after))"

definition upgrades_ok :: "upgrade_call list \<Rightarrow> upgrade_manager \<Rightarrow> bool" where
  "upgrades_ok calls m \<longleftrightarrow>
     (\<forall>i p. map_of (um_pending m) i = Some p \<longrightarrow> backed_by calls i p) \<and>
     (\<forall>i p. p \<in> set (upgrade_history m i) \<longrightarrow> backed_by calls i p \<and> is_ready p \<and> up_committed p)"

lemma backed_by_append: "backed_by calls i p \<Longrightarrow> backed_by (calls @ later) i p"
  unfolding backed_by_def by (metis (no_types, opaque_lifting) Un_iff append.assoc append_Cons set_append)

lemma backed_by_approve:
  assumes "backed_by calls i p" and "org \<in> set (up_required_orgs p)"
  shows "backed_by (calls @ [ApproveCall i org]) i (p\<lparr>up_approvals := up_approvals p @ [org]\<rparr>)"
proof -
  obtain before after orgs where b: "calls = before @ ProposeCall i (up_current_version p) (up_new_version p) (up_package_hash p) orgs (up_proposed_at p) # after"
      "set (up_required_orgs p) = set orgs" "set (up_approvals p) \<subseteq> set orgs" "\<forall>org \<in> set (up_approvals p). ApproveCall i org \<in> set after"
    using assms(1) by (auto simp: backed_by_def)
  show ?thesis
    unfolding backed_by_def using b assms(2)
    by (intro exI [of _ before] exI [of _ "after @ [ApproveCall i org]"] exI [of _ orgs]) auto
qed

lemma backed_by_committed [simp]: "backed_by calls i (p\<lparr>up_committed := b\<rparr>) = backed_by calls i p"
  by (simp add: backed_by_def)

lemma upgrades_ok_later: "upgrades_ok calls m \<Longrightarrow> upgrades_ok (calls @ later) m"
  unfolding upgrades_ok_def using backed_by_append by blast

lemma upgrades_ok_pending:
  "upgrades_ok calls m \<Longrightarrow> backed_by calls i p \<Longrightarrow> upgrades_ok calls (m\<lparr>um_pending := hm_insert i p (um_pending m)\<rparr>)"
  by (simp add: upgrades_ok_def upgrade_history_def)

lemma upgrades_ok_history:
  assumes "upgrades_ok calls m" and "backed_by calls i p" and "is_ready p" and "up_committed p"
  shows "upgrades_ok calls (m\<lparr>um_history := hm_insert i (upgrade_history m i @ [p]) (um_history m)\<rparr>)"
proof -
  have "upgrade_history (m\<lparr>um_history := hm_insert i (upgrade_history m i @ [p]) (um_history m)\<rparr>) j =
      (if j = i then upgrade_history m i @ [p] else upgrade_history m j)" for j
    by (simp add: upgrade_history_def)
  then show ?thesis using assms unfolding upgrades_ok_def by auto
qed

lemma upgrade_step_ok:
  assumes "upgrades_ok calls m"
  shows "upgrades_ok (calls @ [c]) (upgrade_step m c)"
proof (cases c)
  case (ProposeCall i cur new h orgs height)
  let ?p = "\<lparr>up_chaincode_id = i, up_current_version = cur, up_new_version = new, up_package_hash = h,
      up_approvals = [], up_required_orgs = remdups orgs, up_proposed_at = height, up_committed = False\<rparr>"
  have "backed_by (calls @ [c]) i ?p"
    unfolding backed_by_def ProposeCall by (intro exI [of _ calls] exI [of _ "[]"] exI [of _ orgs]) simp
  moreover have "upgrade_step m c = m \<or> upgrade_step m c = m\<lparr>um_pending := hm_insert i ?p (um_pending m)\<rparr>"
    by (auto simp: ProposeCall upgrade_propose_def Let_def split: option.split)
  ultimately show ?thesis using upgrades_ok_later [OF assms, of "[c]"] upgrades_ok_pending by auto
next
  case (ApproveCall i org)
  have step: "upgrade_step m c = m \<or> (\<exists>p. map_of (um_pending m) i = Some p \<and> org \<in> set (up_required_orgs p) \<and>
      upgrade_step m c = m\<lparr>um_pending := hm_insert i (p\<lparr>up_approvals := up_approvals p @ [org]\<rparr>) (um_pending m)\<rparr>)"
    by (auto simp: ApproveCall upgrade_approve_def Let_def split: option.split)
  have "backed_by (calls @ [c]) i (p\<lparr>up_approvals := up_approvals p @ [org]\<rparr>)"
    if "map_of (um_pending m) i = Some p" "org \<in> set (up_required_orgs p)" for p
    unfolding ApproveCall by (rule backed_by_approve) (use assms that in \<open>auto simp: upgrades_ok_def\<close>)
  then show ?thesis using step upgrades_ok_later [OF assms, of "[c]"] upgrades_ok_pending by metis
next
  case (CommitCall i)
  have step: "upgrade_step m c = m \<or> (\<exists>p. map_of (um_pending m) i = Some p \<and> is_ready p \<and>
      upgrade_step m c = (m\<lparr>um_pending := hm_insert i (p\<lparr>up_committed := True\<rparr>) (um_pending m)\<rparr>)
        \<lparr>um_history := hm_insert i (upgrade_history (m\<lparr>um_pending := hm_insert i (p\<lparr>up_committed := True\<rparr>) (um_pending m)\<rparr>) i @
           [p\<lparr>up_committed := True\<rparr>]) (um_history (m\<lparr>um_pending := hm_insert i (p\<lparr>up_committed := True\<rparr>) (um_pending m)\<rparr>))\<rparr>)"
    by (auto simp: CommitCall upgrade_commit_def upgrade_history_def Let_def split: option.split)
  show ?thesis
  proof (rule disjE [OF step])
    assume "\<exists>p. map_of (um_pending m) i = Some p \<and> is_ready p \<and>
      upgrade_step m c = (m\<lparr>um_pending := hm_insert i (p\<lparr>up_committed := True\<rparr>) (um_pending m)\<rparr>)
        \<lparr>um_history := hm_insert i (upgrade_history (m\<lparr>um_pending := hm_insert i (p\<lparr>up_committed := True\<rparr>) (um_pending m)\<rparr>) i @
           [p\<lparr>up_committed := True\<rparr>]) (um_history (m\<lparr>um_pending := hm_insert i (p\<lparr>up_committed := True\<rparr>) (um_pending m)\<rparr>))\<rparr>"
    then obtain p where p: "map_of (um_pending m) i = Some p" "is_ready p"
      and s: "upgrade_step m c = (m\<lparr>um_pending := hm_insert i (p\<lparr>up_committed := True\<rparr>) (um_pending m)\<rparr>)
        \<lparr>um_history := hm_insert i (upgrade_history (m\<lparr>um_pending := hm_insert i (p\<lparr>up_committed := True\<rparr>) (um_pending m)\<rparr>) i @
           [p\<lparr>up_committed := True\<rparr>]) (um_history (m\<lparr>um_pending := hm_insert i (p\<lparr>up_committed := True\<rparr>) (um_pending m)\<rparr>))\<rparr>"
      by blast
    have b: "backed_by (calls @ [c]) i (p\<lparr>up_committed := True\<rparr>)"
      using upgrades_ok_later [OF assms, of "[c]"] p(1) by (simp add: upgrades_ok_def)
    show ?thesis unfolding s
      by (rule upgrades_ok_history [OF upgrades_ok_pending [OF upgrades_ok_later [OF assms] b] b])
        (use p(2) in \<open>simp_all add: is_ready_def\<close>)
  qed (use upgrades_ok_later [OF assms, of "[c]"] in simp)
qed

text \<open>
  C23: an upgrade takes effect only when every organization it requires agreed to it: each upgrade in the history was proposed
  by a call with the same versions, package and organizations, and after that call each of these organizations approved it.
\<close>

theorem upgrade_needs_all_orgs:
  assumes "p \<in> set (upgrade_history (foldl upgrade_step upgrade_manager_new calls) i)"
  shows "\<exists>before after orgs.
    calls = before @ ProposeCall i (up_current_version p) (up_new_version p) (up_package_hash p) orgs (up_proposed_at p) # after \<and>
    (\<forall>org \<in> set orgs. ApproveCall i org \<in> set after)"
proof -
  have "upgrades_ok calls (foldl upgrade_step upgrade_manager_new calls)"
  proof (induction calls rule: rev_induct)
    case (snoc c calls)
    then show ?case using upgrade_step_ok by simp
  qed (simp add: upgrades_ok_def upgrade_manager_new_def upgrade_history_def)
  then have "backed_by calls i p" "is_ready p" using assms by (auto simp: upgrades_ok_def)
  then show ?thesis by (fastforce simp: backed_by_def is_ready_def list_all_iff)
qed

theorem upgrade_needs_all_orgs_witness:
  "\<exists>before after orgs.
    [ProposeCall ''cc'' ''1'' ''2'' 7 [''a'', ''b''] 5, ApproveCall ''cc'' ''b'', ApproveCall ''cc'' ''a'', CommitCall ''cc''] =
      before @ ProposeCall ''cc'' ''1'' ''2'' 7 orgs 5 # after \<and> (\<forall>org \<in> set orgs. ApproveCall ''cc'' org \<in> set after)"
proof -
  let ?calls = "[ProposeCall ''cc'' ''1'' ''2'' 7 [''a'', ''b''] 5, ApproveCall ''cc'' ''b'', ApproveCall ''cc'' ''a'', CommitCall ''cc'']"
  let ?p = "\<lparr>up_chaincode_id = ''cc'', up_current_version = ''1'', up_new_version = ''2'', up_package_hash = 7, up_approvals = [''b'', ''a''],
    up_required_orgs = [''a'', ''b''], up_proposed_at = 5, up_committed = True\<rparr>"
  have "?p \<in> set (upgrade_history (foldl upgrade_step upgrade_manager_new ?calls) ''cc'')"
    by (simp add: upgrade_propose_def upgrade_approve_def upgrade_commit_def upgrade_manager_new_def is_ready_def upgrade_history_def
        hm_insert_def Let_def)
  from upgrade_needs_all_orgs [OF this] show ?thesis by simp
qed

text \<open>
  The organizations that must agree are those the proposer lists, not those of an endorsement policy: with an empty list an
  upgrade commits at once, without any approval.
\<close>

theorem unilateral_upgrade:
  assumes "map_of (um_pending m) i = None"
  shows "\<exists>m' p. upgrade_commit (fst (upgrade_propose m i cur new h [] height)) i = (m', Inr p) \<and> up_approvals p = [] \<and> up_new_version p = new"
  using assms by (simp add: upgrade_propose_def upgrade_commit_def is_ready_def Let_def)

end
