(* ===== verification/Collateral.thy ===== *)
theory Collateral
  imports Cerulean_Prelude
begin

text \<open>
  Collateral of oracles and disputes about their reports (\<open>src/oracle_collateral.rs\<close>): the pools, the bonds, the challenges with their
  votes, slashing and withdrawals. Balances are words; the theorems say when their sums do not wrap.
\<close>

section \<open>Pools\<close>

datatype bonding_status = BondPending | BondActive | BondReleased
datatype challenge_status = ChallengePending | ChallengeVoting | ChallengeResolved | ChallengeStatusRejected
datatype challenge_outcome = ChallengeAccepted | ChallengeRejected | OutcomePending

record bonding_request =
  bd_oracle_id :: string
  bd_amount :: u64
  bd_timestamp :: u64
  bd_status :: bonding_status

record dispute_challenge =
  dc_id :: string
  dc_oracle_id :: string
  dc_challenger_id :: string
  dc_report_hash :: string
  dc_evidence :: string
  dc_timestamp :: u64
  dc_status :: challenge_status
  dc_votes_for :: u64
  dc_votes_against :: u64
  dc_voting_end_time :: u64

record collateral_pool =
  cp_oracle_id :: string
  cp_locked_balance :: u64
  cp_available_balance :: u64
  cp_in_dispute_balance :: u64
  cp_min_collateral :: u64
  cp_dispute_lock_period_ms :: u64
  cp_slashing_factor :: u8
  cp_total_slashed :: u64

datatype collateral_error =
    PoolExists
  | PoolNotFound
  | InsufficientAvailable
  | InsufficientLocked
  | InsufficientDisputed
  | BelowMinimum u64 u64
  | BondNotFound
  | OracleNotBonded
  | AlreadyChallenged
  | ChallengeNotFound
  | NotInVoting
  | VotingNotEnded
  | ActiveDisputes
  | CannotWithdraw
  | NoRewards

definition collateral_pool_new :: "string \<Rightarrow> u64 \<Rightarrow> collateral_pool" where
  "collateral_pool_new oracle_id min_collateral =
     \<lparr>cp_oracle_id = oracle_id, cp_locked_balance = 0, cp_available_balance = 0, cp_in_dispute_balance = 0,
      cp_min_collateral = min_collateral, cp_dispute_lock_period_ms = 604800000, cp_slashing_factor = 10, cp_total_slashed = 0\<rparr>"

definition pool_deposit :: "collateral_pool \<Rightarrow> u64 \<Rightarrow> collateral_pool" where
  "pool_deposit p amount = p\<lparr>cp_available_balance := cp_available_balance p + amount\<rparr>"

definition pool_lock :: "collateral_pool \<Rightarrow> u64 \<Rightarrow> collateral_error + collateral_pool" where
  "pool_lock p amount =
     (if cp_available_balance p < amount then Inl InsufficientAvailable
      else Inr (p\<lparr>cp_available_balance := cp_available_balance p - amount, cp_locked_balance := cp_locked_balance p + amount\<rparr>))"

definition pool_dispute :: "collateral_pool \<Rightarrow> u64 \<Rightarrow> collateral_error + collateral_pool" where
  "pool_dispute p amount =
     (if cp_locked_balance p < amount then Inl InsufficientLocked
      else Inr (p\<lparr>cp_locked_balance := cp_locked_balance p - amount, cp_in_dispute_balance := cp_in_dispute_balance p + amount\<rparr>))"

definition pool_release :: "collateral_pool \<Rightarrow> u64 \<Rightarrow> collateral_error + collateral_pool" where
  "pool_release p amount =
     (if cp_in_dispute_balance p < amount then Inl InsufficientDisputed
      else Inr (p\<lparr>cp_in_dispute_balance := cp_in_dispute_balance p - amount, cp_available_balance := cp_available_balance p + amount\<rparr>))"

definition pool_slash :: "collateral_pool \<Rightarrow> u64 \<Rightarrow> collateral_error + collateral_pool \<times> u64" where
  "pool_slash p amount =
     (if cp_in_dispute_balance p < amount then Inl InsufficientDisputed
      else let slash_amount = (amount * ucast (cp_slashing_factor p)) div 100 in
        Inr (p\<lparr>cp_in_dispute_balance := cp_in_dispute_balance p - amount, cp_total_slashed := cp_total_slashed p + slash_amount\<rparr>, slash_amount))"

definition pool_restore :: "collateral_pool \<Rightarrow> u64 \<Rightarrow> collateral_error + collateral_pool" where
  "pool_restore p amount =
     (if cp_in_dispute_balance p < amount then Inl InsufficientDisputed
      else Inr (p\<lparr>cp_in_dispute_balance := cp_in_dispute_balance p - amount, cp_available_balance := cp_available_balance p + amount\<rparr>))"

definition can_withdraw :: "collateral_pool \<Rightarrow> u64 \<Rightarrow> bool" where
  "can_withdraw p amount \<longleftrightarrow> cp_available_balance p \<ge> amount \<and> cp_in_dispute_balance p = 0"

definition total_collateral :: "collateral_pool \<Rightarrow> u64" where
  "total_collateral p = cp_locked_balance p + cp_available_balance p + cp_in_dispute_balance p"

section \<open>The registry\<close>

record bonding_registry =
  bg_pools :: "(string, collateral_pool) hash_map"
  bg_pending_bonds :: "bonding_request list"
  bg_challenges :: "dispute_challenge list"
  bg_slashed_total :: u64
  bg_slasher_rewards :: "(string, u64) hash_map"
  bg_min_collateral :: u64
  bg_voting_period_ms :: u64
  bg_challenge_counter :: u64

definition bonding_registry_new :: "u64 \<Rightarrow> bonding_registry" where
  "bonding_registry_new min_collateral =
     \<lparr>bg_pools = [], bg_pending_bonds = [], bg_challenges = [], bg_slashed_total = 0, bg_slasher_rewards = [],
      bg_min_collateral = min_collateral, bg_voting_period_ms = 259200000, bg_challenge_counter = 0\<rparr>"

definition put_pool :: "bonding_registry \<Rightarrow> string \<Rightarrow> collateral_pool \<Rightarrow> bonding_registry" where
  "put_pool r i p = r\<lparr>bg_pools := hm_insert i p (bg_pools r)\<rparr>"

definition create_pool :: "bonding_registry \<Rightarrow> string \<Rightarrow> bonding_registry \<times> (collateral_error + unit)" where
  "create_pool r oracle_id =
     (if hm_contains oracle_id (bg_pools r) then (r, Inl PoolExists)
      else (put_pool r oracle_id (collateral_pool_new oracle_id (bg_min_collateral r)), Inr ()))"

definition deposit_collateral :: "bonding_registry \<Rightarrow> string \<Rightarrow> u64 \<Rightarrow> bonding_registry \<times> (collateral_error + unit)" where
  "deposit_collateral r oracle_id amount =
     (let r1 = (if hm_contains oracle_id (bg_pools r) then r else fst (create_pool r oracle_id)) in
      case map_of (bg_pools r1) oracle_id of
        Some p \<Rightarrow> (put_pool r1 oracle_id (pool_deposit p amount), Inr ())
      | None \<Rightarrow> (r1, Inl PoolNotFound))"

definition lock_collateral :: "bonding_registry \<Rightarrow> string \<Rightarrow> u64 \<Rightarrow> u64 \<Rightarrow> bonding_registry \<times> (collateral_error + unit)" where
  "lock_collateral r oracle_id amount timestamp =
     (if amount < bg_min_collateral r then (r, Inl (BelowMinimum amount (bg_min_collateral r)))
      else (case map_of (bg_pools r) oracle_id of
              None \<Rightarrow> (r, Inl PoolNotFound)
            | Some p \<Rightarrow>
                (case pool_lock p amount of
                   Inl e \<Rightarrow> (r, Inl e)
                 | Inr p' \<Rightarrow>
                     let bonds = (if length (bg_pending_bonds r) \<ge> 10000
                                  then filter (\<lambda>b. bd_status b = BondPending) (bg_pending_bonds r) else bg_pending_bonds r) in
                     ((put_pool r oracle_id p')\<lparr>bg_pending_bonds := bonds @
                        [\<lparr>bd_oracle_id = oracle_id, bd_amount = amount, bd_timestamp = timestamp, bd_status = BondPending\<rparr>]\<rparr>, Inr ()))))"

definition activate_bond :: "bonding_registry \<Rightarrow> string \<Rightarrow> bonding_registry \<times> (collateral_error + unit)" where
  "activate_bond r oracle_id =
     (case position_of (\<lambda>b. bd_oracle_id b = oracle_id) (bg_pending_bonds r) of
        None \<Rightarrow> (r, Inl BondNotFound)
      | Some i \<Rightarrow> (r\<lparr>bg_pending_bonds := (bg_pending_bonds r)[i := (bg_pending_bonds r ! i)\<lparr>bd_status := BondActive\<rparr>]\<rparr>, Inr ()))"

definition has_active_bond :: "bonding_registry \<Rightarrow> string \<Rightarrow> bool" where
  "has_active_bond r oracle_id \<longleftrightarrow> list_ex (\<lambda>b. bd_oracle_id b = oracle_id \<and> bd_status b = BondActive) (bg_pending_bonds r)"

text \<open>The drift check compares the time with itself and always passes, so it leaves no trace here.\<close>

definition challenge_oracle ::
    "bonding_registry \<Rightarrow> string \<Rightarrow> string \<Rightarrow> string \<Rightarrow> string \<Rightarrow> u64 \<Rightarrow> bonding_registry \<times> (collateral_error + string)" where
  "challenge_oracle r oracle_id challenger_id report_hash evidence current_time =
     (if \<not> has_active_bond r oracle_id then (r, Inl OracleNotBonded)
      else if list_ex (\<lambda>c. dc_oracle_id c = oracle_id \<and> dc_status c = ChallengeVoting) (bg_challenges r) then (r, Inl AlreadyChallenged)
      else (case (case map_of (bg_pools r) oracle_id of
                    None \<Rightarrow> Inr r
                  | Some p \<Rightarrow> map_sum id (put_pool r oracle_id) (pool_dispute p (cp_locked_balance p))) of
              Inl e \<Rightarrow> (r, Inl e)
            | Inr r1 \<Rightarrow>
                let challenge_id = ''challenge_'' @ show_u64 (bg_challenge_counter r1);
                    challenge = \<lparr>dc_id = challenge_id, dc_oracle_id = oracle_id, dc_challenger_id = challenger_id,
                      dc_report_hash = report_hash, dc_evidence = evidence, dc_timestamp = current_time, dc_status = ChallengeVoting,
                      dc_votes_for = 0, dc_votes_against = 0, dc_voting_end_time = current_time + bg_voting_period_ms r1\<rparr>;
                    kept = (if length (bg_challenges r1) \<ge> 10000
                            then filter (\<lambda>c. dc_status c = ChallengeVoting) (bg_challenges r1) else bg_challenges r1) in
                (r1\<lparr>bg_challenge_counter := bg_challenge_counter r1 + 1, bg_challenges := kept @ [challenge]\<rparr>, Inr challenge_id)))"

definition calculate_vote_weight :: "bonding_registry \<Rightarrow> string \<Rightarrow> u64" where
  "calculate_vote_weight r voter_id =
     (case map_of (bg_pools r) voter_id of
        Some p \<Rightarrow> min (1 + max (total_collateral p) 1 div 100) 10
      | None \<Rightarrow> 1)"

definition put_challenge :: "bonding_registry \<Rightarrow> nat \<Rightarrow> dispute_challenge \<Rightarrow> bonding_registry" where
  "put_challenge r i c = r\<lparr>bg_challenges := (bg_challenges r)[i := c]\<rparr>"

definition vote_on_challenge :: "bonding_registry \<Rightarrow> string \<Rightarrow> string \<Rightarrow> bool \<Rightarrow> bonding_registry \<times> (collateral_error + unit)" where
  "vote_on_challenge r challenge_id voter_id vote_yes =
     (case position_of (\<lambda>c. dc_id c = challenge_id) (bg_challenges r) of
        None \<Rightarrow> (r, Inl ChallengeNotFound)
      | Some i \<Rightarrow>
          let c = bg_challenges r ! i; weight = calculate_vote_weight r voter_id in
          if dc_status c \<noteq> ChallengeVoting then (r, Inl NotInVoting)
          else (put_challenge r i (if vote_yes then c\<lparr>dc_votes_for := dc_votes_for c + weight\<rparr>
                                   else c\<lparr>dc_votes_against := dc_votes_against c + weight\<rparr>), Inr ()))"

definition execute_slashing :: "bonding_registry \<Rightarrow> string \<Rightarrow> string \<Rightarrow> bonding_registry \<times> (collateral_error + unit)" where
  "execute_slashing r oracle_id challenger_id =
     (case map_of (bg_pools r) oracle_id of
        None \<Rightarrow> (r, Inr ())
      | Some p \<Rightarrow>
          (case pool_slash p (cp_in_dispute_balance p) of
             Inl e \<Rightarrow> (r, Inl e)
           | Inr (p', slash_amount) \<Rightarrow>
               let reward = (slash_amount * 5) div 100;
                   old = (case map_of (bg_slasher_rewards r) challenger_id of Some x \<Rightarrow> x | None \<Rightarrow> 0) in
               ((put_pool r oracle_id p')\<lparr>bg_slasher_rewards := hm_insert challenger_id (old + reward) (bg_slasher_rewards r),
                  bg_slashed_total := bg_slashed_total r + slash_amount\<rparr>, Inr ())))"

definition resolve_challenge :: "bonding_registry \<Rightarrow> string \<Rightarrow> u64 \<Rightarrow> bonding_registry \<times> (collateral_error + challenge_outcome)" where
  "resolve_challenge r challenge_id current_time =
     (case position_of (\<lambda>c. dc_id c = challenge_id) (bg_challenges r) of
        None \<Rightarrow> (r, Inl ChallengeNotFound)
      | Some i \<Rightarrow>
          let c = bg_challenges r ! i in
          if dc_status c \<noteq> ChallengeVoting then (r, Inl NotInVoting)
          else if current_time < dc_voting_end_time c then (r, Inl VotingNotEnded)
          else
            let outcome = (if dc_votes_for c > dc_votes_against c then ChallengeAccepted else ChallengeRejected);
                r1 = put_challenge r i (c\<lparr>dc_status := ChallengeResolved\<rparr>) in
            if outcome = ChallengeAccepted then
              (case execute_slashing r1 (dc_oracle_id c) (dc_challenger_id c) of
                 (r2, Inl e) \<Rightarrow> (r2, Inl e)
               | (r2, Inr _) \<Rightarrow> (r2, Inr outcome))
            else
              (case map_of (bg_pools r1) (dc_oracle_id c) of
                 None \<Rightarrow> (r1, Inr outcome)
               | Some p \<Rightarrow>
                   (case pool_restore p (cp_in_dispute_balance p) of
                      Inl e \<Rightarrow> (r1, Inl e)
                    | Inr p' \<Rightarrow> (put_pool r1 (dc_oracle_id c) p', Inr outcome))))"

definition release_collateral :: "bonding_registry \<Rightarrow> string \<Rightarrow> bonding_registry \<times> (collateral_error + unit)" where
  "release_collateral r oracle_id =
     (if list_ex (\<lambda>c. dc_oracle_id c = oracle_id \<and> dc_status c \<noteq> ChallengeResolved) (bg_challenges r) then (r, Inl ActiveDisputes)
      else (case map_of (bg_pools r) oracle_id of
              None \<Rightarrow> (r, Inl PoolNotFound)
            | Some p \<Rightarrow>
                (case pool_release p (cp_in_dispute_balance p) of
                   Inl e \<Rightarrow> (r, Inl e)
                 | Inr p' \<Rightarrow> (put_pool r oracle_id p', Inr ()))))"

definition withdraw_collateral :: "bonding_registry \<Rightarrow> string \<Rightarrow> u64 \<Rightarrow> bonding_registry \<times> (collateral_error + u64)" where
  "withdraw_collateral r oracle_id amount =
     (case map_of (bg_pools r) oracle_id of
        None \<Rightarrow> (r, Inl PoolNotFound)
      | Some p \<Rightarrow>
          if \<not> can_withdraw p amount then (r, Inl CannotWithdraw)
          else (put_pool r oracle_id (p\<lparr>cp_available_balance := cp_available_balance p - amount\<rparr>), Inr amount))"

definition claim_slasher_reward :: "bonding_registry \<Rightarrow> string \<Rightarrow> bonding_registry \<times> (collateral_error + u64)" where
  "claim_slasher_reward r challenger_id =
     (case map_of (bg_slasher_rewards r) challenger_id of
        None \<Rightarrow> (r, Inl NoRewards)
      | Some x \<Rightarrow> (r\<lparr>bg_slasher_rewards := hm_remove challenger_id (bg_slasher_rewards r)\<rparr>, Inr x))"

definition set_voting_period :: "bonding_registry \<Rightarrow> u64 \<Rightarrow> bonding_registry" where
  "set_voting_period r period_ms = r\<lparr>bg_voting_period_ms := period_ms\<rparr>"

definition set_min_collateral :: "bonding_registry \<Rightarrow> u64 \<Rightarrow> bonding_registry" where
  "set_min_collateral r min_amount = r\<lparr>bg_min_collateral := min_amount\<rparr>"

section \<open>Where collateral goes\<close>

datatype collateral_op =
    Deposit string u64
  | Lock string u64 u64
  | Activate string
  | Challenge string string string string u64
  | VoteOn string string bool
  | Resolve string u64
  | Release string
  | Withdraw string u64
  | Claim string
  | SetVotingPeriod u64
  | SetMinCollateral u64

fun collateral_step :: "bonding_registry \<Rightarrow> collateral_op \<Rightarrow> bonding_registry" where
  "collateral_step r (Deposit i a) = fst (deposit_collateral r i a)"
| "collateral_step r (Lock i a t) = fst (lock_collateral r i a t)"
| "collateral_step r (Activate i) = fst (activate_bond r i)"
| "collateral_step r (Challenge i c h e t) = fst (challenge_oracle r i c h e t)"
| "collateral_step r (VoteOn c v b) = fst (vote_on_challenge r c v b)"
| "collateral_step r (Resolve c t) = fst (resolve_challenge r c t)"
| "collateral_step r (Release i) = fst (release_collateral r i)"
| "collateral_step r (Withdraw i a) = fst (withdraw_collateral r i a)"
| "collateral_step r (Claim c) = fst (claim_slasher_reward r c)"
| "collateral_step r (SetVotingPeriod ms) = set_voting_period r ms"
| "collateral_step r (SetMinCollateral a) = set_min_collateral r a"

text \<open>The collateral of a pool and of the registry as numbers.\<close>

definition pool_value :: "collateral_pool \<Rightarrow> nat" where
  "pool_value p = unat (cp_locked_balance p) + unat (cp_available_balance p) + unat (cp_in_dispute_balance p)"

definition collateral_of :: "bonding_registry \<Rightarrow> string \<Rightarrow> nat" where
  "collateral_of r i = (case map_of (bg_pools r) i of Some p \<Rightarrow> pool_value p | None \<Rightarrow> 0)"

lemma move_no_wrap:
  fixes a b x :: u64
  assumes "x \<le> a" and "unat a + unat b < 2 ^ 64"
  shows "unat (a - x) + unat (b + x) = unat a + unat b"
proof -
  have "unat b + unat x < 2 ^ 64" using assms by (simp add: word_le_nat_alt)
  then have "unat (b + x) = unat b + unat x" by (intro unat_add_no_wrap) simp
  then show ?thesis using assms(1) by (simp add: unat_sub word_le_nat_alt)
qed

lemma pool_moves:
  assumes "pool_value p < 2 ^ 64"
  shows "pool_lock p a = Inr p' \<Longrightarrow> pool_value p' = pool_value p"
    and "pool_dispute p a = Inr p' \<Longrightarrow> pool_value p' = pool_value p"
    and "pool_release p a = Inr p' \<Longrightarrow> pool_value p' = pool_value p"
    and "pool_restore p a = Inr p' \<Longrightarrow> pool_value p' = pool_value p"
proof -
  have b: "unat (cp_available_balance p) + unat (cp_locked_balance p) < 2 ^ 64"
      "unat (cp_locked_balance p) + unat (cp_in_dispute_balance p) < 2 ^ 64"
      "unat (cp_in_dispute_balance p) + unat (cp_available_balance p) < 2 ^ 64"
    using assms by (simp_all add: pool_value_def)
  show "pool_lock p a = Inr p' \<Longrightarrow> pool_value p' = pool_value p"
    using move_no_wrap [OF _ b(1), of a] by (auto simp: pool_lock_def pool_value_def not_less split: if_splits)
  show "pool_dispute p a = Inr p' \<Longrightarrow> pool_value p' = pool_value p"
    using move_no_wrap [OF _ b(2), of a] by (auto simp: pool_dispute_def pool_value_def not_less split: if_splits)
  show "pool_release p a = Inr p' \<Longrightarrow> pool_value p' = pool_value p"
    using move_no_wrap [OF _ b(3), of a] by (auto simp: pool_release_def pool_value_def not_less split: if_splits)
  show "pool_restore p a = Inr p' \<Longrightarrow> pool_value p' = pool_value p"
    using move_no_wrap [OF _ b(3), of a] by (auto simp: pool_restore_def pool_value_def not_less split: if_splits)
qed

lemma collateral_of_put [simp]: "collateral_of (put_pool r i p) j = (if j = i then pool_value p else collateral_of r j)"
  by (simp add: collateral_of_def put_pool_def)

lemma collateral_of_other_fields [simp]:
  "collateral_of (r\<lparr>bg_pending_bonds := x\<rparr>) j = collateral_of r j" "collateral_of (r\<lparr>bg_challenges := y\<rparr>) j = collateral_of r j"
  "collateral_of (r\<lparr>bg_challenge_counter := n\<rparr>) j = collateral_of r j" "collateral_of (r\<lparr>bg_slasher_rewards := w\<rparr>) j = collateral_of r j"
  "collateral_of (r\<lparr>bg_slashed_total := n\<rparr>) j = collateral_of r j" "collateral_of (put_challenge r k c) j = collateral_of r j"
  "collateral_of (set_voting_period r n) j = collateral_of r j" "collateral_of (set_min_collateral r n) j = collateral_of r j"
  by (simp_all add: collateral_of_def put_challenge_def set_voting_period_def set_min_collateral_def)

lemma collateral_of_pool: "map_of (bg_pools r) i = Some p \<Longrightarrow> collateral_of r i = pool_value p"
  by (simp add: collateral_of_def)

definition lost_vote :: "bonding_registry \<Rightarrow> string \<Rightarrow> u64 \<Rightarrow> string \<Rightarrow> bool" where
  "lost_vote r challenge_id t i \<longleftrightarrow> (\<exists>c \<in> set (bg_challenges r). dc_id c = challenge_id \<and> dc_oracle_id c = i \<and> dc_status c = ChallengeVoting \<and>
     dc_voting_end_time c \<le> t \<and> dc_votes_against c < dc_votes_for c)"

lemma deposit_value:
  assumes "collateral_of r i + unat a < 2 ^ 64"
  shows "collateral_of (fst (deposit_collateral r i a)) j = collateral_of r j + (if j = i then unat a else 0)"
proof -
  obtain r1 p where p: "map_of (bg_pools r1) i = Some p" "fst (deposit_collateral r i a) = put_pool r1 i (pool_deposit p a)"
      "\<And>k. collateral_of r1 k = collateral_of r k"
  proof (cases "map_of (bg_pools r) i")
    case None
    show thesis
    proof (rule that [of "put_pool r i (collateral_pool_new i (bg_min_collateral r))" "collateral_pool_new i (bg_min_collateral r)"])
      show "collateral_of (put_pool r i (collateral_pool_new i (bg_min_collateral r))) k = collateral_of r k" for k
        using None by (simp add: pool_value_def collateral_pool_new_def) (simp add: collateral_of_def)
    qed (use None in \<open>simp_all add: deposit_collateral_def create_pool_def hm_contains_def put_pool_def\<close>)
  next
    case (Some p)
    then show thesis by (intro that [of r p]) (simp_all add: deposit_collateral_def hm_contains_def)
  qed
  have "pool_value p + unat a < 2 ^ 64" using assms p(3) [of i] collateral_of_pool [OF p(1)] by simp
  then have "unat (cp_available_balance p) + unat a < 2 ^ 64" by (simp add: pool_value_def)
  then have "unat (cp_available_balance p + a) = unat (cp_available_balance p) + unat a" by (intro unat_add_no_wrap) simp
  then have "pool_value (pool_deposit p a) = pool_value p + unat a" by (simp add: pool_value_def pool_deposit_def)
  then show ?thesis using p collateral_of_pool [OF p(1)] p(3) [of i] by simp
qed

lemma kept_value:
  assumes "\<And>k. collateral_of r k < 2 ^ 64"
  shows "collateral_of (fst (lock_collateral r i a t)) j = collateral_of r j"
    and "collateral_of (fst (activate_bond r i)) j = collateral_of r j"
    and "collateral_of (fst (challenge_oracle r i c h e t)) j = collateral_of r j"
    and "collateral_of (fst (vote_on_challenge r cid v b)) j = collateral_of r j"
    and "collateral_of (fst (release_collateral r i)) j = collateral_of r j"
    and "collateral_of (fst (claim_slasher_reward r c)) j = collateral_of r j"
proof -
  have v: "pool_value p < 2 ^ 64" "collateral_of r k = pool_value p" if "map_of (bg_pools r) k = Some p" for k p
    using assms [of k] collateral_of_pool [OF that] by simp_all
  show "collateral_of (fst (lock_collateral r i a t)) j = collateral_of r j"
    using pool_moves(1) v by (auto simp: lock_collateral_def Let_def split: option.split sum.split)
  show "collateral_of (fst (activate_bond r i)) j = collateral_of r j"
    by (simp add: activate_bond_def split: option.split)
  show "collateral_of (fst (challenge_oracle r i c h e t)) j = collateral_of r j"
  proof -
    have "collateral_of r1 j = collateral_of r j"
      if "map_of (bg_pools r) i = Some p" "map_sum id (put_pool r i) (pool_dispute p (cp_locked_balance p)) = Inr r1" for p r1
      using that pool_moves(2) v by (cases "pool_dispute p (cp_locked_balance p)") auto
    then show ?thesis by (auto simp: challenge_oracle_def Let_def split: option.splits sum.splits)
  qed
  show "collateral_of (fst (vote_on_challenge r cid v b)) j = collateral_of r j"
    by (simp add: vote_on_challenge_def Let_def split: option.split)
  show "collateral_of (fst (release_collateral r i)) j = collateral_of r j"
    using pool_moves(3) v by (auto simp: release_collateral_def split: option.split sum.split)
  show "collateral_of (fst (claim_slasher_reward r c)) j = collateral_of r j"
    by (simp add: claim_slasher_reward_def split: option.split)
qed

lemma slashing_value:
  "collateral_of (fst (execute_slashing r i c)) j =
     collateral_of r j - (if j = i then (case map_of (bg_pools r) i of Some p \<Rightarrow> unat (cp_in_dispute_balance p) | None \<Rightarrow> 0) else 0)"
proof (cases "map_of (bg_pools r) i")
  case (Some p)
  then show ?thesis using collateral_of_pool [OF Some] by (simp add: execute_slashing_def pool_slash_def Let_def) (simp add: pool_value_def)
qed (simp add: execute_slashing_def)

lemma resolve_value:
  assumes "\<And>k. collateral_of r k < 2 ^ 64"
  shows "collateral_of (fst (resolve_challenge r cid t)) j = collateral_of r j -
    (if lost_vote r cid t j then (case map_of (bg_pools r) j of Some p \<Rightarrow> unat (cp_in_dispute_balance p) | None \<Rightarrow> 0) else 0)
    \<or> collateral_of (fst (resolve_challenge r cid t)) j = collateral_of r j"
proof (cases "position_of (\<lambda>c. dc_id c = cid) (bg_challenges r)")
  case (Some k)
  let ?c = "bg_challenges r ! k"
  have c: "?c \<in> set (bg_challenges r)" "dc_id ?c = cid" using position_of_Some [OF Some] by simp_all
  have pools: "bg_pools (put_challenge r k d) = bg_pools r" for d by (simp add: put_challenge_def)
  have restored: "collateral_of (put_pool (put_challenge r k d) i p') j = collateral_of r j"
    if "map_of (bg_pools r) i = Some p" "pool_restore p a = Inr p'" for i p p' a d
    using pool_moves(4) [OF _ that(2)] assms [of i] collateral_of_pool [OF that(1)] by simp
  have slashed: "lost_vote r cid t (dc_oracle_id ?c)"
    if "dc_status ?c = ChallengeVoting" "dc_voting_end_time ?c \<le> t" "dc_votes_against ?c < dc_votes_for ?c"
    using c that by (auto simp: lost_vote_def)
  show ?thesis
  proof (cases "dc_status ?c = ChallengeVoting \<and> dc_voting_end_time ?c \<le> t")
    case voting: True
    show ?thesis
    proof (cases "dc_votes_against ?c < dc_votes_for ?c")
      case True
      let ?r = "put_challenge r k (?c\<lparr>dc_status := ChallengeResolved\<rparr>)"
      have "fst (resolve_challenge r cid t) = fst (execute_slashing ?r (dc_oracle_id ?c) (dc_challenger_id ?c))"
        using voting True by (simp add: resolve_challenge_def Some Let_def not_less [symmetric] split: prod.split sum.split)
      then show ?thesis using slashed voting True slashing_value [of ?r] by (simp add: pools)
    next
      case False
      then show ?thesis using voting restored by (simp add: resolve_challenge_def Some Let_def pools del: collateral_of_put split: option.split sum.split)
    qed
  next
    case False
    then have "fst (resolve_challenge r cid t) = r" by (auto simp: resolve_challenge_def Some Let_def not_less)
    then show ?thesis by simp
  qed
qed (simp add: resolve_challenge_def)

lemma withdraw_value:
  "collateral_of (fst (withdraw_collateral r i a)) j =
     collateral_of r j - (if j = i \<and> snd (withdraw_collateral r i a) = Inr a then unat a else 0)"
proof (cases "map_of (bg_pools r) i")
  case (Some p)
  then show ?thesis using collateral_of_pool [OF Some]
    by (auto simp: withdraw_collateral_def can_withdraw_def pool_value_def unat_sub word_le_nat_alt)
qed (simp add: withdraw_collateral_def)

text \<open>
  C24: as long as no sum of balances overflows, the collateral of an oracle grows only by deposits to it and shrinks only in two
  ways: by a withdrawal of its own that succeeded, for the amount withdrawn, or by the resolution of a challenge
  against it that was put to the vote, whose voting time is over and which more weight supported than opposed; and then by no more than the part in dispute.
\<close>

theorem collateral_lost_only_by_verdict:
  assumes small: "\<And>k. collateral_of r k < 2 ^ 64" and deposit: "\<And>i a. op = Deposit i a \<Longrightarrow> collateral_of r i + unat a < 2 ^ 64"
    and step: "r' = collateral_step r op"
  shows "(collateral_of r j < collateral_of r' j \<longrightarrow> (\<exists>a. op = Deposit j a \<and> collateral_of r' j = collateral_of r j + unat a)) \<and>
    (collateral_of r' j < collateral_of r j \<longrightarrow>
       (\<exists>a. op = Withdraw j a \<and> snd (withdraw_collateral r j a) = Inr a \<and> collateral_of r' j + unat a = collateral_of r j) \<or>
       (\<exists>cid t p. op = Resolve cid t \<and> lost_vote r cid t j \<and> map_of (bg_pools r) j = Some p \<and>
          collateral_of r' j + unat (cp_in_dispute_balance p) = collateral_of r j))"
proof (cases op)
  case (Deposit i a)
  then show ?thesis using deposit_value [OF deposit [OF Deposit], of j] step by auto
next
  case (Withdraw i a)
  have "unat a \<le> collateral_of r i" if "snd (withdraw_collateral r i a) = Inr a"
    using that collateral_of_pool by (fastforce simp: withdraw_collateral_def can_withdraw_def pool_value_def word_le_nat_alt split: option.splits if_splits)
  then show ?thesis using Withdraw withdraw_value [of r i a j] step by auto
next
  case (Resolve cid t)
  have "unat (cp_in_dispute_balance p) \<le> collateral_of r j" if "map_of (bg_pools r) j = Some p" for p
    using collateral_of_pool [OF that] by (simp add: pool_value_def)
  then show ?thesis using Resolve resolve_value [OF small, of cid t j] step by (auto split: option.splits if_splits)
qed (use step kept_value [OF small] in simp_all)

definition demo_bonds :: bonding_registry where
  "demo_bonds =
     foldl collateral_step (bonding_registry_new 100)
       [Deposit ''o'' 500, Lock ''o'' 200 1, Activate ''o'', Challenge ''o'' ''c'' ''h'' ''e'' 10, VoteOn ''challenge_0'' ''c'' True]"

lemmas collateral_demo_simps = bonding_registry_new_def deposit_collateral_def create_pool_def hm_contains_def put_pool_def
  hm_insert_def collateral_pool_new_def pool_deposit_def lock_collateral_def pool_lock_def activate_bond_def challenge_oracle_def
  has_active_bond_def pool_dispute_def vote_on_challenge_def put_challenge_def calculate_vote_weight_def Let_def

lemma show_zero: "show_u64 0 = ''0''"
proof -
  have "show_nat_digits (Suc n) 0 = ''0''" for n by (simp, code_simp)
  from this [of 19] show ?thesis by (simp add: show_u64_def numeral_eq_Suc del: show_nat_digits.simps)
qed

lemma demo_bonds_eval:
  "bg_pools demo_bonds = [(''o'', (collateral_pool_new ''o'' 100)\<lparr>cp_available_balance := 300, cp_in_dispute_balance := 200\<rparr>)]"
  "bg_challenges demo_bonds = [\<lparr>dc_id = ''challenge_0'', dc_oracle_id = ''o'', dc_challenger_id = ''c'', dc_report_hash = ''h'', dc_evidence = ''e'',
     dc_timestamp = 10, dc_status = ChallengeVoting, dc_votes_for = 1, dc_votes_against = 0, dc_voting_end_time = 259200010\<rparr>]"
  by (simp_all add: demo_bonds_def collateral_demo_simps show_zero)

lemma demo_bonds_value: "collateral_of demo_bonds k = (if k = ''o'' then 500 else 0)"
  by (simp add: collateral_of_def demo_bonds_eval pool_value_def collateral_pool_new_def)

theorem collateral_lost_only_by_verdict_witness:
  "collateral_of (collateral_step demo_bonds (Resolve ''challenge_0'' 259200010)) ''o'' = 300 \<and>
   lost_vote demo_bonds ''challenge_0'' 259200010 ''o''"
proof -
  let ?op = "Resolve ''challenge_0'' 259200010"
  have now: "collateral_of (collateral_step demo_bonds ?op) ''o'' = 300"
    by (simp add: resolve_challenge_def demo_bonds_eval put_challenge_def execute_slashing_def pool_slash_def Let_def collateral_of_def put_pool_def
        hm_insert_def pool_value_def collateral_pool_new_def)
  have "lost_vote demo_bonds ''challenge_0'' 259200010 ''o''"
    using collateral_lost_only_by_verdict [of demo_bonds ?op "collateral_step demo_bonds ?op" "''o''"] now by (simp add: demo_bonds_value)
  then show ?thesis using now by blast
qed

text \<open>
  Slashing destroys the whole amount in dispute but accounts for the slashing factor of it only: at ten percent, nine tenths of the
  disputed collateral leave the pool and appear neither as slashed, nor as reward, nor in any balance.
\<close>

theorem slashing_loses_collateral:
  assumes "map_of (bg_pools r) i = Some p" and "cp_slashing_factor p = 10" and "unat (cp_in_dispute_balance p) * 10 < 2 ^ 64"
    and "r' = fst (execute_slashing r i c)"
  shows "collateral_of r' i + unat (cp_in_dispute_balance p) = collateral_of r i \<and>
    bg_slashed_total r' = bg_slashed_total r + cp_in_dispute_balance p * 10 div 100 \<and>
    unat (cp_in_dispute_balance p * 10 div 100) = unat (cp_in_dispute_balance p) div 10"
proof -
  have "unat (cp_in_dispute_balance p * 10) = unat (cp_in_dispute_balance p) * 10"
    using assms(3) unat_mul_no_wrap [of "cp_in_dispute_balance p" 10] by simp
  then have "unat (cp_in_dispute_balance p * 10 div 100) = unat (cp_in_dispute_balance p) div 10"
    by (simp add: unat_div)
  moreover have "collateral_of r' i + unat (cp_in_dispute_balance p) = collateral_of r i"
    using slashing_value [of r i c i] collateral_of_pool [OF assms(1)] assms(1,4) by (simp add: pool_value_def)
  moreover have "bg_slashed_total r' = bg_slashed_total r + cp_in_dispute_balance p * 10 div 100"
    using assms(1,2,4) by (simp add: execute_slashing_def pool_slash_def Let_def)
  ultimately show ?thesis by blast
qed

text \<open>Nothing records who voted, nor when: one voter adds weight to a challenge with every call, so a single challenger decides it alone.\<close>

theorem votes_repeat:
  assumes "position_of (\<lambda>c. dc_id c = cid) (bg_challenges r) = Some k" and "dc_status (bg_challenges r ! k) = ChallengeVoting"
    and "map_of (bg_pools r) v = None"
  shows "dc_votes_for (bg_challenges (foldl collateral_step r (replicate n (VoteOn cid v True))) ! k) = dc_votes_for (bg_challenges r ! k) + of_nat n"
  using assms
proof (induction n arbitrary: r)
  case (Suc n)
  let ?c = "(bg_challenges r ! k)\<lparr>dc_votes_for := dc_votes_for (bg_challenges r ! k) + 1\<rparr>"
  have k: "k < length (bg_challenges r)" "dc_id (bg_challenges r ! k) = cid" "\<forall>l < k. dc_id (bg_challenges r ! l) \<noteq> cid"
    using position_of_Some [OF Suc.prems(1)] by auto
  have step: "collateral_step r (VoteOn cid v True) = put_challenge r k ?c"
    using Suc.prems by (simp add: vote_on_challenge_def calculate_vote_weight_def Let_def)
  have "position_of P (xs[l := x]) = Some l"
    if "position_of P xs = Some l" "P x" for P and xs :: "dispute_challenge list" and l x
    using that by (induction xs arbitrary: l) (auto split: nat.splits if_splits)
  then have "position_of (\<lambda>c. dc_id c = cid) (bg_challenges (put_challenge r k ?c)) = Some k"
    using Suc.prems(1) k(2) by (simp add: put_challenge_def)
  then have "dc_votes_for (bg_challenges (foldl collateral_step (put_challenge r k ?c) (replicate n (VoteOn cid v True))) ! k) =
      dc_votes_for (bg_challenges (put_challenge r k ?c) ! k) + of_nat n"
    using Suc.prems(2,3) k(1) by (intro Suc.IH) (simp_all add: put_challenge_def)
  then show ?case using k(1) by (simp only: replicate_Suc foldl_Cons step) (simp add: put_challenge_def add.assoc)
qed simp

end
