(* ===== verification/Spec2Isabelle.thy ===== *)
theory Spec2Isabelle
  imports Executor Mempool Bft_Round Endorsement Acl Accountability Engine Dpos Governance_Api
    Tokenomics Bridge Contracts Ledger Staking Light_Client
    Multisig Oracle Private_Data Gateway Security_Token Chaincode Collateral
begin

text \<open>
  A verification development for the Cerulean ledger, a permissioned blockchain node written in Rust
  (\<open>src/src/\<close>). Paths below are relative to \<open>src/src/\<close>.

  \<^bold>\<open>The program.\<close> A transaction is proposed, endorsed by organizations, ordered into a block, validated
  against the versions of the keys it read and committed to the world state. Blocks are agreed on by a
  BFT protocol of three voting phases and arranged in a DAG with a fork-choice rule. Around this path the node
  has peer discovery and a gateway that drives the path, access control, the life cycle of chaincode,
  governance, token economics, a bridge to other chains, token contracts, security tokens, multi-signature
  contracts, a price oracle with collateral, private data, light clients, and an older proof-of-work ledger with
  staking that keeps its own chain.

  \<^bold>\<open>Conventions.\<close> Functions of the source are functions on explicit states; a method that mutates its
  receiver returns the updated record with its result. \<open>Result\<close> is a sum type with \<open>Inl\<close> for \<open>Err\<close>,
  \<open>Option\<close> is \<open>option\<close>, a panic and a loop that does not end are \<open>None\<close>. Machine integers are words that wrap, as
  in the release profile; \<open>saturating_\<close> operations are defined in \<open>Cerulean_Prelude\<close>. A \<open>HashMap\<close> is an association
  list with distinct keys and no property depends on its order. Mutexes are dropped, since every operation
  holds its lock throughout. Hash functions, signature schemes, JSON, clocks, random identifiers, environment
  variables and storage back ends are parameters; what a theorem needs of them is a hypothesis of that theorem.

  \<^bold>\<open>Theories.\<close>
  \<^item> \<open>Cerulean_Prelude\<close>: machine types, saturating arithmetic, byte and decimal encodings with their injectivity,
    hash maps and sums over them, chains of checks, insertion sort, and the collections \<open>u64_simps\<close> and \<open>hm_simps\<close>.
  \<^item> \<open>World_State\<close> (\<open>storage/world_state.rs\<close>): the trait as a record of operations with its laws in the locale
    \<open>world_state\<close>, the in-memory state that interprets it, history and composite keys.
    \<open>Transactions\<close> (\<open>transaction/mvcc.rs\<close>, \<open>rwset.rs\<close>, \<open>proposal.rs\<close>, \<open>endorsed.rs\<close>): read validation and the
    sequential commit, refined to a specification on look-up functions.
    \<open>Parallel\<close> (\<open>transaction/parallel.rs\<close>): conflicts and waves. \<open>Executor\<close> (\<open>transaction/executor.rs\<close>): both executors,
    shown equal to the sequential commit over every world state that keeps the laws.
    \<open>Mempool\<close> (\<open>transaction/mempool.rs\<close>): the pool and its double-spend check.
  \<^item> \<open>Bft_Quorum\<close> (\<open>consensus/bft/types.rs\<close>, \<open>quorum.rs\<close>, \<open>vote_collector.rs\<close>): votes, certificates, validation and the
    collector; agreement from the locale \<open>byz_quorum\<close>. \<open>Bft_Round\<close> (\<open>round.rs\<close>, \<open>round_manager.rs\<close>): the round as a state
    machine with every handler, its invariant, progress, leader rotation and timeouts.
    \<open>Dag\<close> (\<open>consensus/dag.rs\<close>, \<open>fork_choice.rs\<close>): insertion, weights, fork choice.
    \<open>Engine\<close> (\<open>consensus/scheduler.rs\<close>, \<open>validator.rs\<close>, \<open>engine.rs\<close>): the whole of \<open>accept_block\<close>.
    \<open>Accountability\<close> (\<open>consensus/equivocation.rs\<close>, \<open>slashing.rs\<close>): equivocation and penalties.
    \<open>Weighted_Choice\<close>, \<open>Dpos\<close> (\<open>consensus/dpos.rs\<close>) and \<open>Staking\<close> (\<open>staking.rs\<close>): the walk over running sums of
    stake as the locale \<open>weighted_choice\<close>, interpreted for the committee and for the staking manager.
  \<^item> \<open>Endorsement\<close> (\<open>endorsement/\<close>, \<open>identity/pqc_policy.rs\<close>, \<open>msp/\<close>): policies, registries, validation; the stores interpret
    the locale \<open>keyed_store\<close>. \<open>Acl\<close> (\<open>acl/\<close>, \<open>enforce_acl\<close> of \<open>api/errors.rs\<close>): access checks and
    their enforcement on requests. \<open>Private_Data\<close> (\<open>private_data/mod.rs\<close>): collections and
    entries with lifetimes.
  \<^item> \<open>Discovery\<close> (\<open>discovery/service.rs\<close>): peers and the plan of endorsers. \<open>Gateway\<close> (\<open>gateway/mod.rs\<close>, blocks and transactions of
    \<open>storage/memory.rs\<close>): endorsement, ordering and commit of a transaction, over the contracts \<open>ordering_contract\<close> and
    \<open>block_store_contract\<close>, which the solo orderer and the in-memory store interpret.
    \<open>Chaincode\<close> (\<open>chaincode/mod.rs\<close>, \<open>definition.rs\<close>, \<open>upgrade.rs\<close>, \<open>api/handlers/chaincode.rs\<close>): installing, approving, committing and upgrading.
  \<^item> \<open>Ordering\<close> (\<open>ordering/mod.rs\<close>, \<open>service.rs\<close>): the solo orderer. \<open>Merkle\<close> (\<open>bridge/verifier.rs\<close>): trees and proofs.
    \<open>Light_Client\<close> (\<open>light_client/\<close>): header chain, certificates and state proofs, on top of \<open>Bft_Quorum\<close> and \<open>Merkle\<close>.
  \<^item> \<open>Governance\<close> (\<open>governance/\<close>) and \<open>Governance_Api\<close> (\<open>api/handlers/governance.rs\<close>): parameters, proposals, votes and the
    handlers that change them. \<open>Tokenomics\<close> (\<open>tokenomics/\<close>): issuance, fees, deposits. \<open>Bridge\<close> (\<open>bridge/\<close>):
    escrow, protocol and relayer. \<open>Contracts\<close> (\<open>smart_contracts.rs\<close>): fungible and non-fungible tokens.
    \<open>Security_Token\<close> (\<open>compliance/erc3643.rs\<close>): investors, compliance rules and the token.
    \<open>Multisig\<close> (\<open>multisig_contracts.rs\<close>). \<open>Oracle\<close> (\<open>oracle_system.rs\<close>). \<open>Collateral\<close> (\<open>oracle_collateral.rs\<close>): pools, bonds and disputes. \<open>Ledger\<close> (\<open>blockchain.rs\<close>, \<open>models.rs\<close>): the proof-of-work
    ledger with wallets and mempool.

  \<^bold>\<open>What the theorems show.\<close>
  \<^item> Execution: wave scheduling separates conflicting transactions, and both executors leave the state and report the
    outcomes of the sequential commit. The ordering service keeps the order of submission. A submission
    to the gateway that succeeds did all of endorsement, ordering and commit, and plans of endorsers are sound and complete for their policy.
  \<^item> Agreement: with \<open>3 f + 1\<close> validators and at most \<open>f\<close> faulty ones, certificates of one round, engines and light clients
    agree; decided rounds hold valid certificates, which engines and light clients of the same validators accept (below); a round with a quorum of votes per phase decides; nodes with the
    same blocks choose the same chain. Where a check of the code is weaker than agreement needs (a threshold for
    other numbers of validators, votes that are not compared with their certificate) the theorems say so by
    counterexample, and the hypotheses of the positive theorems exclude it.
  \<^item> Value: token supplies stay under their caps, balances and indices stay consistent, the bridge, the staking
    manager, the deposits of governance and of storage and the security token conserve value, collateral is lost only by a lost vote, the ledger computes exact balances as long as no
    sum overflows.
  \<^item> Authority: endorsement validation, access control, chaincode upgrades, allowances, token transfers and multi-signature operations
    succeed only with the authority the code means to ask for; penalties hit only equivocators.
  \<^item> Totality: mining returns exactly when a nonce exists, the relayer and the walks over the DAG end, parsing inverts
    printing for composite keys, and Merkle proofs built by a node verify at a light client.

  \<^bold>\<open>Bounds and fuel.\<close> The recursions over the DAG carry as fuel the number of vertices plus one, which is enough for
  every DAG built by \<open>add_block\<close> since a block is inserted after its parent. The loop of the relayer carries the
  number of attempts the queue still allows, proved sufficient. The walk up the organizational units is cut at 100 as
  in the source. The genesis search ends after the ten million attempts of the source by its own counter. Mining is a
  \<open>partial_function\<close>. Hypotheses of the form \<open>< 2 ^ 64\<close> say that a sum fits in its machine integer.

  \<^bold>\<open>Not modelled.\<close> The peer-to-peer network, TLS and PKI, storage adapters for RocksDB and CouchDB, the HTTP layer apart from
  access enforcement and the handlers of governance and chaincode, command-line tools, metrics and test drivers are input and output. The raft back
  end, WebAssembly chaincode and the EVM wrapper run library code. Signing, key storage and zero-knowledge proofs are
  cryptographic libraries, present as parameters. The awaits of the gateway are not interleaved: one call is one step. Channels,
  event delivery, compliance formats, scoring heuristics, billing, airdrops, checkpoint files, the older
  validation gate for transactions and staking rewards in floating point are services beside the path above and are left out. Concurrency is modelled
  where the code relies on it: the tasks of the concurrent executor, whose completion is a parameter.
\<close>

section \<open>From a decision to the nodes that follow it\<close>

lemma decided_commit:
  assumes "br_state (run_round (bft_round_new rd n l vs ver) es) = Decided"
  obtains h qc where "br_block_hash (run_round (bft_round_new rd n l vs ver) es) = Some h"
    and "br_commit_qc (run_round (bft_round_new rd n l vs ver) es) = Some qc"
    and "validate_qc (quorum_validator_new vs ver) qc = Inr ()" and "qc_phase qc = Commit" and "qc_block_hash qc = h"
proof -
  obtain h qc where qc: "br_block_hash (run_round (bft_round_new rd n l vs ver) es) = Some h"
      "br_commit_qc (run_round (bft_round_new rd n l vs ver) es) = Some qc"
      "validate_qc (quorum_validator_new vs ver) qc = Inr ()" "quorum_certificate_new Commit h rd (qc_votes qc) = Inr qc"
    using decided_certificates [OF assms] by auto
  then have "qc_phase qc = Commit" "qc_block_hash qc = h"
    by (auto simp: quorum_certificate_new_ok) (metis quorum_certificate.select_convs(1,3))+
  then show ?thesis using that qc by blast
qed

text \<open>
  C31: what a round decides, engines and light clients of the same validators accept: with the certificate that a
  decided round holds attached to the decided block, the BFT check of an engine passes, whatever else
  the engine checks, and a light client syncs the header of the block when it extends the client's chain.
\<close>

theorem decision_accepted:
  assumes decided: "br_state (run_round (bft_round_new rd n l vs ver) es) = Decided"
    and block: "br_block_hash (run_round (bft_round_new rd n l vs ver) es) = Some (db_hash b)"
      "db_commit_qc b = br_commit_qc (run_round (bft_round_new rd n l vs ver) es)"
    and header: "lh_hash h = db_hash b" "lh_commit_qc h = db_commit_qc b" "verify_hash sha h"
    and client: "lc_quorum_validator c = Some (quorum_validator_new vs ver)" "lc_chain c \<noteq> []" "verify_parent h (last (lc_chain c))"
  shows "(\<forall>env reason. snd (accept_block env (with_bft e vs ver) b) \<noteq> Inl (BftError reason)) \<and>
    snd (sync_header sha c h) = Inr ()"
proof -
  obtain qc where qc: "br_commit_qc (run_round (bft_round_new rd n l vs ver) es) = Some qc"
      "validate_qc (quorum_validator_new vs ver) qc = Inr ()" "qc_phase qc = Commit" "qc_block_hash qc = db_hash b"
    using decided_commit [OF decided] block(1) by (metis option.inject)
  have "check_bft (with_bft e vs ver) b = Inr ()" using qc block(2) by (simp add: check_bft_def with_bft_def)
  then have "snd (accept_block env (with_bft e vs ver) b) \<noteq> Inl (BftError reason)" for env reason
    by (auto simp: accept_block_def Let_def split: validity_result.split sum.split option.split prod.split)
  moreover have "check_commit_qc (lc_quorum_validator c) h = Inr ()"
    using qc block(2) header(1,2) client(1) by (simp add: check_commit_qc_def)
  ultimately show ?thesis
    using client(2,3) header(3) by (simp add: sync_header_def header_append_def)
qed

definition demo_decided :: bft_round where
  "demo_decided = run_round (bft_round_new 1 ''v0'' ''v0'' [''v0''] (\<lambda>_ _ sig. sig \<noteq> []))
     (Proposal 113 ''v0'' # map (\<lambda>p. VoteEvent ((demo_signed p ''v0'')\<lparr>vm_block_hash := 113\<rparr>)) [Prepare, PreCommit, Commit])"

theorem decision_accepted_witness:
  "snd (accept_block demo_crypto (with_bft demo_engine [''v0''] (\<lambda>_ _ sig. sig \<noteq> []))
     ((dag_block_new 113 112 1 0 4 ''v0'' [])\<lparr>db_commit_qc := br_commit_qc demo_decided\<rparr>)) \<noteq> Inl (BftError MissingCommitQc) \<and>
   snd (sync_header demo_sha \<lparr>lc_chain = [header0], lc_quorum_validator = Some (quorum_validator_new [''v0''] (\<lambda>_ _ sig. sig \<noteq> []))\<rparr>
     (header1\<lparr>lh_commit_qc := br_commit_qc demo_decided\<rparr>)) = Inr ()"
proof -
  let ?ver = "\<lambda>_ _ sig :: bytes. sig \<noteq> []"
  let ?c = "\<lparr>lc_chain = [header0], lc_quorum_validator = Some (quorum_validator_new [''v0''] ?ver)\<rparr>"
  let ?b = "(dag_block_new 113 112 1 0 4 ''v0'' [])\<lparr>db_commit_qc := br_commit_qc demo_decided\<rparr>"
  let ?h = "header1\<lparr>lh_commit_qc := br_commit_qc demo_decided\<rparr>"
  have d: "br_state demo_decided = Decided" "br_block_hash demo_decided = Some 113"
    by (simp_all add: demo_decided_def demo_signed_def bft_round_new_def handle_proposal_def ensure_collector_def handle_vote_def
        on_vote_def add_vote_def vote_collector_new_def validate_vote_def quorum_validator_new_def hm_contains_def
        hm_insert_def quorum_threshold_def max_faulty_def quorum_certificate_new_def Let_def)
  have "header_bytes ?h = header_bytes header1" by (simp add: header_bytes_def)
  then have h: "verify_hash demo_sha ?h" using header_hashes(2) by (simp add: verify_hash_def header1_def)
  show ?thesis
    using decision_accepted [OF d(1) [unfolded demo_decided_def], of ?b ?h demo_sha ?c demo_engine] d(2) h
    by (simp add: demo_decided_def dag_block_new_def header1_def verify_parent_def header0_def)
qed

end
